(* ===== verification/Rkhv_Prelude.thy ===== *)
theory Rkhv_Prelude
  imports Main "HOL-Library.Word" "HOL-Library.Multiset"
begin

text \<open>
  Shared vocabulary of the development.  Machine integers keep the width the C code gives them.
  A function of the hypervisor that can stop the machine returns a sum: \<open>Inl\<close> of the way it
  stopped, or \<open>Inr\<close> of its result.  The ways to stop are \<open>Panic\<close> (the macro \<open>PANIC\<close> of
  hv/include/rkhv/panic.h, which never returns), \<open>Fault\<close> (an access outside an array, through a
  dangling or null pointer: undefined behaviour in C) and \<open>Diverges\<close> (a loop that never ends).
  The theory also collects the facts on pages and on words that the components share.
\<close>

unbundle bit_operations_syntax

section \<open>Types and control flow\<close>

type_synonym u8 = "8 word"
type_synonym u16 = "16 word"
type_synonym u32 = "32 word"
type_synonym u64 = "64 word"

datatype stop = Panic string | Fault string | Diverges

type_synonym 'a res = "stop + 'a"

named_theorems hv_const \<open>the values of the macros of the headers\<close>
named_theorems hv_frame \<open>what an operation leaves unchanged\<close>

definition bnd :: "'a res \<Rightarrow> ('a \<Rightarrow> 'b res) \<Rightarrow> 'b res" where
  "bnd r f = (case r of Inl e \<Rightarrow> Inl e | Inr a \<Rightarrow> f a)"

lemma bnd_simps [simp]: "bnd (Inl e) f = Inl e" "bnd (Inr a) f = f a"
  by (simp_all add: bnd_def)

lemma bnd_Inr_iff: "bnd r f = Inr b \<longleftrightarrow> (\<exists>a. r = Inr a \<and> f a = Inr b)"
  by (cases r) (simp_all add: bnd_def)

lemma bnd_Inl_iff: "bnd r f = Inl e \<longleftrightarrow> r = Inl e \<or> (\<exists>a. r = Inr a \<and> f a = Inl e)"
  by (cases r) (simp_all add: bnd_def)

lemma bnd_InrE [elim!]:
  assumes "bnd r f = Inr b"
  obtains a where "r = Inr a" "f a = Inr b"
  using assms by (auto simp: bnd_Inr_iff)

lemma bnd_assoc: "bnd (bnd r f) g = bnd r (\<lambda>a. bnd (f a) g)"
  by (cases r) simp_all

lemma bnd_cong [fundef_cong]:
  "r = r' \<Longrightarrow> (\<And>a. r' = Inr a \<Longrightarrow> f a = g a) \<Longrightarrow> bnd r f = bnd r' g"
  by (cases r') simp_all

text \<open>A loop that may not end: \<open>None\<close> of its \<open>option\<close> model is the outcome \<open>Diverges\<close>.\<close>

definition loop_result :: "'a res option \<Rightarrow> 'a res" where
  "loop_result r = (case r of None \<Rightarrow> Inl Diverges | Some x \<Rightarrow> x)"

lemma loop_result_simps [simp]: "loop_result None = Inl Diverges" "loop_result (Some x) = x"
  by (simp_all add: loop_result_def)

text \<open>
  \<open>for (size_t i = i0; i < i0 + n; i++) body\<close> with a body that changes a state of type \<open>'s\<close> and
  may stop the machine.
\<close>

primrec for_loop :: "(nat \<Rightarrow> 's \<Rightarrow> 's res) \<Rightarrow> nat \<Rightarrow> nat \<Rightarrow> 's \<Rightarrow> 's res" where
  "for_loop body i 0 s = Inr s"
| "for_loop body i (Suc n) s = bnd (body i s) (for_loop body (Suc i) n)"

lemma for_loop_invariant:
  assumes "for_loop body i n s = Inr s'" and "I i s"
    and "\<And>j t t'. i \<le> j \<Longrightarrow> j < i + n \<Longrightarrow> I j t \<Longrightarrow> body j t = Inr t' \<Longrightarrow> I (Suc j) t'"
  shows "I (i + n) s'"
  using assms
proof (induction n arbitrary: i s)
  case 0
  then show ?case by simp
next
  case (Suc n)
  from Suc.prems(1) obtain t where t: "body i s = Inr t" "for_loop body (Suc i) n t = Inr s'"
    by auto
  have "I (Suc i + n) s'"
  proof (rule Suc.IH [OF t(2)])
    show "I (Suc i) t" using Suc.prems(2,3) t(1) by simp
  qed (use Suc.prems(3) in auto)
  then show ?case by simp
qed

lemma for_loop_append: "for_loop body i (m + n) s = bnd (for_loop body i m s) (for_loop body (i + m) n)"
proof (induction m arbitrary: i s)
  case (Suc m)
  then have "for_loop body (Suc i) (m + n) = (\<lambda>s. bnd (for_loop body (Suc i) m s) (for_loop body (Suc i + m) n))"
    by (simp add: fun_eq_iff)
  then show ?case by (simp add: bnd_assoc)
qed simp

lemma for_loop_total:
  assumes "I i s"
    and "\<And>j t. i \<le> j \<Longrightarrow> j < i + n \<Longrightarrow> I j t \<Longrightarrow> \<exists>t'. body j t = Inr t' \<and> I (Suc j) t'"
  shows "\<exists>s'. for_loop body i n s = Inr s' \<and> I (i + n) s'"
  using assms
proof (induction n arbitrary: i s)
  case 0
  then show ?case by simp
next
  case (Suc n)
  from Suc.prems obtain t where t: "body i s = Inr t" "I (Suc i) t" by force
  have "\<exists>s'. for_loop body (Suc i) n t = Inr s' \<and> I (Suc i + n) s'"
    by (rule Suc.IH [OF t(2)]) (use Suc.prems(2) in auto)
  with t show ?case by simp
qed

section \<open>Words\<close>

lemma unat_lt_2_64 [simp]: "unat (a :: u64) < 18446744073709551616"
  using unsigned_less [of a] by simp

lemma word_unat_eqI: "unat a = unat b \<Longrightarrow> a = (b :: 'a :: len word)"
  by (rule unsigned_word_eqI [where ?'a = nat])

lemma unat_plus_64: "unat (a + b :: u64) = (unat a + unat b) mod 18446744073709551616"
  by (simp add: unat_word_ariths)

lemma unat_plus_64_no_wrap:
  "unat a + unat b < 18446744073709551616 \<Longrightarrow> unat (a + b :: u64) = unat a + unat b"
  by (simp add: unat_plus_64)

lemma unat_mult_64_no_wrap:
  "unat a * unat b < 18446744073709551616 \<Longrightarrow> unat (a * b :: u64) = unat a * unat b"
  by (simp add: unat_word_ariths)

lemma unat_minus_64: "b \<le> a \<Longrightarrow> unat (a - b :: u64) = unat a - unat b"
  by (rule unat_sub)

lemma unat_of_nat_64: "n < 18446744073709551616 \<Longrightarrow> unat (of_nat n :: u64) = n"
  by (simp add: unat_of_nat)

lemma unat_minus_one_64 [simp]: "unat (- 1 :: u64) = 18446744073709551615"
  by (simp add: unsigned_minus_1_eq_mask mask_eq_exp_minus_1)

lemma unat_diff_Suc: "x \<noteq> a \<Longrightarrow> unat (x - a) = Suc (unat (x - (a + 1) :: u64))"
proof -
  assume "x \<noteq> a"
  then have nz: "x - a \<noteq> 0" by simp
  have "unat (x - a - 1) = unat (x - a) - 1" by (rule unat_minus_one [OF nz])
  moreover have "unat (x - a) \<noteq> 0" using nz by (simp add: unat_eq_0)
  ultimately show ?thesis by (simp add: diff_diff_eq)
qed

section \<open>Pages\<close>

text \<open>
  A page is 4096 bytes.  \<open>page_base\<close> is the code's \<open>address & PAGE_MASK\<close>, with \<open>PAGE_MASK\<close> the int
  \<open>~0xfff\<close> sign-extended to 64 bits, and \<open>page_offset\<close> is \<open>address & 0xfff\<close>.
\<close>

definition page_aligned :: "u64 \<Rightarrow> bool" where
  "page_aligned a \<longleftrightarrow> a AND 0xfff = 0"

lemma and_fff_eq_mod: "unat (a AND 0xfff :: u64) = unat a mod 4096"
proof -
  have "a AND 0xfff = take_bit 12 a"
    by (simp add: take_bit_eq_mask mask_eq_exp_minus_1)
  then show ?thesis
    by (simp add: take_bit_eq_mod unat_mod)
qed

lemma page_split: "(a AND 0xfffffffffffff000) + (a AND 0xfff) = (a :: u64)"
proof -
  have m: "(0xfffffffffffff000 :: u64) = NOT 0xfff" by simp
  have "(a AND 0xfffffffffffff000) + (a AND 0xfff) = (a AND NOT 0xfff) OR (a AND 0xfff)"
    unfolding m by (rule disjunctive_add_eq_or) (auto intro!: bit_eqI simp: bit_simps)
  also have "\<dots> = a" by (auto intro!: bit_eqI simp: bit_simps)
  finally show ?thesis .
qed

lemma unat_page_base: "unat (a AND 0xfffffffffffff000 :: u64) = unat a div 4096 * 4096"
proof -
  let ?b = "a AND 0xfffffffffffff000"
  have le: "?b \<le> a" by (rule word_and_le2)
  have "unat ?b = unat a - unat (a AND 0xfff)"
    using unat_sub [OF word_and_le2 [of a "0xfff"]] page_split [of a]
    by (metis add_diff_cancel_right')
  then show ?thesis by (simp add: and_fff_eq_mod minus_mod_eq_div_mult)
qed

lemma page_aligned_iff: "page_aligned a \<longleftrightarrow> unat a mod 4096 = 0"
  by (metis and_fff_eq_mod page_aligned_def unsigned_0 unsigned_eq_0_iff)

lemma page_alignedE:
  assumes "page_aligned a"
  obtains k where "unat a = 4096 * k" "k < 4503599627370496"
proof
  show "unat a = 4096 * (unat a div 4096)" using assms by (auto simp: page_aligned_iff)
  show "unat a div 4096 < 4503599627370496" using unat_lt_2_64 [of a] by linarith
qed

lemma page_aligned_plus: "page_aligned a \<Longrightarrow> page_aligned b \<Longrightarrow> page_aligned (a + b)"
proof -
  assume "page_aligned a" "page_aligned b"
  then have "4096 dvd unat a + unat b" by (intro dvd_add) (simp_all add: page_aligned_iff dvd_eq_mod_eq_0)
  then have "(unat a + unat b) mod 18446744073709551616 mod 4096 = 0"
    by (subst mod_mod_cancel) (simp_all add: dvd_eq_mod_eq_0)
  then show "page_aligned (a + b)" by (simp only: page_aligned_iff unat_plus_64)
qed

lemma page_aligned_base [simp]: "page_aligned (a AND 0xfffffffffffff000)"
  by (simp add: page_aligned_iff unat_page_base)

lemma page_base_aligned [simp]:
  assumes "page_aligned a"
  shows "a AND 0xfffffffffffff000 = a"
  using page_split [of a] assms by (simp add: page_aligned_def)

lemma unat_page_plus:
  assumes "page_aligned p" and "unat off < 4096"
  shows "unat (p + off) = unat p + unat off"
proof -
  obtain k where "unat p = 4096 * k" "k < 4503599627370496" by (rule page_alignedE [OF assms(1)])
  with assms(2) show ?thesis by (intro unat_plus_64_no_wrap) linarith
qed

lemma page_base_plus:
  assumes "page_aligned p" and "unat off < 4096"
  shows "(p + off) AND 0xfffffffffffff000 = p" and "(p + off) AND 0xfff = off"
proof -
  obtain k where k: "unat p = 4096 * k" by (rule page_alignedE [OF assms(1)])
  have u: "unat (p + off) = 4096 * k + unat off" using unat_page_plus [OF assms] k by simp
  show "(p + off) AND 0xfffffffffffff000 = p"
    by (rule word_unat_eqI) (use assms(2) in \<open>simp add: unat_page_base u k\<close>)
  show "(p + off) AND 0xfff = off"
    by (rule word_unat_eqI) (use assms(2) in \<open>simp add: and_fff_eq_mod u\<close>)
qed

lemma page_plus_inj:
  assumes "page_aligned p" "page_aligned q" "unat a < 4096" "unat b < 4096" "p + a = q + b"
  shows "p = q \<and> a = b"
  using page_base_plus [OF assms(1,3)] page_base_plus [OF assms(2,4)] assms(5) by metis

end
