(* ===== verification/Phys_Mem.thy ===== *)
theory Phys_Mem
  imports Rkhv_Prelude
begin

text \<open>
  Physical memory as the hypervisor reaches it through its identity map (\<open>P2V_IDENTITY_MAP\<close>,
  common/include/rkhv/memory_map.h): a function from physical addresses to bytes, little endian.
  \<open>memset\<close> and \<open>memcpy\<close> are the loops of common/include/rkhv/mem.h; \<open>read64\<close> and \<open>write64\<close> are
  the accesses the code makes through a \<open>uint64_t*\<close>.  The last section gives the two laws that page
  tables need, as the locale \<open>table_store\<close> and its interpretation on this memory.
\<close>

type_synonym phys_mem = "u64 \<Rightarrow> u8"

section \<open>The loops of mem.h\<close>

primrec memset :: "u64 \<Rightarrow> u8 \<Rightarrow> nat \<Rightarrow> phys_mem \<Rightarrow> phys_mem" where
  "memset s c 0 m = m"
| "memset s c (Suc i) m = (memset s c i m)(s + of_nat i := c)"

primrec memcpy :: "u64 \<Rightarrow> u64 \<Rightarrow> nat \<Rightarrow> phys_mem \<Rightarrow> phys_mem" where
  "memcpy dest src 0 m = m"
| "memcpy dest src (Suc i) m =
     (let m' = memcpy dest src i m in m'(dest + of_nat i := m' (src + of_nat i)))"

text \<open>\<open>memcpy\<close> from an object that is not in the modelled memory (code, a string literal).\<close>

primrec memcpy_from :: "u64 \<Rightarrow> u8 list \<Rightarrow> phys_mem \<Rightarrow> phys_mem" where
  "memcpy_from dest [] m = m"
| "memcpy_from dest (b # bs) m = memcpy_from (dest + 1) bs (m(dest := b))"

lemma eq_plus_of_nat_iff:
  fixes x s :: u64
  assumes "n < 18446744073709551616"
  shows "x = s + of_nat n \<longleftrightarrow> unat (x - s) = n"
proof
  assume "x = s + of_nat n"
  then show "unat (x - s) = n" by (simp add: unat_of_nat_64 assms)
next
  assume "unat (x - s) = n"
  then have "of_nat (unat (x - s)) = (of_nat n :: u64)" by (rule arg_cong)
  then have "x - s = of_nat n" by simp
  then show "x = s + of_nat n" by (simp add: algebra_simps)
qed

lemma memset_apply:
  "n \<le> 18446744073709551616 \<Longrightarrow> memset s c n m x = (if unat (x - s) < n then c else m x)"
proof (induction n)
  case 0
  then show ?case by simp
next
  case (Suc n)
  then have "n < 18446744073709551616" by simp
  from eq_plus_of_nat_iff [OF this, of x s] Suc show ?case by (auto simp: less_Suc_eq)
qed

lemma memcpy_apply:
  assumes "n \<le> 18446744073709551616"
    and "\<And>i j. i < n \<Longrightarrow> j < n \<Longrightarrow> dest + of_nat i \<noteq> src + of_nat j"
  shows "memcpy dest src n m x = (if unat (x - dest) < n then m (src + (x - dest)) else m x)"
  using assms
proof (induction n arbitrary: x)
  case 0
  then show ?case by simp
next
  case (Suc n)
  have n: "n < 18446744073709551616" using Suc.prems(1) by simp
  have IH: "memcpy dest src n m y = (if unat (y - dest) < n then m (src + (y - dest)) else m y)" for y
    using Suc by simp
  have "\<not> unat (src + of_nat n - dest) < n"
  proof
    assume l: "unat (src + of_nat n - dest) < n"
    have "src + of_nat n = dest + of_nat (unat (src + of_nat n - dest))" by simp
    with l Suc.prems(2) [of "unat (src + of_nat n - dest)" n] show False by simp
  qed
  with IH have "memcpy dest src n m (src + of_nat n) = m (src + of_nat n)" by simp
  with IH eq_plus_of_nat_iff [OF n, of x dest] show ?case
    by (auto simp: less_Suc_eq Let_def)
qed

lemma memcpy_from_apply:
  "length bs \<le> 18446744073709551616 \<Longrightarrow>
   memcpy_from dest bs m x = (if unat (x - dest) < length bs then bs ! unat (x - dest) else m x)"
proof (induction bs arbitrary: dest m)
  case Nil
  then show ?case by simp
next
  case (Cons b bs)
  have len: "length bs < 18446744073709551616" using Cons.prems by simp
  show ?case
  proof (cases "x = dest")
    case True
    with Cons len show ?thesis by simp
  next
    case False
    with unat_diff_Suc [OF False] Cons show ?thesis by auto
  qed
qed

section \<open>Multi-byte accesses\<close>

primrec read_le :: "nat \<Rightarrow> phys_mem \<Rightarrow> u64 \<Rightarrow> u64" where
  "read_le 0 m a = 0"
| "read_le (Suc n) m a = ucast (m a) OR push_bit 8 (read_le n m (a + 1))"

primrec write_le :: "nat \<Rightarrow> phys_mem \<Rightarrow> u64 \<Rightarrow> u64 \<Rightarrow> phys_mem" where
  "write_le 0 m a v = m"
| "write_le (Suc n) m a v = write_le n (m(a := ucast v)) (a + 1) (drop_bit 8 v)"

definition read64 :: "phys_mem \<Rightarrow> u64 \<Rightarrow> u64" where
  "read64 m a = read_le 8 m a"

definition write64 :: "phys_mem \<Rightarrow> u64 \<Rightarrow> u64 \<Rightarrow> phys_mem" where
  "write64 m a v = write_le 8 m a v"

lemma write_le_other:
  assumes "n \<le> 8" and "\<not> unat (x - a) < n"
  shows "write_le n m a v x = m x"
  using assms
proof (induction n arbitrary: m a v)
  case 0
  then show ?case by simp
next
  case (Suc n)
  from Suc.prems(2) have ne: "x \<noteq> a" by auto
  have "\<not> unat (x - (a + 1)) < n" using unat_diff_Suc [OF ne] Suc.prems(2) by simp
  with Suc ne show ?case by simp
qed

lemma read_le_cong:
  "(\<And>k. k < n \<Longrightarrow> m (a + of_nat k) = m' (a + of_nat k)) \<Longrightarrow> read_le n m a = read_le n m' a"
proof (induction n arbitrary: a)
  case 0
  then show ?case by simp
next
  case (Suc n)
  have "m a = m' a" using Suc.prems [of 0] by simp
  moreover have "read_le n m (a + 1) = read_le n m' (a + 1)"
    by (rule Suc.IH) (use Suc.prems [of "Suc k" for k] in \<open>simp add: algebra_simps\<close>)
  ultimately show ?case by simp
qed

lemma read_le_write_le: "n \<le> 8 \<Longrightarrow> read_le n (write_le n m a v) a = take_bit (8 * n) v"
proof (induction n arbitrary: m a v)
  case 0
  then show ?case by simp
next
  case (Suc n)
  have "unat (a - (a + 1)) = 18446744073709551615" by simp
  with Suc.prems have "write_le n (m(a := ucast v)) (a + 1) (drop_bit 8 v) a = ucast v"
    by (subst write_le_other) simp_all
  moreover have "read_le n (write_le n (m(a := ucast v)) (a + 1) (drop_bit 8 v)) (a + 1)
      = take_bit (8 * n) (drop_bit 8 v)"
    using Suc by simp
  ultimately have "read_le (Suc n) (write_le (Suc n) m a v) a
      = ucast (ucast v :: u8) OR push_bit 8 (take_bit (8 * n) (drop_bit 8 v))"
    by simp
  also have "\<dots> = take_bit (8 * Suc n) v"
    by (rule bit_word_eqI) (auto simp: bit_simps)
  finally show ?case .
qed

lemma read64_write64_same [simp]: "read64 (write64 m a v) a = v"
  by (simp add: read64_def write64_def read_le_write_le take_bit_word_eq_self)

lemma write64_other: "\<not> unat (x - a) < 8 \<Longrightarrow> write64 m a v x = m x"
  unfolding write64_def by (rule write_le_other) simp_all

lemma read64_cong: "(\<And>k. k < 8 \<Longrightarrow> m (a + of_nat k) = m' (a + of_nat k)) \<Longrightarrow> read64 m a = read64 m' a"
  unfolding read64_def by (rule read_le_cong)

section \<open>The interface of a table of 64-bit entries\<close>

text \<open>
  What the page-table code relies on: a write is read back at its own address and at no other
  entry address.  Inside the locale, the loops that fill a table are sequences of writes.
\<close>

locale table_store =
  fixes rd :: "'m \<Rightarrow> u64 \<Rightarrow> u64" and wr :: "'m \<Rightarrow> u64 \<Rightarrow> u64 \<Rightarrow> 'm" and ok :: "u64 \<Rightarrow> bool"
  assumes rd_wr_same: "rd (wr m a v) a = v"
    and rd_wr_other: "ok a \<Longrightarrow> ok b \<Longrightarrow> a \<noteq> b \<Longrightarrow> rd (wr m a v) b = rd m b"
begin

lemma rd_wr: "ok a \<Longrightarrow> ok b \<Longrightarrow> rd (wr m a v) b = (if a = b then v else rd m b)"
  by (simp add: rd_wr_same rd_wr_other)

lemma rd_wrs:
  "ok b \<Longrightarrow> (\<And>a v. (a, v) \<in> set ws \<Longrightarrow> ok a) \<Longrightarrow> distinct (map fst ws) \<Longrightarrow>
   rd (foldl (\<lambda>m (a, v). wr m a v) m ws) b = (case map_of ws b of None \<Rightarrow> rd m b | Some v \<Rightarrow> v)"
proof (induction ws arbitrary: m)
  case Nil
  then show ?case by simp
next
  case (Cons w ws)
  obtain a v where w: "w = (a, v)" by (cases w)
  have ok: "ok a" using Cons.prems(2) w by auto
  have "rd (foldl (\<lambda>m (a, v). wr m a v) (wr m a v) ws) b
      = (case map_of ws b of None \<Rightarrow> rd (wr m a v) b | Some v \<Rightarrow> v)"
  proof (rule Cons.IH)
    show "ok x" if "(x, y) \<in> set ws" for x y by (rule Cons.prems(2)) (use that in auto)
  qed (use Cons.prems in simp_all)
  moreover have "map_of ws a = None" using Cons.prems(3) w by (simp add: map_of_eq_None_iff)
  ultimately show ?case using w rd_wr [OF ok Cons.prems(1)] by (auto split: option.splits)
qed

end

definition entry_ok :: "u64 \<Rightarrow> bool" where
  "entry_ok a \<longleftrightarrow> unat a mod 8 = 0"

lemma write64_other_aligned:
  fixes a b :: u64
  assumes "unat a mod 8 = 0" "unat b mod 8 = 0" "a \<noteq> b" "k < 8"
  shows "\<not> unat ((b + of_nat k) - a) < 8"
proof -
  have "8 dvd unat a" "8 dvd unat b" using assms by (simp_all add: dvd_eq_mod_eq_0)
  then obtain i j where ij: "unat a = 8 * i" "unat b = 8 * j" by (auto elim!: dvdE)
  have ne: "i \<noteq> j" using ij assms(3) by (auto intro: word_unat_eqI)
  have lim: "8 * i < 18446744073709551616" "8 * j < 18446744073709551616"
    using ij unat_lt_2_64 [of a] unat_lt_2_64 [of b] by simp_all
  have k: "unat (of_nat k :: u64) = k" using assms(4) by (simp add: unat_of_nat_64)
  have u: "unat (b + of_nat k) = 8 * j + k"
    using ij k lim assms(4) by (subst unat_plus_64_no_wrap) simp_all
  show ?thesis
    using u ij ne lim assms(4) by (auto simp: unat_sub_if')
qed

interpretation mem64: table_store read64 write64 entry_ok
proof unfold_locales
  show "read64 (write64 m a v) a = v" for m a v by simp
  show "read64 (write64 m a v) b = read64 m b" if "entry_ok a" "entry_ok b" "a \<noteq> b" for m a b v
    using that write64_other_aligned [of a b]
    by (intro read64_cong write64_other) (simp add: entry_ok_def)
qed

text \<open>The writes of a loop, in order.\<close>

definition write64s :: "phys_mem \<Rightarrow> (u64 \<times> u64) list \<Rightarrow> phys_mem" where
  "write64s m ws = foldl (\<lambda>m (a, v). write64 m a v) m ws"

section \<open>Entries and pages\<close>

text \<open>\<open>table[index]\<close> of a \<open>uint64_t*\<close>: the address of an entry.\<close>

definition entry :: "u64 \<Rightarrow> u64 \<Rightarrow> u64" where
  "entry t i = t + 8 * i"

definition page_eq :: "phys_mem \<Rightarrow> phys_mem \<Rightarrow> u64 \<Rightarrow> bool" where
  "page_eq m m' p \<longleftrightarrow> (\<forall>off. unat off < 4096 \<longrightarrow> m (p + off) = m' (p + off))"

definition page_zero :: "phys_mem \<Rightarrow> u64 \<Rightarrow> bool" where
  "page_zero m p \<longleftrightarrow> (\<forall>off. unat off < 4096 \<longrightarrow> m (p + off) = 0)"

lemma page_eq_refl [simp]: "page_eq m m p"
  by (simp add: page_eq_def)

lemma page_eq_sym: "page_eq m m' p \<Longrightarrow> page_eq m' m p"
  by (simp add: page_eq_def)

lemma page_eq_trans: "page_eq m m' p \<Longrightarrow> page_eq m' m'' p \<Longrightarrow> page_eq m m'' p"
  by (simp add: page_eq_def)

lemma page_eq_zero: "page_eq m m' p \<Longrightarrow> page_zero m p \<Longrightarrow> page_zero m' p"
  by (simp add: page_eq_def page_zero_def)

lemma unat_8_mult: "unat i < 512 \<Longrightarrow> unat (8 * i :: u64) = 8 * unat i"
  by (subst unat_mult_64_no_wrap) simp_all

lemma unat_entry:
  assumes "page_aligned t" "unat i < 512"
  shows "unat (entry t i) = unat t + 8 * unat i"
  using unat_page_plus [OF assms(1), of "8 * i"] assms(2) by (simp add: entry_def unat_8_mult)

lemma entry_ok_entry [simp]:
  assumes "page_aligned t" "unat i < 512"
  shows "entry_ok (entry t i)"
  using assms by (auto simp: entry_ok_def unat_entry elim!: page_alignedE)

lemma entry_offset:
  assumes "unat i < 512" "k < 8"
  shows "entry t i + of_nat k = t + (8 * i + of_nat k)" and "unat (8 * i + of_nat k :: u64) < 4096"
proof -
  show "entry t i + of_nat k = t + (8 * i + of_nat k)" by (simp add: entry_def)
  have "unat (of_nat k :: u64) = k" using assms(2) by (simp add: unat_of_nat_64)
  then show "unat (8 * i + of_nat k :: u64) < 4096"
    using assms by (subst unat_plus_64_no_wrap) (simp_all add: unat_8_mult)
qed

lemma entry_inj:
  assumes "page_aligned t" "page_aligned t'" "unat i < 512" "unat i' < 512" "entry t i = entry t' i'"
  shows "t = t' \<and> i = i'"
proof -
  have "t = t' \<and> 8 * i = 8 * i'"
    using assms page_plus_inj [of t t' "8 * i" "8 * i'"] by (simp add: entry_def unat_8_mult)
  moreover then have "8 * unat i = 8 * unat i'" using assms(3,4) by (metis unat_8_mult)
  ultimately show ?thesis by (simp add: word_unat_eqI)
qed

lemma read64_write64_entry:
  assumes "page_aligned t" "page_aligned t'" "unat i < 512" "unat i' < 512"
  shows "read64 (write64 m (entry t i) v) (entry t' i') =
         (if t = t' \<and> i = i' then v else read64 m (entry t' i'))"
  using assms mem64.rd_wr [of "entry t i" "entry t' i'"] entry_inj [OF assms] by auto

lemma page_eq_read64: "page_eq m m' t \<Longrightarrow> unat i < 512 \<Longrightarrow> read64 m (entry t i) = read64 m' (entry t i)"
  by (rule read64_cong) (simp add: page_eq_def entry_offset)

lemma page_eq_write64_entry:
  assumes "page_aligned t" "page_aligned q" "unat i < 512" "t \<noteq> q"
  shows "page_eq (write64 m (entry t i) v) m q"
  unfolding page_eq_def
proof (intro allI impI write64_other notI)
  fix off :: u64
  let ?k = "unat (q + off - entry t i)"
  assume "unat off < 4096" and "?k < 8"
  moreover have "q + off = entry t i + of_nat ?k" by simp
  ultimately show False
    using entry_offset(1) [OF assms(3), of ?k t] entry_offset(2) [OF assms(3), of ?k] page_plus_inj [of q t off "8 * i + of_nat ?k"] assms(1,2)
      assms(4) by simp
qed

lemma page_eq_memset:
  assumes "page_aligned p" "page_aligned q" "p \<noteq> q"
  shows "page_eq (memset p c 4096 m) m q"
  unfolding page_eq_def
proof (intro allI impI)
  fix off :: u64
  assume off: "unat off < 4096"
  have "\<not> unat (q + off - p) < 4096"
  proof
    assume "unat (q + off - p) < 4096"
    then have "q = p \<and> off = q + off - p"
      by (intro page_plus_inj) (use assms off in simp_all)
    with assms(3) show False by simp
  qed
  then show "memset p c 4096 m (q + off) = m (q + off)" by (simp add: memset_apply)
qed

lemma page_zero_memset: "page_zero (memset p 0 4096 m) p"
  by (simp add: page_zero_def memset_apply)

lemma read_le_zero: "(\<And>k. k < n \<Longrightarrow> m (a + of_nat k) = 0) \<Longrightarrow> read_le n m a = 0"
  using read_le_cong [of n m a "\<lambda>_. 0"]
proof -
  assume "\<And>k. k < n \<Longrightarrow> m (a + of_nat k) = 0"
  then have "read_le n m a = read_le n (\<lambda>_. 0) a" by (intro read_le_cong) simp
  moreover have "read_le n (\<lambda>_. 0) b = 0" for b by (induction n arbitrary: b) simp_all
  ultimately show ?thesis by simp
qed

lemma page_zero_read64: "page_zero m t \<Longrightarrow> unat i < 512 \<Longrightarrow> read64 m (entry t i) = 0"
  unfolding read64_def by (rule read_le_zero) (simp add: page_zero_def entry_offset)

section \<open>Filling a table\<close>

text \<open>\<open>for (i = 0; i < 512; i++) table[i] = f(i)\<close>.\<close>

definition fill_table :: "phys_mem \<Rightarrow> u64 \<Rightarrow> (nat \<Rightarrow> u64) \<Rightarrow> phys_mem" where
  "fill_table m t f = write64s m (map (\<lambda>i. (entry t (of_nat i), f i)) [0..<512])"

lemma distinct_map_entry:
  assumes "page_aligned t" "n \<le> 512"
  shows "distinct (map (\<lambda>i. entry t (of_nat i)) [0..<n])"
proof -
  have "inj_on (\<lambda>i. entry t (of_nat i)) {0..<n}"
  proof (rule inj_onI)
    fix i j assume ij: "i \<in> {0..<n}" "j \<in> {0..<n}" "entry t (of_nat i) = entry t (of_nat j)"
    then have u: "unat (of_nat i :: u64) = i" "unat (of_nat j :: u64) = j"
      using assms(2) by (simp_all add: unat_of_nat_64)
    have "unat (of_nat i :: u64) < 512" "unat (of_nat j :: u64) < 512"
      unfolding u using ij(1,2) assms(2) by auto
    then have "(of_nat i :: u64) = of_nat j" using entry_inj [OF assms(1,1) _ _ ij(3)] by blast
    with u show "i = j" by metis
  qed
  then show ?thesis by (simp add: distinct_map)
qed

lemma read64_fill_table:
  assumes "page_aligned t" "page_aligned u" "unat i < 512"
  shows "read64 (fill_table m t f) (entry u i) = (if u = t then f (unat i) else read64 m (entry u i))"
proof -
  let ?ws = "map (\<lambda>i. (entry t (of_nat i), f i)) [0..<512]"
  have d: "distinct (map fst ?ws)" using distinct_map_entry [OF assms(1), of 512] by (simp add: comp_def)
  have "read64 (foldl (\<lambda>m (a, v). write64 m a v) m ?ws) (entry u i) =
      (case map_of ?ws (entry u i) of None \<Rightarrow> read64 m (entry u i) | Some v \<Rightarrow> v)"
  proof (rule mem64.rd_wrs)
    show "entry_ok a" if "(a, v) \<in> set ?ws" for a v
    proof -
      from that obtain k where k: "k < 512" "a = entry t (of_nat k)" by auto
      then have "unat (of_nat k :: u64) < 512" by (simp add: unat_of_nat_64)
      with assms(1) k(2) show ?thesis by simp
    qed
  qed (use assms d in simp_all)
  moreover have "map_of ?ws (entry u i) = (if u = t then Some (f (unat i)) else None)"
  proof (cases "u = t")
    case True
    have "(entry t (of_nat (unat i)), f (unat i)) \<in> set ?ws"
      using assms(3) by (auto simp del: of_nat_unat intro!: image_eqI [of _ _ "unat i"])
    with d True show ?thesis by (simp add: map_of_eq_Some_iff)
  next
    case False
    have "entry u i \<noteq> entry t (of_nat k)" if "k < 512" for k
      using entry_inj [OF assms(2,1,3), of "of_nat k"] that False by (auto simp: unat_of_nat_64)
    then have "entry u i \<notin> fst ` set ?ws" by fastforce
    then have "map_of ?ws (entry u i) = None" by (rule map_of_eq_None_iff [THEN iffD2])
    then show ?thesis using False by (simp only: if_False)
  qed
  ultimately show ?thesis by (simp add: fill_table_def write64s_def)
qed

lemma page_eq_fill_table:
  assumes "page_aligned t" "page_aligned q" "t \<noteq> q"
  shows "page_eq (fill_table m t f) m q"
proof -
  have "page_eq (foldl (\<lambda>m (a, v). write64 m a v) m (map (\<lambda>i. (entry t (of_nat i), f i)) is)) m q"
    if "\<forall>i \<in> set is. i < 512" for "is"
    using that
  proof (induction "is" arbitrary: m)
    case Nil
    then show ?case by simp
  next
    case (Cons i "is")
    then have "unat (of_nat i :: u64) < 512" by (simp add: unat_of_nat_64)
    from page_eq_write64_entry [OF assms(1,2) this assms(3), of m "f i"] Cons
    show ?case by (auto intro: page_eq_trans)
  qed
  then show ?thesis by (simp add: fill_table_def write64s_def)
qed

end
