(* ===== verification/Address_Layout.thy ===== *)
theory Address_Layout
  imports Phys_Mem
begin

text \<open>
  The address arithmetic of the headers: the identity map of common/include/rkhv/memory_map.h, the
  masks, shifts and entry bits of common/include/rkhv/paging.h and those of the extended page
  tables in hv/src/vmm/vmx_ept.h (\<open>GUEST_PHYSICAL_ADDRESS_x\<close> there is \<open>LINEAR_ADDRESS_x\<close>, so the two
  page-table walks share the accessors).
\<close>

section \<open>memory\_map.h\<close>

definition RKHV_PHYSICAL_MEMORY_BASE :: u64 where
  [hv_const]: "RKHV_PHYSICAL_MEMORY_BASE = 0x0000010000000000"

definition P2V_IDENTITY_MAP :: "u64 \<Rightarrow> u64" where
  "P2V_IDENTITY_MAP pa = pa + RKHV_PHYSICAL_MEMORY_BASE"

definition V2P_IDENTITY_MAP :: "u64 \<Rightarrow> u64" where
  "V2P_IDENTITY_MAP va = va - RKHV_PHYSICAL_MEMORY_BASE"

lemma V2P_P2V [simp]: "V2P_IDENTITY_MAP (P2V_IDENTITY_MAP pa) = pa"
  by (simp add: V2P_IDENTITY_MAP_def P2V_IDENTITY_MAP_def)

lemma P2V_V2P [simp]: "P2V_IDENTITY_MAP (V2P_IDENTITY_MAP va) = va"
  by (simp add: V2P_IDENTITY_MAP_def P2V_IDENTITY_MAP_def)

lemma V2P_eq_iff: "pa = V2P_IDENTITY_MAP va \<longleftrightarrow> va = P2V_IDENTITY_MAP pa"
  by auto

section \<open>paging.h\<close>

definition PAGE_SIZE :: u64 where [hv_const]: "PAGE_SIZE = 0x1000"
definition PAGE_MASK :: u64 where [hv_const]: "PAGE_MASK = 0xfffffffffffff000"
definition PAGE_TABLE_ENTRIES :: u64 where [hv_const]: "PAGE_TABLE_ENTRIES = 512"

definition LINEAR_ADDRESS_PML4_MASK :: u64 where
  [hv_const]: "LINEAR_ADDRESS_PML4_MASK = 0x0000ff8000000000"
definition LINEAR_ADDRESS_DP_MASK :: u64 where
  [hv_const]: "LINEAR_ADDRESS_DP_MASK = 0x0000007fc0000000"
definition LINEAR_ADDRESS_D_MASK :: u64 where
  [hv_const]: "LINEAR_ADDRESS_D_MASK = 0x000000003fe00000"
definition LINEAR_ADDRESS_TABLE_MASK :: u64 where
  [hv_const]: "LINEAR_ADDRESS_TABLE_MASK = 0x00000000001ff000"
definition LINEAR_ADDRESS_OFFSET_MASK :: u64 where
  [hv_const]: "LINEAR_ADDRESS_OFFSET_MASK = 0x0000000000000fff"

definition LINEAR_ADDRESS_GET_PML4 :: "u64 \<Rightarrow> u64" where
  "LINEAR_ADDRESS_GET_PML4 x = drop_bit 39 (x AND LINEAR_ADDRESS_PML4_MASK)"
definition LINEAR_ADDRESS_GET_DIRECTORY_PTR :: "u64 \<Rightarrow> u64" where
  "LINEAR_ADDRESS_GET_DIRECTORY_PTR x = drop_bit 30 (x AND LINEAR_ADDRESS_DP_MASK)"
definition LINEAR_ADDRESS_GET_DIRECTORY :: "u64 \<Rightarrow> u64" where
  "LINEAR_ADDRESS_GET_DIRECTORY x = drop_bit 21 (x AND LINEAR_ADDRESS_D_MASK)"
definition LINEAR_ADDRESS_GET_TABLE :: "u64 \<Rightarrow> u64" where
  "LINEAR_ADDRESS_GET_TABLE x = drop_bit 12 (x AND LINEAR_ADDRESS_TABLE_MASK)"
definition LINEAR_ADDRESS_GET_OFFSET :: "u64 \<Rightarrow> u64" where
  "LINEAR_ADDRESS_GET_OFFSET x = drop_bit 0 (x AND LINEAR_ADDRESS_OFFSET_MASK)"

definition PTE_PRESENT :: u64 where [hv_const]: "PTE_PRESENT = 0x1"
definition PTE_READ_WRITE :: u64 where [hv_const]: "PTE_READ_WRITE = 0x2"
definition PDE_PAGE_SIZE :: u64 where [hv_const]: "PDE_PAGE_SIZE = 0x80"
definition PDPTE_PHYSICAL_ADDRESS_PAGE :: u64 where
  [hv_const]: "PDPTE_PHYSICAL_ADDRESS_PAGE = 0x000fffffc0000000"
definition PDE_PHYSICAL_ADDRESS_PAGE :: u64 where
  [hv_const]: "PDE_PHYSICAL_ADDRESS_PAGE = 0x000fffffffe00000"
definition PTE_PHYSICAL_ADDRESS_PAGE :: u64 where
  [hv_const]: "PTE_PHYSICAL_ADDRESS_PAGE = 0x000ffffffffff000"
definition PTE_EXECUTE_DISABLE :: u64 where [hv_const]: "PTE_EXECUTE_DISABLE = 0x8000000000000000"

section \<open>vmx\_ept.h\<close>

definition EPT_PTE_READ :: u64 where [hv_const]: "EPT_PTE_READ = 0x1"
definition EPT_PTE_WRITE :: u64 where [hv_const]: "EPT_PTE_WRITE = 0x2"
definition EPT_PTE_EXECUTE :: u64 where [hv_const]: "EPT_PTE_EXECUTE = 0x4"
definition EPT_PDE_PAGE_SIZE :: u64 where [hv_const]: "EPT_PDE_PAGE_SIZE = 0x80"
definition EPT_PDPTE_PHYSICAL_ADDRESS_PAGE :: u64 where
  [hv_const]: "EPT_PDPTE_PHYSICAL_ADDRESS_PAGE = 0x000fffffc0000000"
definition EPT_PDE_PHYSICAL_ADDRESS_PAGE :: u64 where
  [hv_const]: "EPT_PDE_PHYSICAL_ADDRESS_PAGE = 0x000fffffffe00000"
definition EPT_PTE_PHYSICAL_ADDRESS_PAGE :: u64 where
  [hv_const]: "EPT_PTE_PHYSICAL_ADDRESS_PAGE = 0x000ffffffffff000"

section \<open>Facts on the accessors\<close>

lemma masks_as_slices:
  "(0x0000ff8000000000 :: u64) = push_bit 39 (mask 9)"
  "(0x0000007fc0000000 :: u64) = push_bit 30 (mask 9)"
  "(0x000000003fe00000 :: u64) = push_bit 21 (mask 9)"
  "(0x00000000001ff000 :: u64) = push_bit 12 (mask 9)"
  "(0x0000000000000fff :: u64) = mask 12"
  "(0x000ffffffffff000 :: u64) = push_bit 12 (mask 40)"
  "(0x000fffffffe00000 :: u64) = push_bit 21 (mask 31)"
  "(0x000fffffc0000000 :: u64) = push_bit 30 (mask 22)"
  "(0xfffffffffffff000 :: u64) = push_bit 12 (mask 52)"
  by (simp_all add: mask_eq_exp_minus_1)

lemma accessor_bits [bit_simps]:
  "bit (LINEAR_ADDRESS_GET_PML4 x) n \<longleftrightarrow> n < 9 \<and> bit x (39 + n)"
  "bit (LINEAR_ADDRESS_GET_DIRECTORY_PTR x) n \<longleftrightarrow> n < 9 \<and> bit x (30 + n)"
  "bit (LINEAR_ADDRESS_GET_DIRECTORY x) n \<longleftrightarrow> n < 9 \<and> bit x (21 + n)"
  "bit (LINEAR_ADDRESS_GET_TABLE x) n \<longleftrightarrow> n < 9 \<and> bit x (12 + n)"
  "bit (LINEAR_ADDRESS_GET_OFFSET x) n \<longleftrightarrow> n < 12 \<and> bit x n"
  unfolding LINEAR_ADDRESS_GET_PML4_def LINEAR_ADDRESS_GET_DIRECTORY_PTR_def
    LINEAR_ADDRESS_GET_DIRECTORY_def LINEAR_ADDRESS_GET_TABLE_def LINEAR_ADDRESS_GET_OFFSET_def
    hv_const masks_as_slices
  by (auto simp: bit_simps add.commute)

lemma index_as_take_bit:
  "LINEAR_ADDRESS_GET_PML4 x = take_bit 9 (drop_bit 39 x)"
  "LINEAR_ADDRESS_GET_DIRECTORY_PTR x = take_bit 9 (drop_bit 30 x)"
  "LINEAR_ADDRESS_GET_DIRECTORY x = take_bit 9 (drop_bit 21 x)"
  "LINEAR_ADDRESS_GET_TABLE x = take_bit 9 (drop_bit 12 x)"
  "LINEAR_ADDRESS_GET_OFFSET x = take_bit 12 x"
  by (auto intro!: bit_word_eqI simp: bit_simps)

lemma unat_take_bit_lt: "unat (take_bit n (x :: u64)) < 2 ^ n"
  by (simp add: unsigned_take_bit_eq)

lemma index_bounds [simp]:
  "unat (LINEAR_ADDRESS_GET_PML4 x) < 512"
  "unat (LINEAR_ADDRESS_GET_DIRECTORY_PTR x) < 512"
  "unat (LINEAR_ADDRESS_GET_DIRECTORY x) < 512"
  "unat (LINEAR_ADDRESS_GET_TABLE x) < 512"
  "unat (LINEAR_ADDRESS_GET_OFFSET x) < 4096"
  unfolding index_as_take_bit
  using unat_take_bit_lt [of 9] unat_take_bit_lt [of 12] by simp_all

text \<open>The four indexes determine the page within the 48-bit address space, and are determined by it.\<close>

definition same_guest_page :: "u64 \<Rightarrow> u64 \<Rightarrow> bool" where
  "same_guest_page x y \<longleftrightarrow> x AND 0x0000fffffffff000 = y AND 0x0000fffffffff000"

lemma same_guest_page_bits:
  "same_guest_page x y \<longleftrightarrow> (\<forall>n. 12 \<le> n \<and> n < 48 \<longrightarrow> bit x n = bit y n)"
proof -
  have m: "(0x0000fffffffff000 :: u64) = push_bit 12 (mask 36)" by (simp add: mask_eq_exp_minus_1)
  have "same_guest_page x y \<longleftrightarrow>
      (\<forall>n. (bit x n \<and> 12 \<le> n \<and> n < 48) = (bit y n \<and> 12 \<le> n \<and> n < 48))"
    unfolding same_guest_page_def m bit_eq_iff
    by (intro all_cong1) (auto simp: bit_simps dest: bit_imp_le_length)
  then show ?thesis by blast
qed

lemma same_guest_page_iff_indexes:
  "same_guest_page x y \<longleftrightarrow>
     LINEAR_ADDRESS_GET_PML4 x = LINEAR_ADDRESS_GET_PML4 y \<and>
     LINEAR_ADDRESS_GET_DIRECTORY_PTR x = LINEAR_ADDRESS_GET_DIRECTORY_PTR y \<and>
     LINEAR_ADDRESS_GET_DIRECTORY x = LINEAR_ADDRESS_GET_DIRECTORY y \<and>
     LINEAR_ADDRESS_GET_TABLE x = LINEAR_ADDRESS_GET_TABLE y" (is "_ \<longleftrightarrow> ?idx")
proof
  assume "same_guest_page x y"
  then show ?idx
    unfolding same_guest_page_bits by (auto intro!: bit_word_eqI simp: bit_simps)
next
  assume idx: ?idx
  show "same_guest_page x y"
    unfolding same_guest_page_bits
  proof (intro allI impI)
    fix n :: nat
    assume n: "12 \<le> n \<and> n < 48"
    have i: "bit (LINEAR_ADDRESS_GET_PML4 x) k = bit (LINEAR_ADDRESS_GET_PML4 y) k"
      "bit (LINEAR_ADDRESS_GET_DIRECTORY_PTR x) k = bit (LINEAR_ADDRESS_GET_DIRECTORY_PTR y) k"
      "bit (LINEAR_ADDRESS_GET_DIRECTORY x) k = bit (LINEAR_ADDRESS_GET_DIRECTORY y) k"
      "bit (LINEAR_ADDRESS_GET_TABLE x) k = bit (LINEAR_ADDRESS_GET_TABLE y) k" for k
      using idx by simp_all
    from n consider "39 \<le> n" "n - 39 < 9" | "30 \<le> n" "n - 30 < 9"
      | "21 \<le> n" "n - 21 < 9" | "12 \<le> n" "n - 12 < 9"
      by linarith
    then show "bit x n = bit y n"
    proof cases
      case 1 with i(1) [of "n - 39"] show ?thesis by (simp add: bit_simps)
    next
      case 2 with i(2) [of "n - 30"] show ?thesis by (simp add: bit_simps)
    next
      case 3 with i(3) [of "n - 21"] show ?thesis by (simp add: bit_simps)
    next
      case 4 with i(4) [of "n - 12"] show ?thesis by (simp add: bit_simps)
    qed
  qed
qed

lemma same_guest_page_refl [simp]: "same_guest_page x x"
  by (simp add: same_guest_page_def)

text \<open>A page-aligned address below \<open>2 ^ 52\<close> survives the address field of an entry.\<close>

definition phys_page :: "u64 \<Rightarrow> bool" where
  "phys_page p \<longleftrightarrow> page_aligned p \<and> unat p < 4503599627370496"

lemma phys_page_bits: "phys_page p \<longleftrightarrow> p AND EPT_PTE_PHYSICAL_ADDRESS_PAGE = p"
proof
  assume p: "phys_page p"
  then have "p AND 0xfff = 0" by (simp add: phys_page_def page_aligned_def)
  then have low: "n < 12 \<Longrightarrow> \<not> bit p n" for n
    unfolding masks_as_slices bit_eq_iff by (auto simp: bit_simps dest!: spec [of _ n])
  have "take_bit 52 p = p"
    using p by (intro word_unat_eqI) (simp add: phys_page_def unsigned_take_bit_eq take_bit_nat_eq_self)
  then have high: "52 \<le> n \<Longrightarrow> \<not> bit p n" for n
    by (metis bit_take_bit_iff leD)
  show "p AND EPT_PTE_PHYSICAL_ADDRESS_PAGE = p"
    unfolding hv_const masks_as_slices
  proof (rule bit_word_eqI)
    fix n
    show "bit (p AND push_bit 12 (mask 40)) n = bit p n"
      using low [of n] high [of n] by (cases "n < 12"; cases "n < 52") (auto simp: bit_simps)
  qed
next
  assume p: "p AND EPT_PTE_PHYSICAL_ADDRESS_PAGE = p"
  have "p AND 0xfff = 0"
    by (subst p [symmetric]) (auto simp: hv_const masks_as_slices bit_eq_iff bit_simps)
  moreover have "take_bit 52 p = p"
    by (subst (1) p [symmetric], subst (2) p [symmetric])
      (auto simp: hv_const masks_as_slices bit_eq_iff bit_simps)
  then have "unat p < 2 ^ 52" using unat_take_bit_lt [of 52 p] by simp
  ultimately show "phys_page p" by (simp add: phys_page_def page_aligned_def)
qed

lemma phys_page_aligned [simp, dest]: "phys_page p \<Longrightarrow> page_aligned p"
  by (simp add: phys_page_def)

lemma entry_address:
  assumes "phys_page p" "f AND EPT_PTE_PHYSICAL_ADDRESS_PAGE = 0"
  shows "(f OR (p AND EPT_PTE_PHYSICAL_ADDRESS_PAGE)) AND EPT_PTE_PHYSICAL_ADDRESS_PAGE = p"
  using assms by (simp add: phys_page_bits bit.conj_disj_distrib2 and.assoc)

end
