(* ===== verification/Hv_State.thy ===== *)
theory Hv_State
  imports Address_Layout
begin

text \<open>
  The data of the hypervisor: the structures of the headers as records, field by field and at the
  width of the C declaration, and one record \<open>hv_state\<close> with the static variables of every
  component.  Structures that the code links through pointers and unlinks again (arena headers,
  devices, UARTs) live in typed heaps, partial maps from addresses; a null or dangling pointer is
  an address with no entry.  The lists the code only prepends to (the machines of a hypervisor, the
  tracked pages of a machine) are HOL lists in the order of their \<open>next\<close> pointers.
\<close>

section \<open>chainload.h\<close>

record chainload_mmap_desc_t =
  mmap_physical_address :: u64
  mmap_pages :: "63 word"
  mmap_usable :: bool

record chainload_page_table_region_t =
  region_physical_address :: u64
  region_pages :: u64

record chainload_attachment_t =
  attachment_physical_address :: u64
  attachment_size :: "56 word"
  attachment_type :: u8

record chainload_section_t =
  section_physical_address :: u64
  section_pages :: u64

record chainload_page_t =
  rkhv_sections :: "chainload_section_t list"
  chainload_page_physical_address :: u64
  attachments :: "chainload_attachment_t list"
  page_table_regions :: "chainload_page_table_region_t list"
  efi_mmap_usable :: "chainload_mmap_desc_t list"

definition RKHV_MAX_SECTIONS :: nat where [hv_const]: "RKHV_MAX_SECTIONS = 4"
definition RKHV_MAX_PAGE_TABLE_REGIONS :: nat where [hv_const]: "RKHV_MAX_PAGE_TABLE_REGIONS = 16"
definition RKHV_MAX_ATTACHMENTS :: nat where [hv_const]: "RKHV_MAX_ATTACHMENTS = 4"
definition RKHV_MAX_EFI_MMAP_DESCRIPTORS :: nat where
  [hv_const]: "RKHV_MAX_EFI_MMAP_DESCRIPTORS = 231"

definition CHAINLOAD_ATTACHMENT_END :: u8 where [hv_const]: "CHAINLOAD_ATTACHMENT_END = 0"
definition CHAINLOAD_ATTACHMENT_LINUX_BZIMAGE :: u8 where
  [hv_const]: "CHAINLOAD_ATTACHMENT_LINUX_BZIMAGE = 0x4c"

text \<open>The arrays of the structure have their declared lengths.\<close>

definition chainload_shape :: "chainload_page_t \<Rightarrow> bool" where
  "chainload_shape c \<longleftrightarrow>
     length (rkhv_sections c) = RKHV_MAX_SECTIONS \<and>
     length (attachments c) = RKHV_MAX_ATTACHMENTS \<and>
     length (page_table_regions c) = RKHV_MAX_PAGE_TABLE_REGIONS \<and>
     length (efi_mmap_usable c) = RKHV_MAX_EFI_MMAP_DESCRIPTORS"

section \<open>arena.h\<close>

record arena_header_t =
  arena_prev :: u64
  arena_next :: u64
  arena_subarenas :: u64
  arena_used_size :: u64

record arena_sub_header_t =
  sub_next :: u64
  sub_used_size :: u64

definition sizeof_arena_header_t :: u64 where [hv_const]: "sizeof_arena_header_t = 32"

section \<open>vm\_manager.h, vmx\_vmcs.h, segments.h and interrupts.h\<close>

definition VM_T_FLAG_VMCS_INITIALIZED :: u64 where [hv_const]: "VM_T_FLAG_VMCS_INITIALIZED = 1"
definition VM_T_FLAG_EPT_PML4_INITIALIZED :: u64 where
  [hv_const]: "VM_T_FLAG_EPT_PML4_INITIALIZED = 2"

datatype vm_page_type_t = VM_PAGE_TYPE_EPT | VM_PAGE_TYPE_GUEST_PHYSICAL

record vm_page_list_t =
  pl_physical_address :: u64
  pl_pages :: "56 word"
  pl_page_type :: vm_page_type_t
  pl_reserved_pool :: bool

definition sizeof_vm_page_list_t :: u64 where [hv_const]: "sizeof_vm_page_list_t = 24"

record gdt_segment_descriptor_t =
  segment_limit_low :: u16
  base_address_low :: u16
  base_address_mid :: u8
  access :: u8
  flags :: u8
  base_address_high :: u8

record idt_gate_descriptor_t =
  offset_low :: u16
  segment_selector :: u16
  ist :: u8
  bitfield :: u8
  offset_mid :: u16
  offset_high :: u32
  reserved :: u32

record gdtr_t =
  gdtr_size :: u16
  gdtr_offset :: u64

record idtr_t =
  idtr_size :: u16
  idtr_offset :: u64

record vmx_initial_guest_state_t =
  guest_rip :: u64
  guest_rsp :: u64
  guest_cr0 :: u64
  guest_cr3 :: u64
  guest_cr4 :: u64
  guest_ia32_efer :: u64
  guest_cs :: u16
  guest_ds :: u16
  guest_gdtr :: gdtr_t
  guest_idtr :: idtr_t

record vmx_initial_vmcs_config_t =
  eptp :: u64
  guest_state :: vmx_initial_guest_state_t

text \<open>\<open>vmx_initial_gpr_state_t\<close> and \<open>vmx_vmexit_reg_state_t\<close> have the same fields.\<close>

record vmx_gpr_state_t =
  r15 :: u64
  r14 :: u64
  r13 :: u64
  r12 :: u64
  r11 :: u64
  r10 :: u64
  r9 :: u64
  r8 :: u64
  rdi :: u64
  rsi :: u64
  rbp :: u64
  rdx :: u64
  rcx :: u64
  rbx :: u64
  rax :: u64

record vm_t =
  vm_name :: string
  vm_flags :: u64
  vmcs_region :: u64
  vmcs_config :: vmx_initial_vmcs_config_t
  initial_gpr_state :: vmx_gpr_state_t
  guest_physical_pages :: u64
  guest_physical_pages_used_by_initial_setup :: u64
  tracked_pages :: "vm_page_list_t list"
  vm_devices :: u64
  permanent_xcr0 :: u64

text \<open>
  \<open>sizeof(vm_t)\<close>: the packed \<open>gdtr_t\<close> and \<open>idtr_t\<close> follow the two selectors without padding, so
  \<open>vmx_initial_vmcs_config_t\<close> is 80 bytes: 4 * 8 + 80 + 15 * 8 + 5 * 8.
\<close>

definition sizeof_vm_t :: u64 where [hv_const]: "sizeof_vm_t = 272"

text \<open>
  The handlers of a device are function pointers: null, or one of the functions of vmd\_8250uart.c.
  The word and double word handlers have other types in C; calling one of these through them is a fault.
\<close>

datatype device_handler = Vmd_8250uart_outb_handler | Vmd_8250uart_inb_handler

record vm_device_t =
  dev_next :: u64
  dev_ports :: "u16 list"
  dev_ports_len :: u64
  dev_device_data :: u64
  dev_outb_handler :: "device_handler option"
  dev_outw_handler :: "device_handler option"
  dev_outd_handler :: "device_handler option"
  dev_inb_handler :: "device_handler option"
  dev_inw_handler :: "device_handler option"
  dev_ind_handler :: "device_handler option"

definition VM_DEVICE_T_MAX_PORTS :: nat where [hv_const]: "VM_DEVICE_T_MAX_PORTS = 16"
definition sizeof_vm_device_t :: u64 where [hv_const]: "sizeof_vm_device_t = 104"

section \<open>vmd\_8250uart.h\<close>

record vmd_8250uart_t =
  output_buffer :: "u8 list"
  output_buffer_size :: u64
  port_name :: string
  port_base :: u16
  baud_rate_divisor :: u16
  int_enable_reg :: u8
  fifo_control_reg :: u8
  line_control_reg :: u8
  modem_control_reg :: u8

definition VMD_8250UART_T_OUTPUT_BUFFER_CAPACITY :: nat where
  [hv_const]: "VMD_8250UART_T_OUTPUT_BUFFER_CAPACITY = 128"
definition sizeof_vmd_8250uart_t :: u64 where [hv_const]: "sizeof_vmd_8250uart_t = 152"

section \<open>The state of the hypervisor\<close>

text \<open>
  \<open>vmx_msr_state_t\<close>: the fields that the list of vmx\_msr.h gives, those kept in the VMCS first.
\<close>

record vmx_msr_state_t =
  ia32_efer :: u64
  ia32_fs_base :: u64
  ia32_gs_base :: u64
  ia32_misc_enable :: u64
  ia32_bios_sign_id :: u64
  ia32_xss :: u64
  ia32_kernel_gs_base :: u64

text \<open>
  The processor as the C code sees it: the model-specific registers (\<open>rdmsr\<close>, \<open>wrmsr\<close>), the control
  registers, XCR0, the descriptor table registers, the fields of each VMCS region (\<open>vmx_vmread\<close> and \<open>vmx_vmwrite\<close> reach those of the current
  one), the current-VMCS pointer, the error codes of the VMX instructions (\<open>vmx_inst_error_t\<close>, 0 is
  \<open>VM_SUCCEED\<close>) as the hardware chooses them, and the answers of \<open>CPUID\<close>, which depend on XCR0,
  to EAX and ECX: the values of EAX, EBX, ECX and EDX.
\<close>

datatype vmx_inst = Vmxon | Vmclear | Vmptrld | Vmptrst | Vmread | Vmwrite | Vmlaunch

record cpu_t =
  cpu_msr :: "u32 \<Rightarrow> u64"
  cpu_cr0 :: u64
  cpu_cr3 :: u64
  cpu_cr4 :: u64
  cpu_xcr0 :: u64
  cpu_gdtr :: gdtr_t
  cpu_idtr :: idtr_t
  cpu_vmcs :: "u64 \<Rightarrow> u64 \<Rightarrow> u64"
  cpu_current_vmcs :: u64
  cpu_vmx_error :: "vmx_inst \<Rightarrow> u64 \<Rightarrow> u32"
  cpu_cpuid :: "u64 \<Rightarrow> u32 \<Rightarrow> u32 \<Rightarrow> u32 \<times> u32 \<times> u32 \<times> u32"

record hv_state =
  \<comment> \<open>memory\<close>
  phys :: phys_mem
  \<comment> \<open>memory\_management.c\<close>
  mm_chainload_page :: chainload_page_t
  last_returned_region_index :: u64
  last_returned_page_index :: u64
  \<comment> \<open>arena.c\<close>
  arena_head :: u64
  arena_heap :: "u64 \<rightharpoonup> arena_header_t"
  arena_sub_heap :: "u64 \<rightharpoonup> arena_sub_header_t"
  \<comment> \<open>vmm\_vmx\_pages.c\<close>
  vmxon_region_valid :: bool
  vmxon_region :: u64
  msr_bitmaps_page_valid :: bool
  msr_bitmaps_page :: u64
  \<comment> \<open>vm\_manager.c: the machines with their addresses, the head of the list first\<close>
  vm_manager_arena :: u64
  vm_manager_vm_list :: "(u64 \<times> vm_t) list"
  vm_manager_current_vm :: u64
  \<comment> \<open>vmd.c and the structures its arena holds\<close>
  vmd_device_arena :: u64
  dev_heap :: "u64 \<rightharpoonup> vm_device_t"
  uart_heap :: "u64 \<rightharpoonup> vmd_8250uart_t"
  \<comment> \<open>vmx\_msr.c and xsave.c\<close>
  vmx_msr_host_backup :: vmx_msr_state_t
  xsave_host_xcr0 :: u64
  xsave_area_size :: u64
  \<comment> \<open>the descriptor tables, arrays at their addresses: those of segments.c and interrupts.c\<close>
  gdt_heap :: "u64 \<rightharpoonup> gdt_segment_descriptor_t list"
  idt_heap :: "u64 \<rightharpoonup> idt_gate_descriptor_t list"
  \<comment> \<open>the processor and what was written to the serial console\<close>
  cpu :: cpu_t
  console :: string

text \<open>Reading and updating a machine through a \<open>vm_t*\<close>.\<close>

definition get_vm :: "hv_state \<Rightarrow> u64 \<Rightarrow> vm_t res" where
  "get_vm s vp = (case map_of (vm_manager_vm_list s) vp of None \<Rightarrow> Inl (Fault ''vm_t'') | Some v \<Rightarrow> Inr v)"

definition put_vm :: "u64 \<Rightarrow> vm_t \<Rightarrow> hv_state \<Rightarrow> hv_state" where
  "put_vm vp v s = s\<lparr>vm_manager_vm_list :=
     map (\<lambda>(p, w). (p, if p = vp then v else w)) (vm_manager_vm_list s)\<rparr>"

lemma map_of_map_put:
  "map_of (map (\<lambda>(p, w). (p, if p = vp then v else w)) l) q =
   (if q = vp \<and> map_of l vp \<noteq> None then Some v else map_of l q)"
  by (induction l) auto

lemma get_put_vm:
  assumes "get_vm s vp = Inr w"
  shows "get_vm (put_vm vp v s) q = (if q = vp then Inr v else get_vm s q)"
  using assms by (auto simp: get_vm_def put_vm_def map_of_map_put split: option.splits)

lemma put_vm_frame [simp]:
  "phys (put_vm vp v s) = phys s"
  "mm_chainload_page (put_vm vp v s) = mm_chainload_page s"
  "last_returned_region_index (put_vm vp v s) = last_returned_region_index s"
  "last_returned_page_index (put_vm vp v s) = last_returned_page_index s"
  "arena_head (put_vm vp v s) = arena_head s"
  "arena_heap (put_vm vp v s) = arena_heap s"
  "arena_sub_heap (put_vm vp v s) = arena_sub_heap s"
  "vmxon_region_valid (put_vm vp v s) = vmxon_region_valid s"
  "vmxon_region (put_vm vp v s) = vmxon_region s"
  "msr_bitmaps_page_valid (put_vm vp v s) = msr_bitmaps_page_valid s"
  "msr_bitmaps_page (put_vm vp v s) = msr_bitmaps_page s"
  "vm_manager_arena (put_vm vp v s) = vm_manager_arena s"
  "map fst (vm_manager_vm_list (put_vm vp v s)) = map fst (vm_manager_vm_list s)"
  by (auto simp: put_vm_def)

lemma get_vm_cong: "vm_manager_vm_list s = vm_manager_vm_list s' \<Longrightarrow> get_vm s = get_vm s'"
  by (simp add: get_vm_def fun_eq_iff)

section \<open>The instructions the C code calls\<close>

definition CR4_VMXE :: u64 where [hv_const]: "CR4_VMXE = 0x2000"

text \<open>\<open>VMX_ASSERT\<close> of vmx\_instructions.h stops the machine on any error code but \<open>VM_SUCCEED\<close>.\<close>

definition VMX_ASSERT :: "hv_state \<Rightarrow> vmx_inst \<Rightarrow> u64 \<Rightarrow> unit res" where
  "VMX_ASSERT s i arg = (if cpu_vmx_error (cpu s) i arg \<noteq> 0 then Inl (Panic ''VMX_ASSERT failed'') else Inr ())"

definition vmx_vmread :: "u64 \<Rightarrow> hv_state \<Rightarrow> u64 res" where
  "vmx_vmread f s = bnd (VMX_ASSERT s Vmread f) (\<lambda>_. Inr (cpu_vmcs (cpu s) (cpu_current_vmcs (cpu s)) f))"

definition vmx_vmwrite :: "u64 \<Rightarrow> u64 \<Rightarrow> hv_state \<Rightarrow> hv_state res" where
  "vmx_vmwrite f v s = bnd (VMX_ASSERT s Vmwrite f) (\<lambda>_. let c = cpu s; r = cpu_current_vmcs c in
     Inr (s\<lparr>cpu := c\<lparr>cpu_vmcs := (cpu_vmcs c)(r := (cpu_vmcs c r)(f := v))\<rparr>\<rparr>))"

definition rdmsr :: "hv_state \<Rightarrow> u32 \<Rightarrow> u64" where
  "rdmsr s a = cpu_msr (cpu s) a"

definition wrmsr :: "u32 \<Rightarrow> u64 \<Rightarrow> hv_state \<Rightarrow> hv_state" where
  "wrmsr a v s = s\<lparr>cpu := (cpu s)\<lparr>cpu_msr := (cpu_msr (cpu s))(a := v)\<rparr>\<rparr>"

end
