(* ===== verification/Free_Page_Search.thy ===== *)
theory Free_Page_Search
  imports Memory_Management
begin

text \<open>
  The correctness of the page search of memory\_management.c.  A position (descriptor, page) gets a
  rank: the number of usable pages below it.  One step of the search lowers the rank by one and wraps
  from 0 to the top, so that a round visits every usable page exactly once.
\<close>

declare mm_scan_down.simps [simp del]

section \<open>Positions and ranks\<close>

definition usable_desc :: "chainload_mmap_desc_t \<Rightarrow> bool" where
  "usable_desc d \<longleftrightarrow> mmap_usable d \<and> mmap_pages d \<noteq> 0"

definition desc_pages :: "chainload_mmap_desc_t \<Rightarrow> nat" where
  "desc_pages d = (if usable_desc d then unat (mmap_pages d) else 0)"

definition pages_below :: "chainload_mmap_desc_t list \<Rightarrow> nat \<Rightarrow> nat" where
  "pages_below c n = sum_list (map desc_pages (take n c))"

definition mm_rank :: "chainload_mmap_desc_t list \<Rightarrow> u64 \<Rightarrow> u64 \<Rightarrow> nat" where
  "mm_rank c r p = pages_below c (unat r) + unat p"

definition mm_valid :: "chainload_mmap_desc_t list \<Rightarrow> u64 \<Rightarrow> u64 \<Rightarrow> bool" where
  "mm_valid c r p \<longleftrightarrow> unat r < RKHV_MAX_EFI_MMAP_DESCRIPTORS \<and> mmap_usable (c ! unat r) \<and>
     unat p < unat (mmap_pages (c ! unat r))"

lemma mm_valid_usable: "mm_valid c r p \<Longrightarrow> usable_desc (c ! unat r)"
  by (auto simp: mm_valid_def usable_desc_def)

lemma pages_63: "unat (ucast (w :: 63 word) :: u64) = unat w" "unat w < 9223372036854775808"
proof -
  show lt: "unat w < 9223372036854775808" using unsigned_less [of w] by simp
  then have "unat w < 2 ^ 64" by simp
  then show "unat (ucast w :: u64) = unat w"
    by (simp only: unsigned_ucast_eq len_num1 len_bit0 take_bit_nat_eq_self_iff) simp
qed

lemma pages_63_minus_one:
  assumes "w \<noteq> 0"
  shows "Suc (unat (ucast (w :: 63 word) - 1 :: u64)) = unat w"
proof -
  have pos: "0 < unat w" using assms by (simp add: unat_gt_0)
  then have "(ucast w :: u64) \<noteq> 0" using pages_63(1) [of w] by (metis less_irrefl unsigned_0)
  from unat_minus_one [OF this] pos show ?thesis by (simp add: pages_63(1))
qed

lemma mm_valid_neq: "mm_valid c r p \<Longrightarrow> r \<noteq> -1 \<and> p \<noteq> -1"
  using pages_63(2) [of "mmap_pages (c ! unat r)"] by (auto simp: mm_valid_def hv_const)

lemma pages_below_Suc: "n < length c \<Longrightarrow> pages_below c (Suc n) = pages_below c n + desc_pages (c ! n)"
  by (simp add: pages_below_def take_Suc_conv_app_nth)

lemma pages_below_mono: "m \<le> n \<Longrightarrow> pages_below c m \<le> pages_below c n"
proof -
  assume "m \<le> n"
  then obtain k where "n = m + k" using le_Suc_ex by blast
  then show ?thesis by (simp add: pages_below_def take_add)
qed

lemma mm_rank_Suc_le:
  assumes "mm_valid c r p" "length c = RKHV_MAX_EFI_MMAP_DESCRIPTORS"
  shows "Suc (mm_rank c r p) \<le> pages_below c (Suc (unat r))"
  using assms mm_valid_usable [OF assms(1)]
  by (simp add: mm_valid_def mm_rank_def pages_below_Suc desc_pages_def)

lemma mm_rank_less_total:
  assumes "mm_valid c r p" "length c = RKHV_MAX_EFI_MMAP_DESCRIPTORS"
  shows "mm_rank c r p < pages_below c RKHV_MAX_EFI_MMAP_DESCRIPTORS"
proof -
  have "Suc (unat r) \<le> RKHV_MAX_EFI_MMAP_DESCRIPTORS" using assms(1) by (simp add: mm_valid_def)
  then show ?thesis
    using mm_rank_Suc_le [OF assms] pages_below_mono [of "Suc (unat r)" RKHV_MAX_EFI_MMAP_DESCRIPTORS c]
    by simp
qed

lemma mm_rank_inj:
  assumes "mm_valid c r p" "mm_valid c r' p'" "length c = RKHV_MAX_EFI_MMAP_DESCRIPTORS"
    and "mm_rank c r p = mm_rank c r' p'"
  shows "r = r' \<and> p = p'"
proof -
  have less: "mm_rank c a x < mm_rank c b y"
    if "mm_valid c a x" "mm_valid c b y" "unat a < unat b" for a b x y
    using mm_rank_Suc_le [OF that(1) assms(3)] pages_below_mono [of "Suc (unat a)" "unat b" c] that(3)
    by (simp add: mm_rank_def)
  have "unat r = unat r'"
    using less [OF assms(1,2)] less [OF assms(2,1)] assms(4) by (metis less_irrefl linorder_neqE_nat)
  then have "r = r'" by (rule word_unat_eqI)
  with assms(4) show ?thesis by (simp add: mm_rank_def word_unat_eqI)
qed

section \<open>One step\<close>

lemma mm_scan_down_spec:
  assumes "unat i < RKHV_MAX_EFI_MMAP_DESCRIPTORS" "length c = RKHV_MAX_EFI_MMAP_DESCRIPTORS"
  shows "case mm_scan_down c i of
      Inl e \<Rightarrow> e = Fault ''efi_mmap_usable'' \<and> pages_below c (Suc (unat i)) = 0
    | Inr (r, p) \<Rightarrow> mm_valid c r p \<and> unat r \<le> unat i \<and> Suc (mm_rank c r p) = pages_below c (Suc (unat i))"
  using assms
proof (induction c i rule: mm_scan_down.induct)
  case (1 c i)
  have at: "mmap_at c i = Inr (c ! unat i)" using 1(2) by (simp add: mmap_at_def)
  have below: "pages_below c (Suc (unat i)) = pages_below c (unat i) + desc_pages (c ! unat i)"
    using 1(2,3) by (simp add: pages_below_Suc)
  show ?case
  proof (cases "usable_desc (c ! unat i)")
    case True
    then have p: "Suc (unat (ucast (mmap_pages (c ! unat i)) - 1 :: u64)) = unat (mmap_pages (c ! unat i))"
      by (intro pages_63_minus_one) (simp add: usable_desc_def)
    from True have "mm_scan_down c i = Inr (i, ucast (mmap_pages (c ! unat i)) - 1)"
      by (subst mm_scan_down.simps) (simp add: at usable_desc_def)
    moreover have "unat (ucast (mmap_pages (c ! unat i)) - 1 :: u64) < unat (mmap_pages (c ! unat i))"
      using p by linarith
    ultimately show ?thesis
      using True 1(2) p below by (simp add: mm_valid_def mm_rank_def desc_pages_def usable_desc_def)
  next
    case False
    then have step: "mm_scan_down c i = mm_scan_down c (i - 1)"
      by (subst mm_scan_down.simps) (auto simp: at usable_desc_def)
    show ?thesis
    proof (cases "i = 0")
      case True
      have "mm_scan_down c (i - 1) = Inl (Fault ''efi_mmap_usable'')"
        by (subst mm_scan_down.simps) (simp add: True mmap_at_def hv_const)
      with step below False True show ?thesis by (simp add: desc_pages_def pages_below_def)
    next
      case nz: False
      then have u: "Suc (unat (i - 1)) = unat i" by (simp add: unat_minus_one unat_gt_0)
      have "case mm_scan_down c (i - 1) of
          Inl e \<Rightarrow> e = Fault ''efi_mmap_usable'' \<and> pages_below c (Suc (unat (i - 1))) = 0
        | Inr (r, p) \<Rightarrow> mm_valid c r p \<and> unat r \<le> unat (i - 1) \<and>
            Suc (mm_rank c r p) = pages_below c (Suc (unat (i - 1)))"
        by (rule "1.IH" [OF at]) (use False u 1(2,3) in \<open>auto simp: usable_desc_def\<close>)
      with step below False u show ?thesis
        by (auto simp: desc_pages_def split: sum.splits)
    qed
  qed
qed

lemma mm_next_position_spec:
  assumes v: "mm_valid c r p" and len: "length c = RKHV_MAX_EFI_MMAP_DESCRIPTORS"
  shows "case mm_next_position c (c ! unat r) r p of
      Inl e \<Rightarrow> e = Fault ''efi_mmap_usable'' \<and> mm_rank c r p = 0 \<and> \<not> usable_desc (c ! 0)
    | Inr (r', p') \<Rightarrow> mm_valid c r' p' \<and>
        (if mm_rank c r p = 0 then Suc (mm_rank c r' p') = pages_below c RKHV_MAX_EFI_MMAP_DESCRIPTORS
         else Suc (mm_rank c r' p') = mm_rank c r p)"
proof (cases "p = 0")
  case False
  then have u: "Suc (unat (p - 1)) = unat p" by (simp add: unat_minus_one unat_gt_0)
  have "\<not> p - 1 \<ge> ucast (mmap_pages (c ! unat r))"
    using v u by (simp add: mm_valid_def word_le_nat_alt pages_63(1))
  then have "mm_next_position c (c ! unat r) r p = Inr (r, p - 1)"
    by (simp add: mm_next_position_def)
  with v u show ?thesis by (auto simp: mm_valid_def mm_rank_def)
next
  case True
  have wrap: "ucast (mmap_pages (c ! unat r)) \<le> (- 1 :: u64)" by simp
  let ?top = "of_nat RKHV_MAX_EFI_MMAP_DESCRIPTORS :: u64"
  show ?thesis
  proof (cases "r = 0")
    case r0: True
    have "mm_next_position c (c ! unat r) r p = mm_scan_down c (?top - 1)"
      using True wrap by (simp add: mm_next_position_def r0)
    moreover have "Suc (unat (?top - 1)) = RKHV_MAX_EFI_MMAP_DESCRIPTORS" by (simp add: hv_const)
    moreover have "mm_rank c r p = 0" by (simp add: True r0 mm_rank_def pages_below_def)
    moreover have "0 < pages_below c RKHV_MAX_EFI_MMAP_DESCRIPTORS"
      using mm_rank_less_total [OF v len] by simp
    ultimately show ?thesis
      using mm_scan_down_spec [OF _ len, of "?top - 1"] by (auto split: sum.splits)
  next
    case r0: False
    then have u: "Suc (unat (r - 1)) = unat r" by (simp add: unat_minus_one unat_gt_0)
    have lt: "unat r < RKHV_MAX_EFI_MMAP_DESCRIPTORS" using v by (simp add: mm_valid_def)
    then have "\<not> r > ?top" by (simp add: word_less_nat_alt hv_const)
    then have "mm_next_position c (c ! unat r) r p = mm_scan_down c (r - 1)"
      using True wrap r0 by (simp add: mm_next_position_def)
    moreover have "mm_rank c r p = pages_below c (unat r)" by (simp add: True mm_rank_def)
    moreover have "pages_below c (unat r) = 0 \<Longrightarrow> \<not> usable_desc (c ! 0)"
    proof
      assume "pages_below c (unat r) = 0" and "usable_desc (c ! 0)"
      moreover have "pages_below c (Suc 0) \<le> pages_below c (unat r)"
        by (rule pages_below_mono) (use u in simp)
      ultimately show False
        using len by (simp add: pages_below_Suc desc_pages_def usable_desc_def hv_const unat_eq_0)
    qed
    ultimately show ?thesis
      using mm_scan_down_spec [OF _ len, of "r - 1"] u lt by (auto split: sum.splits)
  qed
qed

section \<open>The whole search\<close>

definition mm_free_at ::
    "(u64 \<Rightarrow> bool res) \<Rightarrow> chainload_mmap_desc_t list \<Rightarrow> u64 \<Rightarrow> u64 \<Rightarrow> bool res" where
  "mm_free_at is_free c r p = is_free (mm_page_at (c ! unat r) p)"

text \<open>How far the search still has to go from rank \<open>k\<close> down to the rank \<open>k0\<close> where it started.\<close>

definition mm_distance :: "nat \<Rightarrow> nat \<Rightarrow> nat \<Rightarrow> nat" where
  "mm_distance tot k0 k = (if k0 \<le> k then k - k0 else k + tot - k0)"

text \<open>
  What the outcome of a search means: a free page at a valid position, the callback's own failure,
  no free page at the positions \<open>P\<close>, or a read out of the descriptor array with no free page at the
  positions \<open>Q\<close>.
\<close>

definition mm_search_outcome :: "(u64 \<Rightarrow> bool res) \<Rightarrow> chainload_mmap_desc_t list \<Rightarrow>
    (u64 \<Rightarrow> u64 \<Rightarrow> bool) \<Rightarrow> (u64 \<Rightarrow> u64 \<Rightarrow> bool) \<Rightarrow> (u64 \<times> u64 \<times> u64) res \<Rightarrow> bool" where
  "mm_search_outcome is_free c P Q res = (case res of
     Inr (a, r, p) \<Rightarrow> mm_valid c r p \<and> a = mm_page_at (c ! unat r) p \<and> is_free a = Inr True
   | Inl e \<Rightarrow> (\<exists>r p. mm_valid c r p \<and> mm_free_at is_free c r p = Inl e) \<or>
       (e = Panic ''OOM :('' \<and> (\<forall>r p. mm_valid c r p \<and> P r p \<longrightarrow> mm_free_at is_free c r p = Inr False)) \<or>
       (e = Fault ''efi_mmap_usable'' \<and> \<not> usable_desc (c ! 0) \<and>
         (\<forall>r p. mm_valid c r p \<and> Q r p \<longrightarrow> mm_free_at is_free c r p = Inr False)))"

lemma mm_search_outcome_extend:
  assumes "mm_search_outcome is_free c P Q res"
    and "\<And>r p. mm_valid c r p \<Longrightarrow> P' r p \<Longrightarrow> P r p \<or> mm_free_at is_free c r p = Inr False"
    and "\<And>r p. mm_valid c r p \<Longrightarrow> \<not> usable_desc (c ! 0) \<Longrightarrow> Q' r p \<Longrightarrow>
           Q r p \<or> mm_free_at is_free c r p = Inr False"
  shows "mm_search_outcome is_free c P' Q' res"
  using assms unfolding mm_search_outcome_def by (fastforce split: sum.splits)

text \<open>An iteration of the loop at a valid position that is not the one the search started from.\<close>

lemma mm_search_step:
  assumes v: "mm_valid c r p" and ne: "r \<noteq> lr \<or> p \<noteq> lp" and len: "length c = RKHV_MAX_EFI_MMAP_DESCRIPTORS"
    and rest: "\<And>r' p'. mm_free_at is_free c r p = Inr False \<Longrightarrow>
      mm_next_position c (c ! unat r) r p = Inr (r', p') \<Longrightarrow> mm_valid c r' p' \<Longrightarrow>
      \<exists>res. mm_search is_free c r' p' (if lr = -1 \<or> lp = -1 then r else lr)
          (if lr = -1 \<or> lp = -1 then p else lp) = Some res \<and> mm_search_outcome is_free c P Q res"
    and stuck: "\<And>r' p'. mm_free_at is_free c r p = Inr False \<Longrightarrow> mm_rank c r p = 0 \<Longrightarrow>
      mm_valid c r' p' \<Longrightarrow> Q r' p' \<Longrightarrow> mm_free_at is_free c r' p' = Inr False"
  shows "\<exists>res. mm_search is_free c r p lr lp = Some res \<and> mm_search_outcome is_free c P Q res"
proof -
  have at: "mmap_at c r = Inr (c ! unat r)" using v by (simp add: mm_valid_def mmap_at_def)
  show ?thesis
  proof (cases "mm_free_at is_free c r p")
    case (Inl e)
    then have "mm_search is_free c r p lr lp = Some (Inl e)"
      using ne at by (subst mm_search.simps) (auto simp: mm_free_at_def)
    then show ?thesis using Inl v by (auto simp: mm_search_outcome_def)
  next
    case (Inr b)
    show ?thesis
    proof (cases b)
      case True
      then have "mm_search is_free c r p lr lp = Some (Inr (mm_page_at (c ! unat r) p, r, p))"
        using ne at Inr by (subst mm_search.simps) (auto simp: mm_free_at_def)
      then show ?thesis using Inr v True by (auto simp: mm_search_outcome_def mm_free_at_def)
    next
      case False
      with Inr have nf: "mm_free_at is_free c r p = Inr False" by simp
      show ?thesis
      proof (cases "mm_next_position c (c ! unat r) r p")
        case (Inl e)
        then have "mm_search is_free c r p lr lp = Some (Inl e)"
          using ne at nf by (subst mm_search.simps) (auto simp: mm_free_at_def)
        moreover have "e = Fault ''efi_mmap_usable''" "mm_rank c r p = 0" "\<not> usable_desc (c ! 0)"
          using mm_next_position_spec [OF v len] Inl by simp_all
        ultimately show ?thesis using stuck [OF nf] by (auto simp: mm_search_outcome_def)
      next
        case (Inr pos)
        obtain r' p' where pos: "pos = (r', p')" by (cases pos)
        have "mm_search is_free c r p lr lp =
            mm_search is_free c r' p' (if lr = -1 \<or> lp = -1 then r else lr)
              (if lr = -1 \<or> lp = -1 then p else lp)"
          using ne at nf Inr pos by (subst mm_search.simps) (auto simp: mm_free_at_def)
        moreover have "mm_valid c r' p'"
          using mm_next_position_spec [OF v len] Inr pos by simp
        ultimately show ?thesis using rest [OF nf] Inr pos by simp
      qed
    qed
  qed
qed

lemma mm_search_from:
  assumes len: "length c = RKHV_MAX_EFI_MMAP_DESCRIPTORS" and l: "mm_valid c lr lp"
    and tot: "tot = pages_below c RKHV_MAX_EFI_MMAP_DESCRIPTORS"
    and k0: "k0 = mm_rank c lr lp"
  shows "mm_valid c r p \<Longrightarrow> mm_distance tot k0 (mm_rank c r p) = n \<Longrightarrow>
    \<exists>res. mm_search is_free c r p lr lp = Some res \<and>
      mm_search_outcome is_free c
        (\<lambda>r' p'. 0 < mm_distance tot k0 (mm_rank c r' p') \<and> mm_distance tot k0 (mm_rank c r' p') \<le> n)
        (\<lambda>r' p'. mm_rank c r' p' \<le> mm_rank c r p) res"
proof (induction n arbitrary: r p)
  case 0
  have "mm_rank c lr lp < tot" unfolding tot by (rule mm_rank_less_total [OF l len])
  with 0 k0 have "mm_rank c r p = mm_rank c lr lp" by (auto simp: mm_distance_def split: if_splits)
  then have "r = lr \<and> p = lp" by (rule mm_rank_inj [OF 0(1) l len])
  then have "mm_search is_free c r p lr lp = Some (Inl (Panic ''OOM :(''))"
    by (subst mm_search.simps) simp
  then show ?case by (auto simp: mm_search_outcome_def)
next
  case (Suc n)
  have lt: "mm_rank c r p < tot" "k0 < tot"
    unfolding tot k0 using mm_rank_less_total [OF _ len] Suc.prems(1) l by simp_all
  have ne: "r \<noteq> lr \<or> p \<noteq> lp" using Suc.prems(2) k0 by (auto simp: mm_distance_def)
  have same: "r' = r \<and> p' = p" if "mm_valid c r' p'" "mm_rank c r' p' = mm_rank c r p" for r' p'
    using mm_rank_inj [OF that(1) Suc.prems(1) len that(2)] .
  show ?case
  proof (rule mm_search_step [OF Suc.prems(1) ne len])
    fix r' p'
    assume nf: "mm_free_at is_free c r p = Inr False"
      and nxt: "mm_next_position c (c ! unat r) r p = Inr (r', p')" and v': "mm_valid c r' p'"
    have rank: "if mm_rank c r p = 0 then Suc (mm_rank c r' p') = tot
        else Suc (mm_rank c r' p') = mm_rank c r p"
      using mm_next_position_spec [OF Suc.prems(1) len] nxt tot by simp
    have d: "mm_distance tot k0 (mm_rank c r' p') = n"
      using rank Suc.prems(2) lt by (auto simp: mm_distance_def split: if_splits)
    obtain res where res: "mm_search is_free c r' p' lr lp = Some res"
      and out: "mm_search_outcome is_free c
        (\<lambda>r' p'. 0 < mm_distance tot k0 (mm_rank c r' p') \<and> mm_distance tot k0 (mm_rank c r' p') \<le> n)
        (\<lambda>r'' p''. mm_rank c r'' p'' \<le> mm_rank c r' p') res"
      using Suc.IH [OF v' d] by blast
    have "mm_search_outcome is_free c
        (\<lambda>r' p'. 0 < mm_distance tot k0 (mm_rank c r' p') \<and> mm_distance tot k0 (mm_rank c r' p') \<le> Suc n)
        (\<lambda>r' p'. mm_rank c r' p' \<le> mm_rank c r p) res"
    proof (rule mm_search_outcome_extend [OF out])
      fix a b
      assume ab: "mm_valid c a b"
        and "0 < mm_distance tot k0 (mm_rank c a b) \<and> mm_distance tot k0 (mm_rank c a b) \<le> Suc n"
      then consider "0 < mm_distance tot k0 (mm_rank c a b) \<and> mm_distance tot k0 (mm_rank c a b) \<le> n"
        | "mm_distance tot k0 (mm_rank c a b) = Suc n" by linarith
      then show "(0 < mm_distance tot k0 (mm_rank c a b) \<and> mm_distance tot k0 (mm_rank c a b) \<le> n) \<or>
          mm_free_at is_free c a b = Inr False"
      proof cases
        case 2
        have "mm_rank c a b < tot" unfolding tot by (rule mm_rank_less_total [OF ab len])
        with 2 Suc.prems(2) lt have "mm_rank c a b = mm_rank c r p"
          by (auto simp: mm_distance_def split: if_splits)
        with same [OF ab] nf show ?thesis by simp
      qed simp
    next
      fix a b
      assume ab: "mm_valid c a b" and "mm_rank c a b \<le> mm_rank c r p"
      then show "mm_rank c a b \<le> mm_rank c r' p' \<or> mm_free_at is_free c a b = Inr False"
        using rank same [OF ab] nf by (cases "mm_rank c a b = mm_rank c r p") auto
    qed
    with res mm_valid_neq [OF l]
    show "\<exists>res. mm_search is_free c r' p' (if lr = -1 \<or> lp = -1 then r else lr)
          (if lr = -1 \<or> lp = -1 then p else lp) = Some res \<and>
        mm_search_outcome is_free c
        (\<lambda>r' p'. 0 < mm_distance tot k0 (mm_rank c r' p') \<and> mm_distance tot k0 (mm_rank c r' p') \<le> Suc n)
        (\<lambda>r' p'. mm_rank c r' p' \<le> mm_rank c r p) res"
      by simp
  qed (use same in auto)
qed

text \<open>The search as \<open>mm_get_free_page\<close> starts it.\<close>

lemma mm_search_spec:
  assumes len: "length c = RKHV_MAX_EFI_MMAP_DESCRIPTORS" and v: "mm_valid c r p"
  shows "\<exists>res. mm_search is_free c r p (-1) (-1) = Some res \<and>
    mm_search_outcome is_free c (\<lambda>_ _. True) (\<lambda>r' p'. mm_rank c r' p' \<le> mm_rank c r p) res"
proof (rule mm_search_step [OF v _ len])
  show "r \<noteq> -1 \<or> p \<noteq> -1" using mm_valid_neq [OF v] by simp
next
  fix r' p'
  assume nf: "mm_free_at is_free c r p = Inr False"
    and nxt: "mm_next_position c (c ! unat r) r p = Inr (r', p')" and v': "mm_valid c r' p'"
  let ?tot = "pages_below c RKHV_MAX_EFI_MMAP_DESCRIPTORS" and ?k0 = "mm_rank c r p"
  have rank: "if ?k0 = 0 then Suc (mm_rank c r' p') = ?tot else Suc (mm_rank c r' p') = ?k0"
    using mm_next_position_spec [OF v len] nxt by simp
  have same: "a = r \<and> b = p" if "mm_valid c a b" "mm_rank c a b = ?k0" for a b
    using mm_rank_inj [OF that(1) v len that(2)] .
  have d: "Suc (mm_distance ?tot ?k0 (mm_rank c r' p')) = ?tot"
    using rank mm_rank_less_total [OF v len] by (auto simp: mm_distance_def split: if_splits)
  obtain res where res: "mm_search is_free c r' p' r p = Some res"
    and out: "mm_search_outcome is_free c
      (\<lambda>a b. 0 < mm_distance ?tot ?k0 (mm_rank c a b) \<and>
        mm_distance ?tot ?k0 (mm_rank c a b) \<le> mm_distance ?tot ?k0 (mm_rank c r' p'))
      (\<lambda>a b. mm_rank c a b \<le> mm_rank c r' p') res"
    using mm_search_from [OF len v refl refl v' refl] by blast
  have "mm_search_outcome is_free c (\<lambda>_ _. True) (\<lambda>a b. mm_rank c a b \<le> ?k0) res"
  proof (rule mm_search_outcome_extend [OF out])
    fix a b
    assume ab: "mm_valid c a b"
    have "mm_rank c a b < ?tot" by (rule mm_rank_less_total [OF ab len])
    then have "mm_rank c a b = ?k0 \<or> 0 < mm_distance ?tot ?k0 (mm_rank c a b) \<and>
        Suc (mm_distance ?tot ?k0 (mm_rank c a b)) \<le> ?tot"
      using mm_rank_less_total [OF v len] by (auto simp: mm_distance_def)
    then show "(0 < mm_distance ?tot ?k0 (mm_rank c a b) \<and>
        mm_distance ?tot ?k0 (mm_rank c a b) \<le> mm_distance ?tot ?k0 (mm_rank c r' p')) \<or>
        mm_free_at is_free c a b = Inr False"
      using same [OF ab] nf d by auto
  next
    fix a b
    assume ab: "mm_valid c a b" and "mm_rank c a b \<le> ?k0"
    then show "mm_rank c a b \<le> mm_rank c r' p' \<or> mm_free_at is_free c a b = Inr False"
      using rank same [OF ab] nf by (cases "mm_rank c a b = ?k0") auto
  qed
  with res show "\<exists>res. mm_search is_free c r' p' (if (-1 :: u64) = -1 \<or> (-1 :: u64) = -1 then r else -1)
      (if (-1 :: u64) = -1 \<or> (-1 :: u64) = -1 then p else -1) = Some res \<and>
      mm_search_outcome is_free c (\<lambda>_ _. True) (\<lambda>a b. mm_rank c a b \<le> ?k0) res"
    by simp
next
  fix r' p'
  assume "mm_free_at is_free c r p = Inr False" "mm_rank c r p = 0" "mm_valid c r' p'"
    "mm_rank c r' p' \<le> mm_rank c r p"
  then show "mm_free_at is_free c r' p' = Inr False"
    using mm_rank_inj [OF _ v len, of r' p'] by simp
qed

section \<open>\<open>mm_get_free_page\<close>\<close>

text \<open>The static position is unset or a valid position of the memory map.\<close>

definition mm_position_ok :: "hv_state \<Rightarrow> bool" where
  "mm_position_ok s \<longleftrightarrow> chainload_shape (mm_chainload_page s) \<and>
     (last_returned_region_index s = -1 \<or> last_returned_page_index s = -1 \<or>
      mm_valid (efi_mmap_usable (mm_chainload_page s))
        (last_returned_region_index s) (last_returned_page_index s))"

lemma mm_start_position_spec:
  assumes "mm_position_ok s"
  shows "case mm_start_position s of
      Inl e \<Rightarrow> e = Fault ''efi_mmap_usable'' \<and>
        (\<forall>r p. \<not> mm_valid (efi_mmap_usable (mm_chainload_page s)) r p)
    | Inr (r, p) \<Rightarrow> mm_valid (efi_mmap_usable (mm_chainload_page s)) r p"
proof -
  let ?c = "efi_mmap_usable (mm_chainload_page s)"
  let ?top = "of_nat RKHV_MAX_EFI_MMAP_DESCRIPTORS - 1 :: u64"
  have len: "length ?c = RKHV_MAX_EFI_MMAP_DESCRIPTORS"
    using assms by (simp add: mm_position_ok_def chainload_shape_def)
  show ?thesis
  proof (cases "last_returned_region_index s = -1 \<or> last_returned_page_index s = -1")
    case True
    have "Suc (unat ?top) = RKHV_MAX_EFI_MMAP_DESCRIPTORS" by (simp add: hv_const)
    moreover have "\<not> mm_valid ?c r p" if "pages_below ?c RKHV_MAX_EFI_MMAP_DESCRIPTORS = 0" for r p
      using mm_rank_less_total [OF _ len, of r p] that by auto
    ultimately show ?thesis
      using mm_scan_down_spec [OF _ len, of ?top] True
      by (auto simp: mm_start_position_def split: sum.splits)
  next
    case False
    with assms show ?thesis by (auto simp: mm_start_position_def mm_position_ok_def)
  qed
qed

text \<open>What the outcome of \<open>mm_get_free_page\<close> means, the four ways it can end.\<close>

definition mm_get_free_page_outcome :: "hv_state \<Rightarrow> (u64 \<times> hv_state) res \<Rightarrow> bool" where
  "mm_get_free_page_outcome s res = (let c = efi_mmap_usable (mm_chainload_page s) in case res of
     Inr (a, s') \<Rightarrow> (\<exists>r p. mm_valid c r p \<and> a = mm_page_at (c ! unat r) p \<and>
       mm_page_is_free s a = Inr True \<and>
       s' = s\<lparr>last_returned_region_index := r, last_returned_page_index := p\<rparr>)
   | Inl e \<Rightarrow> (\<exists>r p. mm_valid c r p \<and> mm_free_at (mm_page_is_free s) c r p = Inl e) \<or>
       (e = Panic ''OOM :('' \<and> (\<forall>r p. mm_valid c r p \<longrightarrow> mm_free_at (mm_page_is_free s) c r p = Inr False)) \<or>
       (e = Fault ''efi_mmap_usable'' \<and> \<not> usable_desc (c ! 0)))"

lemma mm_get_free_page_spec:
  assumes ok: "mm_position_ok s"
  shows "mm_get_free_page_outcome s (mm_get_free_page s)"
proof -
  let ?c = "efi_mmap_usable (mm_chainload_page s)"
  have len: "length ?c = RKHV_MAX_EFI_MMAP_DESCRIPTORS"
    using ok by (simp add: mm_position_ok_def chainload_shape_def)
  show ?thesis
  proof (cases "mm_start_position s")
    case (Inl e)
    then have none: "e = Fault ''efi_mmap_usable''" "\<not> mm_valid ?c r p" for r p
      using mm_start_position_spec [OF ok] by simp_all
    have "\<not> usable_desc (?c ! 0)"
      using none(2) [of 0 0] by (auto simp: mm_valid_def usable_desc_def hv_const unat_gt_0)
    with Inl none(1) show ?thesis
      by (simp add: mm_get_free_page_def mm_get_free_page_outcome_def Let_def)
  next
    case (Inr pos)
    obtain r p where pos: "pos = (r, p)" by (cases pos)
    then have v: "mm_valid ?c r p" using mm_start_position_spec [OF ok] Inr by simp
    obtain res where res: "mm_search (mm_page_is_free s) ?c r p (-1) (-1) = Some res"
      and out: "mm_search_outcome (mm_page_is_free s) ?c (\<lambda>_ _. True)
        (\<lambda>r' p'. mm_rank ?c r' p' \<le> mm_rank ?c r p) res"
      using mm_search_spec [OF len v] by blast
    have "mm_get_free_page s = bnd res (\<lambda>(address, region, page).
        Inr (address, s\<lparr>last_returned_region_index := region, last_returned_page_index := page\<rparr>))"
      using Inr pos res mm_valid_neq [OF v] by (simp add: mm_get_free_page_def)
    with out show ?thesis
      by (auto simp: mm_get_free_page_outcome_def mm_search_outcome_def Let_def split: sum.splits)
  qed
qed

lemma mm_get_free_pageE:
  assumes "mm_get_free_page s = Inr (a, s')" and "mm_position_ok s"
  obtains r p where "mm_valid (efi_mmap_usable (mm_chainload_page s)) r p"
    "a = mm_page_at (efi_mmap_usable (mm_chainload_page s) ! unat r) p"
    "mm_page_is_free s a = Inr True"
    "s' = s\<lparr>last_returned_region_index := r, last_returned_page_index := p\<rparr>" "mm_position_ok s'"
  using mm_get_free_page_spec [OF assms(2)] assms
  by (auto simp: mm_get_free_page_outcome_def mm_position_ok_def Let_def)

text \<open>
  The firmware's memory map is sane: the usable regions are page aligned and lie below \<open>2 ^ 52\<close>.
\<close>

definition efi_mmap_sane :: "chainload_page_t \<Rightarrow> bool" where
  "efi_mmap_sane c \<longleftrightarrow> (\<forall>d \<in> set (efi_mmap_usable c). usable_desc d \<longrightarrow>
     page_aligned (mmap_physical_address d) \<and>
     unat (mmap_physical_address d) + 4096 * unat (mmap_pages d) \<le> 4503599627370496)"

lemma mm_page_at_phys_page:
  assumes "efi_mmap_sane c" "chainload_shape c" "mm_valid (efi_mmap_usable c) r p"
  shows "phys_page (mm_page_at (efi_mmap_usable c ! unat r) p)"
    and "unat (mm_page_at (efi_mmap_usable c ! unat r) p) =
      unat (mmap_physical_address (efi_mmap_usable c ! unat r)) + 4096 * unat p"
proof -
  let ?d = "efi_mmap_usable c ! unat r"
  have "?d \<in> set (efi_mmap_usable c)"
    using assms(2,3) by (simp add: mm_valid_def chainload_shape_def)
  then have d: "page_aligned (mmap_physical_address ?d)"
      "unat (mmap_physical_address ?d) + 4096 * unat (mmap_pages ?d) \<le> 4503599627370496"
    using assms(1) mm_valid_usable [OF assms(3)] by (auto simp: efi_mmap_sane_def)
  have p: "unat p < unat (mmap_pages ?d)" using assms(3) by (simp add: mm_valid_def)
  have m: "unat (p * PAGE_SIZE) = 4096 * unat p"
    using p d(2) by (subst unat_mult_64_no_wrap) (simp_all add: hv_const)
  show u: "unat (mm_page_at ?d p) = unat (mmap_physical_address ?d) + 4096 * unat p"
    using m p d(2) unfolding mm_page_at_def by (subst unat_plus_64_no_wrap) simp_all
  show "phys_page (mm_page_at ?d p)"
    using u p d by (auto simp: phys_page_def page_aligned_iff)
qed

end
