(* ===== verification/Arena.thy ===== *)
theory Arena
  imports Free_Page_Search
begin

text \<open>
  hv/src/memory\_management/arena.c: one-page bump allocators kept in a doubly linked list.  The
  invariant \<open>arena_ok\<close> says that the list is acyclic, that its \<open>prev\<close> pointers mirror its \<open>next\<close>
  pointers and that every arena stays within its page; every operation keeps it, and under it the
  "Corrupted arena linked list" panics cannot happen and the walk of \<open>mm_page_used_by_arena\<close> ends.
\<close>

section \<open>The operations\<close>

definition arena_at :: "hv_state \<Rightarrow> u64 \<Rightarrow> arena_header_t res" where
  "arena_at s p = (case arena_heap s p of None \<Rightarrow> Inl (Fault ''arena_header_t'') | Some h \<Rightarrow> Inr h)"

definition arena_put :: "u64 \<Rightarrow> arena_header_t \<Rightarrow> hv_state \<Rightarrow> hv_state" where
  "arena_put p h s = s\<lparr>arena_heap := (arena_heap s)(p \<mapsto> h)\<rparr>"

definition arena_allocate :: "u64 \<Rightarrow> u64 \<Rightarrow> hv_state \<Rightarrow> (u64 \<times> hv_state) res" where
  "arena_allocate arena sz s = bnd (arena_at s arena) (\<lambda>h.
     if PAGE_SIZE - (arena_used_size h + sizeof_arena_header_t) < sz
     then Inl (Panic ''subarenas not supported right now'')
     else Inr (arena + (arena_used_size h + sizeof_arena_header_t),
               arena_put arena (h\<lparr>arena_used_size := arena_used_size h + sz\<rparr>) s))"

definition arena_destroy_fix_next :: "u64 \<Rightarrow> hv_state \<Rightarrow> hv_state res" where
  "arena_destroy_fix_next arena s = bnd (arena_at s arena) (\<lambda>h.
     if arena_next h \<noteq> 0 then bnd (arena_at s (arena_next h)) (\<lambda>n.
       if arena_prev n \<noteq> arena then Inl (Panic ''Corrupted arena linked list'')
       else Inr (arena_put (arena_next h) (n\<lparr>arena_prev := arena_prev h\<rparr>) s))
     else Inr s)"

definition arena_destroy_fix_prev :: "u64 \<Rightarrow> hv_state \<Rightarrow> hv_state res" where
  "arena_destroy_fix_prev arena s = bnd (arena_at s arena) (\<lambda>h.
     if arena_prev h \<noteq> 0 then bnd (arena_at s (arena_prev h)) (\<lambda>n.
       if arena_next n \<noteq> arena then Inl (Panic ''Corrupted arena linked list'')
       else Inr (arena_put (arena_prev h) (n\<lparr>arena_next := arena_next h\<rparr>) s))
     else Inr s)"

definition arena_destroy_fix_head :: "u64 \<Rightarrow> hv_state \<Rightarrow> hv_state res" where
  "arena_destroy_fix_head arena s =
     (if arena_head s = arena then bnd (arena_at s arena) (\<lambda>h.
        if arena_prev h \<noteq> 0 then Inl (Panic ''Corrupted arena linked list'')
        else Inr (s\<lparr>arena_head := arena_next h\<rparr>))
      else Inr s)"

definition arena_destroy :: "u64 \<Rightarrow> hv_state \<Rightarrow> hv_state res" where
  "arena_destroy arena s = bnd (arena_destroy_fix_next arena s) (\<lambda>s.
     bnd (arena_destroy_fix_prev arena s) (arena_destroy_fix_head arena))"

definition arena_create :: "hv_state \<Rightarrow> (u64 \<times> hv_state) res" where
  "arena_create s = bnd (mm_get_free_page s) (\<lambda>(page, s).
     let arena_page = P2V_IDENTITY_MAP page;
         s = arena_put arena_page \<lparr>arena_prev = 0, arena_next = arena_head s,
               arena_subarenas = 0, arena_used_size = 0\<rparr> s
     in bnd (if arena_head s \<noteq> 0 then bnd (arena_at s (arena_head s)) (\<lambda>h.
               if arena_prev h \<noteq> 0 then Inl (Panic ''Corrupted arena linked list'')
               else Inr (arena_put (arena_head s) (h\<lparr>arena_prev := arena_page\<rparr>) s))
             else Inr s)
        (\<lambda>s. Inr (arena_page, s\<lparr>arena_head := arena_page\<rparr>)))"

section \<open>The list invariant\<close>

text \<open>The pointers from \<open>p\<close>, whose \<open>prev\<close> is \<open>q\<close>, lead through the nodes of the list to a null pointer.\<close>

primrec arena_dll :: "(u64 \<rightharpoonup> arena_header_t) \<Rightarrow> u64 \<Rightarrow> u64 \<Rightarrow> u64 list \<Rightarrow> bool" where
  "arena_dll h q p [] \<longleftrightarrow> p = 0"
| "arena_dll h q p (a # as) \<longleftrightarrow> p = a \<and> a \<noteq> 0 \<and>
     (\<exists>x. h a = Some x \<and> arena_prev x = q \<and> arena_dll h a (arena_next x) as)"

definition arena_node_ok :: "(u64 \<rightharpoonup> arena_header_t) \<Rightarrow> u64 \<Rightarrow> bool" where
  "arena_node_ok h a \<longleftrightarrow> phys_page (V2P_IDENTITY_MAP a) \<and>
     (\<exists>x. h a = Some x \<and> arena_subarenas x = 0 \<and> unat (arena_used_size x) + 32 \<le> 4096)"

definition arena_ok :: "hv_state \<Rightarrow> u64 list \<Rightarrow> bool" where
  "arena_ok s as \<longleftrightarrow> arena_dll (arena_heap s) 0 (arena_head s) as \<and> distinct as \<and>
     (\<forall>a \<in> set as. arena_node_ok (arena_heap s) a)"

lemma P2V_nonzero: "phys_page p \<Longrightarrow> P2V_IDENTITY_MAP p \<noteq> 0"
proof
  assume p: "phys_page p" and z: "P2V_IDENTITY_MAP p = 0"
  have "unat (P2V_IDENTITY_MAP p) = unat p + 1099511627776"
    using p unfolding P2V_IDENTITY_MAP_def hv_const
    by (subst unat_plus_64_no_wrap) (simp_all add: phys_page_def)
  with z show False by simp
qed

lemma arena_node_nonzero: "arena_node_ok h a \<Longrightarrow> a \<noteq> 0"
  using P2V_nonzero [of "V2P_IDENTITY_MAP a"] by (auto simp: arena_node_ok_def)

lemma arena_dll_unique: "arena_dll h q p as \<Longrightarrow> arena_dll h q' p bs \<Longrightarrow> as = bs"
  by (induction as arbitrary: q q' p bs) (case_tac bs; auto)+

lemma arena_dll_upd_other [simp]: "a \<notin> set as \<Longrightarrow> arena_dll (h(a := x)) q p as = arena_dll h q p as"
  by (induction as arbitrary: q p) auto

lemma arena_dll_in_dom: "arena_dll h q p as \<Longrightarrow> a \<in> set as \<Longrightarrow> \<exists>x. h a = Some x"
  by (induction as arbitrary: q p) auto

section \<open>The walk of \<open>mm_page_used_by_arena\<close>\<close>

lemma mm_page_in_arenas_dll:
  assumes "arena_dll h q p as" and "\<forall>a \<in> set as. arena_node_ok h a"
  shows "mm_page_in_arenas h sh p page = Some (Inr (P2V_IDENTITY_MAP page \<in> set as))"
  using assms
proof (induction as arbitrary: q p)
  case Nil
  then show ?case by (subst mm_page_in_arenas.simps) simp
next
  case (Cons a as)
  then obtain x where x: "h a = Some x" "arena_subarenas x = 0" "arena_dll h a (arena_next x) as"
    by (auto simp: arena_node_ok_def)
  have sub: "mm_page_in_subarenas sh (arena_subarenas x) page = Some (Inr False)"
    by (subst mm_page_in_subarenas.simps) (simp add: x)
  have "mm_page_in_arenas h sh (arena_next x) page = Some (Inr (P2V_IDENTITY_MAP page \<in> set as))"
    by (rule Cons.IH [OF x(3)]) (use Cons.prems in simp)
  with x(1) sub Cons.prems show ?case
    by (subst mm_page_in_arenas.simps) (auto simp: V2P_eq_iff)
qed

lemma mm_page_used_by_arena_ok:
  "arena_ok s as \<Longrightarrow> mm_page_used_by_arena s a = Inr (P2V_IDENTITY_MAP (a AND PAGE_MASK) \<in> set as)"
  using mm_page_in_arenas_dll unfolding mm_page_used_by_arena_def arena_ok_def by fastforce

text \<open>Under the invariant the test for a free page is a plain predicate.\<close>

definition page_in_use :: "hv_state \<Rightarrow> u64 list \<Rightarrow> u64 \<Rightarrow> bool" where
  "page_in_use s as a \<longleftrightarrow> mm_page_used_by_chainload s a \<or>
     P2V_IDENTITY_MAP (a AND PAGE_MASK) \<in> set as \<or> mm_page_used_by_vmx s a \<or>
     mm_page_used_by_vm_manager s a"

lemma mm_page_is_free_ok: "arena_ok s as \<Longrightarrow> mm_page_is_free s a = Inr (\<not> page_in_use s as a)"
  by (auto simp: mm_page_is_free_def mm_page_used_by_arena_ok page_in_use_def)

section \<open>\<open>arena_create\<close>\<close>

definition mm_ok :: "hv_state \<Rightarrow> u64 list \<Rightarrow> bool" where
  "mm_ok s as \<longleftrightarrow> mm_position_ok s \<and> efi_mmap_sane (mm_chainload_page s) \<and> arena_ok s as"

lemma mm_get_free_page_okE:
  assumes "mm_get_free_page s = Inr (a, s')" and "mm_ok s as"
  obtains r p where "s' = s\<lparr>last_returned_region_index := r, last_returned_page_index := p\<rparr>"
    "phys_page a" "\<not> page_in_use s as a" "mm_ok s' as"
proof -
  have ok: "mm_position_ok s" "efi_mmap_sane (mm_chainload_page s)" "arena_ok s as"
    using assms(2) by (simp_all add: mm_ok_def)
  obtain r p where rp: "mm_valid (efi_mmap_usable (mm_chainload_page s)) r p"
    "a = mm_page_at (efi_mmap_usable (mm_chainload_page s) ! unat r) p"
    "mm_page_is_free s a = Inr True"
    "s' = s\<lparr>last_returned_region_index := r, last_returned_page_index := p\<rparr>" "mm_position_ok s'"
    by (rule mm_get_free_pageE [OF assms(1) ok(1)])
  have "phys_page a"
    using mm_page_at_phys_page(1) [OF ok(2) _ rp(1)] ok(1) rp(2) by (simp add: mm_position_ok_def)
  moreover have "mm_ok s' as" using ok rp(4,5) by (simp add: mm_ok_def arena_ok_def)
  moreover have "\<not> page_in_use s as a" using rp(3) mm_page_is_free_ok [OF ok(3)] by simp
  ultimately show ?thesis using that rp(4) by blast
qed

lemma arena_create_ok:
  assumes "mm_get_free_page s = Inr (page, s1)" and "mm_ok s as"
  obtains s' where "arena_create s = Inr (P2V_IDENTITY_MAP page, s')" "mm_ok s' (P2V_IDENTITY_MAP page # as)"
    "\<exists>h. s' = s1\<lparr>arena_heap := h, arena_head := P2V_IDENTITY_MAP page\<rparr>"
proof -
  let ?a = "P2V_IDENTITY_MAP page"
  obtain r p where s1: "s1 = s\<lparr>last_returned_region_index := r, last_returned_page_index := p\<rparr>"
    and page: "phys_page page" "\<not> page_in_use s as page" and ok1: "mm_ok s1 as"
    by (rule mm_get_free_page_okE [OF assms])
  have fresh: "?a \<notin> set as" using page by (simp add: page_in_use_def hv_const)
  have nz: "?a \<noteq> 0" by (rule P2V_nonzero [OF page(1)])
  define h0 where "h0 = \<lparr>arena_prev = 0, arena_next = arena_head s1, arena_subarenas = 0, arena_used_size = 0\<rparr>"
  have dll: "arena_dll (arena_heap s1) 0 (arena_head s1) as" and dist: "distinct as"
    and nodes: "\<forall>a \<in> set as. arena_node_ok (arena_heap s1) a"
    using ok1 by (auto simp: mm_ok_def arena_ok_def)
  have keep: "mm_position_ok (s1\<lparr>arena_heap := h, arena_head := x\<rparr>) = mm_position_ok s1" for h x
    by (simp add: mm_position_ok_def)
  show ?thesis
  proof (cases as)
    case Nil
    then have head: "arena_head s1 = 0" using dll by simp
    let ?s = "s1\<lparr>arena_heap := (arena_heap s1)(?a \<mapsto> h0), arena_head := ?a\<rparr>"
    have "arena_create s = Inr (?a, ?s)"
      using head by (simp add: arena_create_def assms(1) arena_put_def Let_def h0_def)
    moreover have "mm_ok ?s (?a # as)"
      using ok1 keep Nil nz page(1) head by (simp add: mm_ok_def arena_ok_def arena_node_ok_def h0_def)
    ultimately show ?thesis using that by blast
  next
    case (Cons b bs)
    then obtain x where x: "arena_head s1 = b" "arena_heap s1 b = Some x" "arena_prev x = 0"
      "arena_dll (arena_heap s1) b (arena_next x) bs" "b \<noteq> 0"
      using dll by auto
    have ab: "b \<noteq> ?a" and bbs: "b \<notin> set bs" using fresh Cons dist by auto
    let ?h = "(arena_heap s1)(?a \<mapsto> h0, b \<mapsto> x\<lparr>arena_prev := ?a\<rparr>)"
    let ?s = "s1\<lparr>arena_heap := ?h, arena_head := ?a\<rparr>"
    have "arena_create s = Inr (?a, ?s)"
      using x ab by (simp add: arena_create_def assms(1) arena_put_def arena_at_def Let_def h0_def)
    moreover have "mm_ok ?s (?a # as)"
      using ok1 keep Cons nz page(1) x ab bbs fresh dist nodes
      by (auto simp: mm_ok_def arena_ok_def arena_node_ok_def h0_def)
    ultimately show ?thesis using that by blast
  qed
qed

section \<open>\<open>arena_destroy\<close>\<close>

definition dll_set_prev :: "(u64 \<rightharpoonup> arena_header_t) \<Rightarrow> u64 \<Rightarrow> u64 \<Rightarrow> u64 \<rightharpoonup> arena_header_t" where
  "dll_set_prev h p v = (case h p of Some n \<Rightarrow> if p = 0 then h else h(p \<mapsto> n\<lparr>arena_prev := v\<rparr>) | None \<Rightarrow> h)"

definition dll_set_next :: "(u64 \<rightharpoonup> arena_header_t) \<Rightarrow> u64 \<Rightarrow> u64 \<Rightarrow> u64 \<rightharpoonup> arena_header_t" where
  "dll_set_next h p v = (case h p of Some n \<Rightarrow> if p = 0 then h else h(p \<mapsto> n\<lparr>arena_next := v\<rparr>) | None \<Rightarrow> h)"

definition dll_unlink :: "arena_header_t \<Rightarrow> (u64 \<rightharpoonup> arena_header_t) \<Rightarrow> u64 \<rightharpoonup> arena_header_t" where
  "dll_unlink x h = dll_set_next (dll_set_prev h (arena_next x) (arena_prev x)) (arena_prev x) (arena_next x)"

lemma dll_set_apply:
  "dll_set_prev h p v q = (if q = p \<and> p \<noteq> 0 then map_option (\<lambda>n. n\<lparr>arena_prev := v\<rparr>) (h q) else h q)"
  "dll_set_next h p v q = (if q = p \<and> p \<noteq> 0 then map_option (\<lambda>n. n\<lparr>arena_next := v\<rparr>) (h q) else h q)"
  by (auto simp: dll_set_prev_def dll_set_next_def split: option.splits)

lemma arena_dll_cong:
  "(\<And>a. a \<in> set as \<Longrightarrow> h a = h' a) \<Longrightarrow> arena_dll h q p as = arena_dll h' q p as"
  by (induction as arbitrary: q p) auto

lemma arena_dll_head: "arena_dll h q p as \<Longrightarrow> p = (case as of [] \<Rightarrow> 0 | a # _ \<Rightarrow> a)"
  by (cases as) auto

lemma arena_dll_mid:
  "arena_dll h q p (xs @ a # ys) \<Longrightarrow> \<exists>x. h a = Some x \<and> a \<noteq> 0 \<and>
     arena_prev x = (if xs = [] then q else last xs) \<and> arena_dll h a (arena_next x) ys"
  by (induction xs arbitrary: q p) auto

lemma arena_dll_unlink:
  assumes "arena_dll h q p (xs @ a # ys)" "distinct (xs @ a # ys)" "q \<notin> set (xs @ a # ys)" "h a = Some x"
  shows "arena_dll (dll_unlink x h) q (if xs = [] then arena_next x else p) (xs @ ys)"
  using assms
proof (induction xs arbitrary: q p)
  case Nil
  then have p: "arena_prev x = q" "arena_dll h a (arena_next x) ys" by auto
  show ?case
  proof (cases ys)
    case Nil
    with p show ?thesis by simp
  next
    case (Cons c cs)
    then obtain y where y: "arena_next x = c" "c \<noteq> 0" "h c = Some y" "arena_dll h c (arena_next y) cs"
      using p by auto
    have ne: "q \<noteq> c" "q \<notin> set cs" "c \<notin> set cs" using Nil.prems Cons by auto
    have "dll_unlink x h c = Some (y\<lparr>arena_prev := q\<rparr>)"
      using y ne p by (simp add: dll_unlink_def dll_set_apply)
    moreover have "arena_dll (dll_unlink x h) c (arena_next y) cs"
      using arena_dll_cong [of cs "dll_unlink x h" h] y ne p
      by (force simp: dll_unlink_def dll_set_apply)
    ultimately show ?thesis using y Cons by simp
  qed
next
  case (Cons b xs)
  then obtain y where y: "p = b" "b \<noteq> 0" "h b = Some y" "arena_prev y = q"
    "arena_dll h b (arena_next y) (xs @ a # ys)" by auto
  have IH: "arena_dll (dll_unlink x h) b (if xs = [] then arena_next x else arena_next y) (xs @ ys)"
    by (rule Cons.IH [OF y(5)]) (use Cons.prems in auto)
  have prev: "arena_prev x = (if xs = [] then b else last xs)" and nxt: "arena_dll h a (arena_next x) ys"
    using arena_dll_mid [OF y(5)] Cons.prems(4) by auto
  have nb: "b \<noteq> arena_next x" using arena_dll_head [OF nxt] y(2) Cons.prems(2) by (cases ys) auto
  have pb: "b \<noteq> arena_prev x" if "xs \<noteq> []" using that prev Cons.prems(2) last_in_set [OF that] by auto
  show ?case
  proof (cases "xs = []")
    case True
    with y nb prev have "dll_unlink x h b = Some (y\<lparr>arena_next := arena_next x\<rparr>)"
      by (simp add: dll_unlink_def dll_set_apply)
    with True IH y show ?thesis by simp
  next
    case False
    with y nb pb have "dll_unlink x h b = Some y" by (simp add: dll_unlink_def dll_set_apply)
    with False IH y show ?thesis by simp
  qed
qed

lemma arena_node_ok_unlink: "arena_node_ok h b \<Longrightarrow> arena_node_ok (dll_unlink x h) b"
  by (auto simp: arena_node_ok_def dll_unlink_def dll_set_apply)

text \<open>Destroying a live arena never finds the list corrupted, and unlinks exactly that arena.\<close>

lemma arena_destroy_ok:
  assumes "arena_ok s as" and "a \<in> set as"
  obtains h hd where "arena_destroy a s = Inr (s\<lparr>arena_heap := h, arena_head := hd\<rparr>)"
    "arena_ok (s\<lparr>arena_heap := h, arena_head := hd\<rparr>) (remove1 a as)"
proof -
  let ?h = "arena_heap s"
  obtain xs ys where as: "as = xs @ a # ys" "a \<notin> set xs" using split_list_first [OF assms(2)] by blast
  have dll: "arena_dll ?h 0 (arena_head s) (xs @ a # ys)" and dist: "distinct (xs @ a # ys)"
    and nodes: "\<forall>b \<in> set as. arena_node_ok ?h b"
    using assms(1) as by (auto simp: arena_ok_def)
  obtain x where x: "?h a = Some x" "a \<noteq> 0" "arena_prev x = (if xs = [] then 0 else last xs)"
    "arena_dll ?h a (arena_next x) ys" using arena_dll_mid [OF dll] by blast
  have z: "0 \<notin> set (xs @ a # ys)" using nodes arena_node_nonzero as by blast
  have hd: "arena_head s = a \<longleftrightarrow> xs = []"
    using arena_dll_head [OF dll] dist by (cases xs) auto
  have na: "arena_next x \<noteq> a" "arena_prev x \<noteq> a" "arena_prev x = 0 \<or> arena_prev x \<noteq> arena_next x"
    using arena_dll_head [OF x(4)] x(2,3) dist last_in_set [of xs] by (cases ys; auto split: if_splits)+
  let ?s1 = "s\<lparr>arena_heap := dll_set_prev ?h (arena_next x) (arena_prev x)\<rparr>"
  have 1: "arena_destroy_fix_next a s = Inr ?s1"
    using x(4) by (cases ys) (auto simp: arena_destroy_fix_next_def arena_at_def arena_put_def x(1)
      dll_set_prev_def split: option.splits)
  have prevnode: "\<exists>y. ?h (arena_prev x) = Some y \<and> arena_next y = a" if "arena_prev x \<noteq> 0"
  proof -
    from that x(3) obtain zs b where xs: "xs = zs @ [b]" by (metis append_butlast_last_id)
    then show ?thesis using arena_dll_mid [of ?h 0 "arena_head s" zs b "a # ys"] dll x(3) by auto
  qed
  let ?s2 = "s\<lparr>arena_heap := dll_unlink x ?h\<rparr>"
  have 2: "arena_destroy_fix_prev a ?s1 = Inr ?s2"
  proof (cases "arena_prev x = 0")
    case True
    then show ?thesis using na x(1)
      by (auto simp: arena_destroy_fix_prev_def arena_at_def dll_unlink_def dll_set_next_def
        dll_set_apply split: option.splits)
  next
    case False
    then obtain y where "?h (arena_prev x) = Some y" "arena_next y = a" using prevnode by blast
    then show ?thesis using na x(1) False
      by (auto simp: arena_destroy_fix_prev_def arena_at_def arena_put_def dll_unlink_def
        dll_set_next_def dll_set_apply split: option.splits)
  qed
  let ?hd = "if xs = [] then arena_next x else arena_head s"
  have "dll_unlink x ?h a = Some x" using x(1) na by (simp add: dll_unlink_def dll_set_apply)
  then have 3: "arena_destroy_fix_head a ?s2 = Inr (s\<lparr>arena_heap := dll_unlink x ?h, arena_head := ?hd\<rparr>)"
    using x(3) hd by (auto simp: arena_destroy_fix_head_def arena_at_def)
  have "arena_ok (s\<lparr>arena_heap := dll_unlink x ?h, arena_head := ?hd\<rparr>) (remove1 a as)"
    using arena_dll_unlink [OF dll dist z x(1)] dist nodes arena_node_ok_unlink as
    by (auto simp: arena_ok_def remove1_append)
  with that 1 2 3 show ?thesis by (simp add: arena_destroy_def)
qed

section \<open>\<open>arena_allocate\<close>\<close>

text \<open>
  The bytes an arena has handed out are those between its header and its fill pointer; an
  allocation takes the next ones, inside the page, or stops the machine.
\<close>

definition arena_end :: "hv_state \<Rightarrow> u64 \<Rightarrow> nat" where
  "arena_end s a = (case arena_heap s a of None \<Rightarrow> 0 | Some h \<Rightarrow> 32 + unat (arena_used_size h))"

lemma arena_dll_put:
  "h a = Some x \<Longrightarrow> arena_dll (h(a \<mapsto> x\<lparr>arena_used_size := n\<rparr>)) q p as = arena_dll h q p as"
  by (induction as arbitrary: q p) auto

lemma arena_allocate_spec:
  assumes "arena_ok s as" "a \<in> set as"
  shows "if arena_end s a + unat sz \<le> 4096
     then \<exists>h. arena_allocate a sz s = Inr (a + of_nat (arena_end s a), s\<lparr>arena_heap := h\<rparr>) \<and>
       arena_ok (s\<lparr>arena_heap := h\<rparr>) as \<and>
       arena_end (s\<lparr>arena_heap := h\<rparr>) a = arena_end s a + unat sz \<and>
       (\<forall>b. b \<noteq> a \<longrightarrow> h b = arena_heap s b)
     else arena_allocate a sz s = Inl (Panic ''subarenas not supported right now'')"
proof -
  have node: "arena_node_ok (arena_heap s) a" using assms by (simp add: arena_ok_def)
  then obtain x where x: "arena_heap s a = Some x" "unat (arena_used_size x) + 32 \<le> 4096"
    by (auto simp: arena_node_ok_def)
  have u: "unat (arena_used_size x + 32) = unat (arena_used_size x) + 32"
    using x(2) by (subst unat_plus_64_no_wrap) simp_all
  have le: "arena_used_size x + 32 \<le> 0x1000" using u x(2) by (simp add: word_le_nat_alt)
  have room: "0x1000 - (arena_used_size x + 32) < sz \<longleftrightarrow> 4096 < arena_end s a + unat sz"
    unfolding word_less_nat_alt unat_minus_64 [OF le] u using x by (auto simp: arena_end_def)
  have off: "of_nat (arena_end s a) = arena_used_size x + 32"
    using x(1) by (simp add: arena_end_def add.commute)
  show ?thesis
  proof (cases "arena_end s a + unat sz \<le> 4096")
    case True
    have us: "unat (arena_used_size x + sz) = unat (arena_used_size x) + unat sz"
      using True x by (subst unat_plus_64_no_wrap) (simp_all add: arena_end_def)
    let ?h = "(arena_heap s)(a \<mapsto> x\<lparr>arena_used_size := arena_used_size x + sz\<rparr>)"
    have "arena_allocate a sz s = Inr (a + of_nat (arena_end s a), s\<lparr>arena_heap := ?h\<rparr>)"
      using True room x(1) off by (simp add: arena_allocate_def arena_at_def arena_put_def hv_const)
    moreover have "arena_ok (s\<lparr>arena_heap := ?h\<rparr>) as"
      using assms(1) node True us x
      by (auto simp: arena_ok_def arena_dll_put arena_node_ok_def arena_end_def)
    moreover have "arena_end (s\<lparr>arena_heap := ?h\<rparr>) a = arena_end s a + unat sz"
      using us x(1) by (simp add: arena_end_def)
    ultimately show ?thesis using True by auto
  next
    case False
    then show ?thesis using room x(1) by (simp add: arena_allocate_def arena_at_def hv_const)
  qed
qed

end
