(* ===== verification/Vmx_Msr.thy ===== *)
theory Vmx_Msr
  imports Hv_State
begin

text \<open>
  hv/src/vmm/vmx\_msr.c and the list \<open>VMX_MSR_LIST\<close> of vmx\_msr.h: the MSR bitmaps of the guests and
  the exchange of MSRs between host and guest around a VM exit.  The lemmas show that the bitmaps let
  a guest write exactly the MSRs of the list, and that an exit followed by a resumption gives back the
  MSRs of the guest while the host ran with its own.
\<close>

section \<open>Constants and the state of an exit\<close>

definition IA32_BIOS_SIGN_ID :: u32 where [hv_const]: "IA32_BIOS_SIGN_ID = 0x8B"
definition IA32_MISC_ENABLE :: u32 where [hv_const]: "IA32_MISC_ENABLE = 0x1A0"
definition IA32_XSS :: u32 where [hv_const]: "IA32_XSS = 0xDA0"
definition IA32_EFER :: u32 where [hv_const]: "IA32_EFER = 0xC0000080"
definition IA32_FS_BASE :: u32 where [hv_const]: "IA32_FS_BASE = 0xC0000100"
definition IA32_GS_BASE :: u32 where [hv_const]: "IA32_GS_BASE = 0xC0000101"
definition IA32_KERNEL_GS_BASE :: u32 where [hv_const]: "IA32_KERNEL_GS_BASE = 0xC0000102"
definition IA32_VMX_BASIC :: u32 where [hv_const]: "IA32_VMX_BASIC = 0x480"

definition VMCS_GUEST_IA32_EFER :: u64 where [hv_const]: "VMCS_GUEST_IA32_EFER = 0x2806"
definition VMCS_GUEST_FS_BASE :: u64 where [hv_const]: "VMCS_GUEST_FS_BASE = 0x680E"
definition VMCS_GUEST_GS_BASE :: u64 where [hv_const]: "VMCS_GUEST_GS_BASE = 0x6810"

definition VMCS_MSR_BITMAPS_READ_LOW :: u64 where [hv_const]: "VMCS_MSR_BITMAPS_READ_LOW = 0"
definition VMCS_MSR_BITMAPS_READ_HIGH :: u64 where [hv_const]: "VMCS_MSR_BITMAPS_READ_HIGH = 1024"
definition VMCS_MSR_BITMAPS_WRITE_LOW :: u64 where [hv_const]: "VMCS_MSR_BITMAPS_WRITE_LOW = 2048"
definition VMCS_MSR_BITMAPS_WRITE_HIGH :: u64 where [hv_const]: "VMCS_MSR_BITMAPS_WRITE_HIGH = 3072"
definition VMCS_MSR_BITMAPS_HIGH_BASE :: u32 where
  [hv_const]: "VMCS_MSR_BITMAPS_HIGH_BASE = 0xc0000000"

text \<open>\<open>vmx_vmexit_state_t\<close>; the registers are held by value, the machine by its address.\<close>

record vmx_vmexit_state_t =
  st_vm :: u64
  reg_state :: vmx_gpr_state_t
  rip :: u64
  rsp :: u64
  rflags :: u64
  cr0 :: u64
  cr3 :: u64
  cr4 :: u64
  msrs :: vmx_msr_state_t

text \<open>
  The lines of \<open>VMX_MSR_LIST\<close>, with the field of \<open>vmx_msr_state_t\<close> each of them names as a pair of a
  getter and a setter; the \<open>X_VMCS\<close> lines come first in the list.
\<close>

type_synonym msr_field = "(vmx_msr_state_t \<Rightarrow> u64) \<times> (u64 \<Rightarrow> vmx_msr_state_t \<Rightarrow> vmx_msr_state_t)"

definition VMX_MSR_LIST_VMCS :: "(u32 \<times> u64 \<times> msr_field) list" where
  "VMX_MSR_LIST_VMCS =
    [(IA32_EFER, VMCS_GUEST_IA32_EFER, ia32_efer, \<lambda>v. ia32_efer_update (\<lambda>_. v)),
     (IA32_FS_BASE, VMCS_GUEST_FS_BASE, ia32_fs_base, \<lambda>v. ia32_fs_base_update (\<lambda>_. v)),
     (IA32_GS_BASE, VMCS_GUEST_GS_BASE, ia32_gs_base, \<lambda>v. ia32_gs_base_update (\<lambda>_. v))]"

definition VMX_MSR_LIST_RWBK :: "(u32 \<times> msr_field) list" where
  "VMX_MSR_LIST_RWBK =
    [(IA32_MISC_ENABLE, ia32_misc_enable, \<lambda>v. ia32_misc_enable_update (\<lambda>_. v)),
     (IA32_BIOS_SIGN_ID, ia32_bios_sign_id, \<lambda>v. ia32_bios_sign_id_update (\<lambda>_. v)),
     (IA32_XSS, ia32_xss, \<lambda>v. ia32_xss_update (\<lambda>_. v)),
     (IA32_KERNEL_GS_BASE, ia32_kernel_gs_base, \<lambda>v. ia32_kernel_gs_base_update (\<lambda>_. v))]"

definition VMX_MSR_LIST :: "u32 list" where
  "VMX_MSR_LIST = map fst VMX_MSR_LIST_VMCS @ map fst VMX_MSR_LIST_RWBK"

section \<open>The bitmaps\<close>

text \<open>The macro \<open>X_ALLOW_MSR\<close>; the pointer is the physical address of the bitmaps page.\<close>

definition X_ALLOW_MSR :: "u64 \<Rightarrow> u32 \<Rightarrow> phys_mem \<Rightarrow> phys_mem" where
  "X_ALLOW_MSR msr_bitmaps addr m =
     (if addr < VMCS_MSR_BITMAPS_HIGH_BASE then
        (let offset = ucast (addr div 8) :: u64;
             mask = NOT (push_bit (unat (addr mod 8)) 1) :: u8;
             p = msr_bitmaps + (VMCS_MSR_BITMAPS_WRITE_LOW + offset)
         in m(p := m p AND mask))
      else
        (let offset = ucast ((addr - VMCS_MSR_BITMAPS_HIGH_BASE) div 8) :: u64;
             mask = NOT (push_bit (unat ((addr - VMCS_MSR_BITMAPS_HIGH_BASE) mod 8)) 1) :: u8;
             p = msr_bitmaps + (VMCS_MSR_BITMAPS_WRITE_HIGH + offset)
         in m(p := m p AND mask)))"

definition vmx_msr_init_bitmaps :: "u64 \<Rightarrow> phys_mem \<Rightarrow> phys_mem" where
  "vmx_msr_init_bitmaps msr_bitmaps m =
     (let m = memset (msr_bitmaps + VMCS_MSR_BITMAPS_READ_LOW) 0 1024 m;
          m = memset (msr_bitmaps + VMCS_MSR_BITMAPS_READ_HIGH) 0 1024 m;
          m = memset (msr_bitmaps + VMCS_MSR_BITMAPS_WRITE_LOW) 0xff 1024 m;
          m = memset (msr_bitmaps + VMCS_MSR_BITMAPS_WRITE_HIGH) 0xff 1024 m
      in fold (X_ALLOW_MSR msr_bitmaps) VMX_MSR_LIST m)"

text \<open>
  The processor reads the bitmaps (Intel manual, volume 3, 25.6.9): four tables of 8192 bits, for the
  reads and the writes of the low MSRs, 0 to 0x1fff, and of the high ones, 0xc0000000 to 0xc0001fff.
  An access exits when its bit is set, and always for any other MSR.
\<close>

definition page_bit :: "phys_mem \<Rightarrow> u64 \<Rightarrow> nat \<Rightarrow> bool" where
  "page_bit m p k = bit (m (p + of_nat (k div 8))) (k mod 8)"

definition msr_index :: "u32 \<Rightarrow> nat option" where
  "msr_index a = (if unat a < 8192 then Some (unat a)
     else if 3221225472 \<le> unat a \<and> unat a < 3221233664 then Some (8192 + (unat a - 3221225472))
     else None)"

definition msr_read_exits :: "phys_mem \<Rightarrow> u64 \<Rightarrow> u32 \<Rightarrow> bool" where
  "msr_read_exits m p a = (case msr_index a of None \<Rightarrow> True | Some k \<Rightarrow> page_bit m p k)"

definition msr_write_exits :: "phys_mem \<Rightarrow> u64 \<Rightarrow> u32 \<Rightarrow> bool" where
  "msr_write_exits m p a = (case msr_index a of None \<Rightarrow> True | Some k \<Rightarrow> page_bit m p (16384 + k))"

lemma msr_index_inj: "msr_index a = Some k \<Longrightarrow> msr_index b = Some k \<Longrightarrow> a = b"
  by (rule word_unat_eqI) (auto simp: msr_index_def split: if_splits)

lemma msr_index_bound: "msr_index a = Some k \<Longrightarrow> k < 16384"
  by (auto simp: msr_index_def split: if_splits)

lemma page_bit_clear:
  assumes "k < 32768" "j < 32768"
  shows "page_bit (m(p + of_nat (j div 8) := m (p + of_nat (j div 8)) AND NOT (push_bit (j mod 8) 1))) p k
     \<longleftrightarrow> page_bit m p k \<and> k \<noteq> j"
proof (cases "j div 8 = k div 8")
  case True
  then have "k = j \<longleftrightarrow> k mod 8 = j mod 8" by (metis div_mult_mod_eq)
  with True show ?thesis by (auto simp: page_bit_def bit_simps)
next
  case False
  then have "of_nat (j div 8) \<noteq> (of_nat (k div 8) :: u64)"
    using assms by (auto dest!: arg_cong [where f = unat] simp: unat_of_nat_64)
  with False show ?thesis by (auto simp: page_bit_def)
qed

lemma X_ALLOW_MSR_bits:
  assumes "msr_index a = Some j"
  shows "X_ALLOW_MSR p a m = m(p + of_nat ((16384 + j) div 8) :=
     m (p + of_nat ((16384 + j) div 8)) AND NOT (push_bit ((16384 + j) mod 8) 1))"
proof (cases "unat a < 8192")
  case True
  then have j: "j = unat a" "a < 0xc0000000"
    using assms by (simp_all add: msr_index_def word_less_nat_alt)
  have d: "(16384 + j) div 8 = 2048 + unat a div 8" "(16384 + j) mod 8 = unat a mod 8"
    using j by (simp_all add: mod_add_eq [symmetric] div_add1_eq)
  have "(ucast (a div 8) :: u64) = of_nat (unat a div 8)"
    by (rule word_unat_eqI)
      (use True in \<open>simp add: unat_div unat_of_nat_64 unsigned_ucast_eq take_bit_nat_eq_self\<close>)
  with j d show ?thesis by (simp add: X_ALLOW_MSR_def hv_const Let_def unat_mod)
next
  case False
  then have j: "j = 8192 + (unat a - 3221225472)" "3221225472 \<le> unat a" "unat a < 3221233664"
    using assms by (simp_all add: msr_index_def split: if_splits)
  have le: "0xc0000000 \<le> a" using j(2) by (simp add: word_le_nat_alt)
  have u: "unat (a - 0xc0000000) = unat a - 3221225472" by (simp add: unat_sub [OF le])
  have d: "(16384 + (8192 + x)) div 8 = 3072 + x div 8" "(16384 + (8192 + x)) mod 8 = x mod 8" for x :: nat
    by presburger+
  have "(ucast ((a - 0xc0000000) div 8) :: u64) = of_nat ((unat a - 3221225472) div 8)"
    by (rule word_unat_eqI)
      (use j in \<open>simp add: unat_div u unat_of_nat_64 unsigned_ucast_eq take_bit_nat_eq_self\<close>)
  with le u show ?thesis unfolding j(1) d
    by (simp add: X_ALLOW_MSR_def hv_const Let_def unat_mod not_less [symmetric])
qed

lemma X_ALLOW_MSR_page_bit:
  assumes "msr_index a = Some j" "k < 32768"
  shows "page_bit (X_ALLOW_MSR p a m) p k \<longleftrightarrow> page_bit m p k \<and> k \<noteq> 16384 + j"
  using page_bit_clear [of k "16384 + j" m p] msr_index_bound [OF assms(1)] assms
  by (simp add: X_ALLOW_MSR_bits)

lemma fold_X_ALLOW_MSR:
  assumes "\<And>a. a \<in> set as \<Longrightarrow> msr_index a \<noteq> None" "k < 32768"
  shows "page_bit (fold (X_ALLOW_MSR p) as m) p k \<longleftrightarrow>
     page_bit m p k \<and> (\<forall>a \<in> set as. \<forall>j. msr_index a = Some j \<longrightarrow> k \<noteq> 16384 + j)"
  using assms
proof (induction as arbitrary: m)
  case Nil
  then show ?case by simp
next
  case (Cons a as)
  then obtain j where j: "msr_index a = Some j" by fastforce
  with Cons show ?case by (auto simp: X_ALLOW_MSR_page_bit)
qed

lemma msr_list_indexed: "a \<in> set VMX_MSR_LIST \<Longrightarrow> msr_index a \<noteq> None"
  by (auto simp: VMX_MSR_LIST_def VMX_MSR_LIST_VMCS_def VMX_MSR_LIST_RWBK_def hv_const msr_index_def)

lemma fold_msr_list:
  "k < 32768 \<Longrightarrow> page_bit (fold (X_ALLOW_MSR p) VMX_MSR_LIST m) p k \<longleftrightarrow>
     page_bit m p k \<and> (\<forall>a \<in> set VMX_MSR_LIST. \<forall>j. msr_index a = Some j \<longrightarrow> k \<noteq> 16384 + j)"
  by (rule fold_X_ALLOW_MSR) (rule msr_list_indexed)

lemma bitmap_bytes:
  assumes "i < 4096"
  shows "memset (p + 3072) 0xff 1024 (memset (p + 2048) 0xff 1024 (memset (p + 1024) 0 1024
     (memset p 0 1024 m))) (p + of_nat i) = (if i < 2048 then 0 else 0xff)"
proof -
  have u: "unat (of_nat i :: u64) = i" using assms by (simp add: unat_of_nat_64)
  have "unat (of_nat i - of_nat c :: u64) < 1024 \<longleftrightarrow> c \<le> i \<and> i < c + 1024" if "c < 4096" for c
  proof -
    have "unat (of_nat c :: u64) = c" using that by (simp add: unat_of_nat_64)
    then show ?thesis using u that assms by (auto simp: unat_sub_if')
  qed
  from this [of 0] this [of 1024] this [of 2048] this [of 3072] show ?thesis
    using assms by (simp add: memset_apply)
qed

lemma page_bit_initial:
  assumes "k < 32768"
  shows "page_bit (memset (p + 3072) 0xff 1024 (memset (p + 2048) 0xff 1024 (memset (p + 1024) 0 1024
     (memset p 0 1024 m)))) p k \<longleftrightarrow> 16384 \<le> k"
proof -
  have m8: "(0xff :: u8) = mask 8" by (simp add: mask_eq_exp_minus_1)
  have ff: "bit (0xff :: u8) n \<longleftrightarrow> n < 8" for n unfolding m8 by (simp add: bit_mask_iff)
  have "k div 8 < 4096" using assms by simp
  moreover have "bit (0xff :: u8) (k mod 8)" unfolding ff by (rule mod_less_divisor) simp
  moreover have "k div 8 < 2048 \<longleftrightarrow> k < 16384" by auto
  ultimately show ?thesis using bitmap_bytes [of "k div 8" p m] by (auto simp: page_bit_def)
qed

lemma vmx_msr_init_bitmaps_page_bit:
  assumes "k < 32768"
  shows "page_bit (vmx_msr_init_bitmaps p m) p k \<longleftrightarrow>
     16384 \<le> k \<and> (\<forall>a \<in> set VMX_MSR_LIST. \<forall>j. msr_index a = Some j \<longrightarrow> k \<noteq> 16384 + j)"
  unfolding vmx_msr_init_bitmaps_def Let_def fold_msr_list [OF assms]
    VMCS_MSR_BITMAPS_READ_LOW_def VMCS_MSR_BITMAPS_READ_HIGH_def VMCS_MSR_BITMAPS_WRITE_LOW_def
    VMCS_MSR_BITMAPS_WRITE_HIGH_def add_0_right page_bit_initial [OF assms]
  by (rule refl)

lemma msr_bitmaps_write_exits: "msr_write_exits (vmx_msr_init_bitmaps p m) p a \<longleftrightarrow> a \<notin> set VMX_MSR_LIST"
proof (cases "msr_index a")
  case None
  then show ?thesis using msr_list_indexed [of a] by (auto simp: msr_write_exits_def)
next
  case (Some k)
  then have "16384 + k < 32768" using msr_index_bound by fastforce
  from vmx_msr_init_bitmaps_page_bit [OF this, of p m] Some
  have "msr_write_exits (vmx_msr_init_bitmaps p m) p a \<longleftrightarrow>
      (\<forall>b \<in> set VMX_MSR_LIST. msr_index b \<noteq> Some k)"
    by (simp add: msr_write_exits_def) blast
  also have "\<dots> \<longleftrightarrow> a \<notin> set VMX_MSR_LIST" using Some msr_index_inj by blast
  finally show ?thesis .
qed

lemma msr_bitmaps_read_exits: "msr_read_exits (vmx_msr_init_bitmaps p m) p a \<longleftrightarrow> msr_index a = None"
proof (cases "msr_index a")
  case None
  then show ?thesis by (simp add: msr_read_exits_def)
next
  case (Some k)
  then have k: "k < 16384" by (rule msr_index_bound)
  then have "k < 32768" by simp
  from vmx_msr_init_bitmaps_page_bit [OF this, of p m] Some k show ?thesis
    by (simp add: msr_read_exits_def)
qed

text \<open>Nothing outside the bitmaps page is written.\<close>

lemma X_ALLOW_MSR_other:
  assumes "msr_index a = Some j" "page_aligned p" "page_aligned q" "p \<noteq> q"
  shows "page_eq (X_ALLOW_MSR p a m) m q"
proof -
  have b: "(16384 + j) div 8 < 4096" using msr_index_bound [OF assms(1)] by simp
  then have "p + of_nat ((16384 + j) div 8) \<noteq> q + off" if "unat off < 4096" for off
    using page_plus_inj [OF assms(2,3) _ that, of "of_nat ((16384 + j) div 8)"] assms(4)
    by (auto simp: unat_of_nat_64)
  then show ?thesis by (simp add: page_eq_def X_ALLOW_MSR_bits [OF assms(1)] eq_commute)
qed

lemma fold_X_ALLOW_MSR_other:
  assumes "\<And>a. a \<in> set as \<Longrightarrow> msr_index a \<noteq> None" "page_aligned p" "page_aligned q" "p \<noteq> q"
  shows "page_eq (fold (X_ALLOW_MSR p) as m) m q"
  using assms(1)
proof (induction as arbitrary: m)
  case Nil
  then show ?case by simp
next
  case (Cons a as)
  then obtain j where "msr_index a = Some j" by fastforce
  with X_ALLOW_MSR_other assms(2-4) have "page_eq (X_ALLOW_MSR p a m) m q" by blast
  with Cons page_eq_trans show ?case by fastforce
qed

section \<open>Launching, leaving and resuming a guest\<close>

definition X_RWBK_vmlaunch :: "u32 \<times> msr_field \<Rightarrow> hv_state \<Rightarrow> hv_state" where
  "X_RWBK_vmlaunch l s = (case l of (addr, get, upd) \<Rightarrow>
     s\<lparr>vmx_msr_host_backup := upd (rdmsr s addr) (vmx_msr_host_backup s)\<rparr>)"

definition vmx_msr_vmlaunch :: "hv_state \<Rightarrow> hv_state" where
  "vmx_msr_vmlaunch s = fold X_RWBK_vmlaunch VMX_MSR_LIST_RWBK s"

definition X_VMCS_vmexit :: "u32 \<times> u64 \<times> msr_field \<Rightarrow> vmx_vmexit_state_t \<times> hv_state \<Rightarrow>
    (vmx_vmexit_state_t \<times> hv_state) res" where
  "X_VMCS_vmexit l st = (case l of (addr, field, get, upd) \<Rightarrow> case st of (v, s) \<Rightarrow>
     bnd (vmx_vmread field s) (\<lambda>x. Inr (v\<lparr>msrs := upd x (msrs v)\<rparr>, s)))"

definition X_RWBK_vmexit :: "u32 \<times> msr_field \<Rightarrow> vmx_vmexit_state_t \<times> hv_state \<Rightarrow>
    vmx_vmexit_state_t \<times> hv_state" where
  "X_RWBK_vmexit l st = (case l of (addr, get, upd) \<Rightarrow> case st of (v, s) \<Rightarrow>
     (v\<lparr>msrs := upd (rdmsr s addr) (msrs v)\<rparr>, wrmsr addr (get (vmx_msr_host_backup s)) s))"

definition vmx_msr_vmexit :: "vmx_vmexit_state_t \<Rightarrow> hv_state \<Rightarrow> (vmx_vmexit_state_t \<times> hv_state) res" where
  "vmx_msr_vmexit v s = bnd (fold (\<lambda>l st. bnd st (X_VMCS_vmexit l)) VMX_MSR_LIST_VMCS (Inr (v, s)))
     (\<lambda>st. Inr (fold X_RWBK_vmexit VMX_MSR_LIST_RWBK st))"

definition X_VMCS_vmresume :: "vmx_vmexit_state_t \<Rightarrow> u32 \<times> u64 \<times> msr_field \<Rightarrow> hv_state \<Rightarrow> hv_state res" where
  "X_VMCS_vmresume v l s = (case l of (addr, field, get, upd) \<Rightarrow> vmx_vmwrite field (get (msrs v)) s)"

definition X_RWBK_vmresume :: "vmx_vmexit_state_t \<Rightarrow> u32 \<times> msr_field \<Rightarrow> hv_state \<Rightarrow> hv_state" where
  "X_RWBK_vmresume v l s = (case l of (addr, get, upd) \<Rightarrow>
     wrmsr addr (get (msrs v)) (s\<lparr>vmx_msr_host_backup := upd (rdmsr s addr) (vmx_msr_host_backup s)\<rparr>))"

definition vmx_msr_vmresume :: "vmx_vmexit_state_t \<Rightarrow> hv_state \<Rightarrow> hv_state res" where
  "vmx_msr_vmresume v s = bnd (fold (\<lambda>l s. bnd s (X_VMCS_vmresume v l)) VMX_MSR_LIST_VMCS (Inr s))
     (\<lambda>s. Inr (fold (X_RWBK_vmresume v) VMX_MSR_LIST_RWBK s))"

lemmas msr_switch_defs = vmx_msr_vmexit_def vmx_msr_vmresume_def vmx_msr_vmlaunch_def
  X_VMCS_vmexit_def X_RWBK_vmexit_def X_VMCS_vmresume_def X_RWBK_vmresume_def X_RWBK_vmlaunch_def
  VMX_MSR_LIST_VMCS_def VMX_MSR_LIST_RWBK_def rdmsr_def wrmsr_def

text \<open>The values of the backup that the list covers.\<close>

definition host_msrs :: "vmx_msr_state_t \<Rightarrow> (u32 \<rightharpoonup> u64)" where
  "host_msrs b = map_of (map (\<lambda>(addr, get, upd). (addr, get b)) VMX_MSR_LIST_RWBK)"

definition vmcs_access_ok :: "hv_state \<Rightarrow> bool" where
  "vmcs_access_ok s \<longleftrightarrow> (\<forall>(addr, field, f) \<in> set VMX_MSR_LIST_VMCS.
     cpu_vmx_error (cpu s) Vmread field = 0 \<and> cpu_vmx_error (cpu s) Vmwrite field = 0)"

lemma vmx_msr_vmexit_ok:
  assumes "vmcs_access_ok s"
  obtains v' s' where "vmx_msr_vmexit v s = Inr (v', s')"
proof -
  have "\<exists>r. vmx_msr_vmexit v s = Inr r"
    using assms by (simp add: msr_switch_defs vmcs_access_ok_def vmx_vmread_def VMX_ASSERT_def)
  with that show ?thesis by auto
qed

lemma vmx_msr_vmexit_state:
  assumes "vmx_msr_vmexit v s = Inr (v', s')"
  shows "s' = s\<lparr>cpu := (cpu s)\<lparr>cpu_msr := \<lambda>a. case host_msrs (vmx_msr_host_backup s) a of
      Some x \<Rightarrow> x | None \<Rightarrow> cpu_msr (cpu s) a\<rparr>\<rparr>"
    and "v' = v\<lparr>msrs := \<lparr>ia32_efer = cpu_vmcs (cpu s) (cpu_current_vmcs (cpu s)) VMCS_GUEST_IA32_EFER,
      ia32_fs_base = cpu_vmcs (cpu s) (cpu_current_vmcs (cpu s)) VMCS_GUEST_FS_BASE,
      ia32_gs_base = cpu_vmcs (cpu s) (cpu_current_vmcs (cpu s)) VMCS_GUEST_GS_BASE,
      ia32_misc_enable = cpu_msr (cpu s) IA32_MISC_ENABLE,
      ia32_bios_sign_id = cpu_msr (cpu s) IA32_BIOS_SIGN_ID,
      ia32_xss = cpu_msr (cpu s) IA32_XSS,
      ia32_kernel_gs_base = cpu_msr (cpu s) IA32_KERNEL_GS_BASE\<rparr>\<rparr>"
proof -
  have upd: "f(IA32_MISC_ENABLE := a, IA32_BIOS_SIGN_ID := b, IA32_XSS := c, IA32_KERNEL_GS_BASE := d)
    = (\<lambda>x. if x = IA32_MISC_ENABLE then a else if x = IA32_BIOS_SIGN_ID then b
         else if x = IA32_XSS then c else if x = IA32_KERNEL_GS_BASE then d else f x)" for f :: "u32 \<Rightarrow> u64" and a b c d
    by (auto simp: fun_eq_iff hv_const)
  show "s' = s\<lparr>cpu := (cpu s)\<lparr>cpu_msr := \<lambda>a. case host_msrs (vmx_msr_host_backup s) a of
      Some x \<Rightarrow> x | None \<Rightarrow> cpu_msr (cpu s) a\<rparr>\<rparr>"
    using assms by (auto simp: msr_switch_defs vmx_vmread_def host_msrs_def upd bnd_Inr_iff
      intro!: hv_state.equality cpu_t.equality ext)
  show "v' = v\<lparr>msrs := \<lparr>ia32_efer = cpu_vmcs (cpu s) (cpu_current_vmcs (cpu s)) VMCS_GUEST_IA32_EFER,
      ia32_fs_base = cpu_vmcs (cpu s) (cpu_current_vmcs (cpu s)) VMCS_GUEST_FS_BASE,
      ia32_gs_base = cpu_vmcs (cpu s) (cpu_current_vmcs (cpu s)) VMCS_GUEST_GS_BASE,
      ia32_misc_enable = cpu_msr (cpu s) IA32_MISC_ENABLE,
      ia32_bios_sign_id = cpu_msr (cpu s) IA32_BIOS_SIGN_ID,
      ia32_xss = cpu_msr (cpu s) IA32_XSS,
      ia32_kernel_gs_base = cpu_msr (cpu s) IA32_KERNEL_GS_BASE\<rparr>\<rparr>"
    using assms by (auto simp: msr_switch_defs vmx_vmread_def bnd_Inr_iff hv_const)
qed

text \<open>
  Between the exit and the resumption the handler may change anything but the MSRs, their backup and
  the saved MSRs of the guest.
\<close>

lemma vmx_msr_roundtrip:
  assumes "vmx_msr_vmexit v s = Inr (v1, s1)" "vmx_msr_vmresume v2 s2 = Inr s3"
    and "msrs v2 = msrs v1" "cpu_msr (cpu s2) = cpu_msr (cpu s1)"
      "vmx_msr_host_backup s2 = vmx_msr_host_backup s1"
  shows "cpu_msr (cpu s3) = cpu_msr (cpu s)" and "vmx_msr_host_backup s3 = vmx_msr_host_backup s"
    and "cpu_vmcs (cpu s3) (cpu_current_vmcs (cpu s2)) =
      (cpu_vmcs (cpu s2) (cpu_current_vmcs (cpu s2)))
        (VMCS_GUEST_IA32_EFER := ia32_efer (msrs v1), VMCS_GUEST_FS_BASE := ia32_fs_base (msrs v1),
         VMCS_GUEST_GS_BASE := ia32_gs_base (msrs v1))"
proof -
  note st = vmx_msr_vmexit_state [OF assms(1)]
  show "cpu_msr (cpu s3) = cpu_msr (cpu s)"
    using assms(2) by (auto simp: msr_switch_defs vmx_vmwrite_def bnd_Inr_iff Let_def assms(3,4,5) st(1)
      host_msrs_def st(2) fun_eq_iff hv_const split: option.splits)
  show "vmx_msr_host_backup s3 = vmx_msr_host_backup s"
    using assms(2) by (auto simp: msr_switch_defs vmx_vmwrite_def bnd_Inr_iff Let_def assms(3,4,5) st(1)
      host_msrs_def st(2) hv_const)
  show "cpu_vmcs (cpu s3) (cpu_current_vmcs (cpu s2)) =
      (cpu_vmcs (cpu s2) (cpu_current_vmcs (cpu s2)))
        (VMCS_GUEST_IA32_EFER := ia32_efer (msrs v1), VMCS_GUEST_FS_BASE := ia32_fs_base (msrs v1),
         VMCS_GUEST_GS_BASE := ia32_gs_base (msrs v1))"
    using assms(2) by (auto simp: msr_switch_defs vmx_vmwrite_def bnd_Inr_iff Let_def assms(3))
qed

lemma vmx_msr_vmresume_returns:
  assumes "\<And>f. cpu_vmx_error (cpu s) Vmwrite f = 0"
  shows "\<exists>s'. vmx_msr_vmresume v s = Inr s'"
proof -
  have "\<exists>t. fold (\<lambda>l s. bnd s (X_VMCS_vmresume v l)) ls (Inr s) = Inr t" if "\<And>f. cpu_vmx_error (cpu s) Vmwrite f = 0" for ls s
    using that
  proof (induction ls arbitrary: s)
    case Nil
    then show ?case by simp
  next
    case (Cons l ls)
    have "\<exists>t. X_VMCS_vmresume v l s = Inr t \<and> cpu_vmx_error (cpu t) = cpu_vmx_error (cpu s)"
      using Cons.prems by (simp add: X_VMCS_vmresume_def vmx_vmwrite_def VMX_ASSERT_def Let_def split: prod.split)
    with Cons show ?case by auto
  qed
  from this [OF assms, of VMX_MSR_LIST_VMCS] show ?thesis by (auto simp: vmx_msr_vmresume_def)
qed

end
