(* ===== verification/Vmx_Pages.thy ===== *)
theory Vmx_Pages
  imports Arena Vmx_Msr
begin

text \<open>
  The pages of the virtualization components: hv/src/memory\_management/vmm\_vmx\_pages.c and
  \<open>vm_manager_get_free_guest_physical_page\<close> of vmm\_vm\_manager.c.  A pointer into the identity map
  is represented by the physical address it stands for.
\<close>

definition vmx_get_vmcs_revision_identifier :: "hv_state \<Rightarrow> u64" where
  "vmx_get_vmcs_revision_identifier s = ucast (ucast (rdmsr s IA32_VMX_BASIC AND 0x7fffffff) :: u32)"

definition vmx_get_vmxon_region :: "hv_state \<Rightarrow> (u64 \<times> hv_state) res" where
  "vmx_get_vmxon_region s =
     (if vmxon_region_valid s then Inr (vmxon_region s, s)
      else bnd (mm_get_free_page s) (\<lambda>(page, s).
        let s = s\<lparr>vmxon_region := page, vmxon_region_valid := True\<rparr>
        in Inr (page, s\<lparr>phys := write_le 4 (phys s) page (vmx_get_vmcs_revision_identifier s)\<rparr>)))"

definition vmx_get_msr_bitmaps_page :: "hv_state \<Rightarrow> (u64 \<times> hv_state) res" where
  "vmx_get_msr_bitmaps_page s =
     (if msr_bitmaps_page_valid s then Inr (msr_bitmaps_page s, s)
      else bnd (mm_get_free_page s) (\<lambda>(page, s).
        let s = s\<lparr>msr_bitmaps_page := page, msr_bitmaps_page_valid := True\<rparr>
        in Inr (page, s\<lparr>phys := vmx_msr_init_bitmaps page (phys s)\<rparr>)))"

definition vmx_get_free_vmcs_region :: "hv_state \<Rightarrow> (u64 \<times> hv_state) res" where
  "vmx_get_free_vmcs_region s = bnd (mm_get_free_page s) (\<lambda>(page, s).
     Inr (page, s\<lparr>phys := write_le 4 (phys s) page (vmx_get_vmcs_revision_identifier s)\<rparr>))"

definition vmx_get_free_ept_page :: "hv_state \<Rightarrow> (u64 \<times> hv_state) res" where
  "vmx_get_free_ept_page s = bnd (mm_get_free_page s) (\<lambda>(page, s).
     Inr (page, s\<lparr>phys := memset page 0 (unat PAGE_SIZE) (phys s)\<rparr>))"

definition vm_manager_get_free_guest_physical_page :: "hv_state \<Rightarrow> (u64 \<times> hv_state) res" where
  "vm_manager_get_free_guest_physical_page s = bnd (mm_get_free_page s) (\<lambda>(page, s).
     Inr (page, s\<lparr>phys := memset page 0 (unat PAGE_SIZE) (phys s)\<rparr>))"

section \<open>A search that follows another one\<close>

text \<open>
  The search starts at the position it last returned, so a page that its caller has not made
  visible to the \<open>mm_page_used_by_x\<close> callbacks is returned again.
\<close>

lemma mm_search_first:
  "mmap_at c r = Inr d \<Longrightarrow> is_free (mm_page_at d p) = Inr True \<Longrightarrow> r \<noteq> -1 \<Longrightarrow>
   mm_search is_free c r p (-1) (-1) = Some (Inr (mm_page_at d p, r, p))"
  by (subst mm_search.simps) simp

lemma mm_page_is_free_cong:
  assumes "mm_chainload_page s' = mm_chainload_page s" "arena_head s' = arena_head s"
    "arena_heap s' = arena_heap s" "arena_sub_heap s' = arena_sub_heap s"
    "vmxon_region_valid s' = vmxon_region_valid s" "vmxon_region s' = vmxon_region s"
    "msr_bitmaps_page_valid s' = msr_bitmaps_page_valid s" "msr_bitmaps_page s' = msr_bitmaps_page s"
    "vm_manager_vm_list s' = vm_manager_vm_list s"
  shows "mm_page_is_free s' = mm_page_is_free s"
proof -
  have "mm_page_used_by_chainload s' = mm_page_used_by_chainload s"
    "mm_page_used_by_arena s' = mm_page_used_by_arena s" "mm_page_used_by_vmx s' = mm_page_used_by_vmx s"
    "mm_page_used_by_vm_manager s' = mm_page_used_by_vm_manager s"
    by (simp_all add: fun_eq_iff mm_page_used_by_chainload_def mm_page_used_by_arena_def
      mm_page_used_by_vmx_def mm_page_used_by_vm_manager_def assms)
  then show ?thesis by (intro ext) (simp only: mm_page_is_free_def)
qed

lemma mm_get_free_page_again:
  assumes "mm_get_free_page s = Inr (a, s1)" "mm_position_ok s"
    and "mm_page_is_free s2 = mm_page_is_free s1" "mm_chainload_page s2 = mm_chainload_page s1"
    "last_returned_region_index s2 = last_returned_region_index s1"
    "last_returned_page_index s2 = last_returned_page_index s1"
  shows "mm_get_free_page s2 = Inr (a, s2)"
proof -
  obtain r p where rp: "mm_valid (efi_mmap_usable (mm_chainload_page s)) r p"
    "a = mm_page_at (efi_mmap_usable (mm_chainload_page s) ! unat r) p" "mm_page_is_free s a = Inr True"
    and s1: "s1 = s\<lparr>last_returned_region_index := r, last_returned_page_index := p\<rparr>"
    by (rule mm_get_free_pageE [OF assms(1,2)])
  have neq: "r \<noteq> -1" "p \<noteq> -1" using mm_valid_neq [OF rp(1)] by auto
  have "mm_page_is_free s1 = mm_page_is_free s" by (rule mm_page_is_free_cong) (simp_all add: s1)
  then have free: "mm_page_is_free s2 a = Inr True" using assms(3) rp(3) by simp
  have at: "mmap_at (efi_mmap_usable (mm_chainload_page s)) r =
      Inr (efi_mmap_usable (mm_chainload_page s) ! unat r)"
    using rp(1) by (simp add: mmap_at_def mm_valid_def)
  have "mm_search (mm_page_is_free s2) (efi_mmap_usable (mm_chainload_page s)) r p (-1) (-1)
      = Some (Inr (a, r, p))"
    using mm_search_first [OF at, of "mm_page_is_free s2" p] free neq rp(2) by simp
  moreover have "s2\<lparr>last_returned_region_index := r, last_returned_page_index := p\<rparr> = s2"
    using assms(5,6) s1 by simp
  ultimately show ?thesis
    using neq assms(4-6) s1 by (simp add: mm_get_free_page_def mm_start_position_def)
qed

text \<open>Hence the bitmaps page that follows a fresh VMCS region is that very region.\<close>

lemma vmcs_region_reused:
  assumes "vmx_get_free_vmcs_region s = Inr (vmcs, s1)" "mm_position_ok s" "\<not> msr_bitmaps_page_valid s"
    and "mm_page_is_free s2 = mm_page_is_free s1" "mm_chainload_page s2 = mm_chainload_page s1"
    "last_returned_region_index s2 = last_returned_region_index s1"
    "last_returned_page_index s2 = last_returned_page_index s1"
    "msr_bitmaps_page_valid s2 = msr_bitmaps_page_valid s1"
  shows "\<exists>s3. vmx_get_msr_bitmaps_page s2 = Inr (vmcs, s3) \<and>
     phys s3 = vmx_msr_init_bitmaps vmcs (phys s2)"
proof -
  obtain s0 where s0: "mm_get_free_page s = Inr (vmcs, s0)"
    "s1 = s0\<lparr>phys := write_le 4 (phys s0) vmcs (vmx_get_vmcs_revision_identifier s0)\<rparr>"
    using assms(1) by (auto simp: vmx_get_free_vmcs_region_def bnd_Inr_iff)
  have "mm_page_is_free s1 = mm_page_is_free s0" by (rule mm_page_is_free_cong) (simp_all add: s0)
  then have g: "mm_get_free_page s2 = Inr (vmcs, s2)"
    by (intro mm_get_free_page_again [OF s0(1) assms(2)]) (simp_all add: assms s0(2))
  have "msr_bitmaps_page_valid s0 = msr_bitmaps_page_valid s"
    by (rule mm_get_free_pageE [OF s0(1) assms(2)]) simp
  then have "\<not> msr_bitmaps_page_valid s2" using assms(3,8) s0(2) by simp
  with g show ?thesis by (simp add: vmx_get_msr_bitmaps_page_def Let_def)
qed

end
