(* ===== verification/Vm_Manager.thy ===== *)
theory Vm_Manager
  imports Vmx_Pages
begin

text \<open>
  hv/src/vmm/vm\_manager.c: the machines, the pages they own (\<open>vm_manager_track_page\<close> and
  \<open>vm_manager_untrack_page_from_reserved_pool\<close>), the current machine and the registration of devices.
  \<open>vm_manager_allocate_guest_physical_memory\<close> is in the theory Vm\_Memory.  The lists of page blocks
  are specified by multisets of pages: tracking adds one page to one of them, and untracking removes
  one page of the reserved pool, whatever blocks are merged, extended, drained or reused.
\<close>

section \<open>Machines\<close>

definition vmx_gpr_zero :: vmx_gpr_state_t where
  "vmx_gpr_zero = \<lparr>r15 = 0, r14 = 0, r13 = 0, r12 = 0, r11 = 0, r10 = 0, r9 = 0, r8 = 0, rdi = 0,
     rsi = 0, rbp = 0, rdx = 0, rcx = 0, rbx = 0, rax = 0\<rparr>"

definition vm_zero :: vm_t where
  "vm_zero = \<lparr>vm_name = '''', vm_flags = 0, vmcs_region = 0,
     vmcs_config = \<lparr>eptp = 0, guest_state = \<lparr>guest_rip = 0, guest_rsp = 0, guest_cr0 = 0, guest_cr3 = 0,
       guest_cr4 = 0, guest_ia32_efer = 0, guest_cs = 0, guest_ds = 0,
       guest_gdtr = \<lparr>gdtr_size = 0, gdtr_offset = 0\<rparr>, guest_idtr = \<lparr>idtr_size = 0, idtr_offset = 0\<rparr>\<rparr>\<rparr>,
     initial_gpr_state = vmx_gpr_zero,
     guest_physical_pages = 0, guest_physical_pages_used_by_initial_setup = 0, tracked_pages = [],
     vm_devices = 0, permanent_xcr0 = 0\<rparr>"

definition vm_manager_create_vmx_machine :: "string \<Rightarrow> hv_state \<Rightarrow> (u64 \<times> hv_state) res" where
  "vm_manager_create_vmx_machine name s =
     bnd (if vm_manager_arena s = 0
          then bnd (arena_create s) (\<lambda>(a, s). Inr (s\<lparr>vm_manager_arena := a\<rparr>))
          else Inr s)
       (\<lambda>s. bnd (arena_allocate (vm_manager_arena s) sizeof_vm_t s) (\<lambda>(result, s).
          Inr (result, s\<lparr>vm_manager_vm_list :=
            (result, vm_zero\<lparr>vm_name := name, permanent_xcr0 := 1\<rparr>) # vm_manager_vm_list s\<rparr>)))"

text \<open>\<open>Inr\<close> is the state in which the processor runs the guest: \<open>vmx_vmlaunch\<close> only returns on an error.\<close>

definition vm_manager_launch :: "u64 \<Rightarrow> hv_state \<Rightarrow> hv_state res" where
  "vm_manager_launch vp s =
     (let s = vmx_msr_vmlaunch s in
      bnd (get_vm s vp) (\<lambda>v.
      bnd (VMX_ASSERT s Vmptrld (vmcs_region v)) (\<lambda>_.
        let s = s\<lparr>cpu := (cpu s)\<lparr>cpu_current_vmcs := vmcs_region v\<rparr>, vm_manager_current_vm := vp\<rparr>
        in bnd (VMX_ASSERT s Vmlaunch 0) (\<lambda>_. Inr s))))"

definition vm_manager_get_current_vm :: "hv_state \<Rightarrow> u64 res" where
  "vm_manager_get_current_vm s =
     bnd (VMX_ASSERT s Vmptrst 0) (\<lambda>_.
       if vm_manager_current_vm s = 0
       then Inl (Panic ''vm_manager_current_vm and current VMCS pointer unsynced'')
       else bnd (get_vm s (vm_manager_current_vm s)) (\<lambda>v.
         if cpu_current_vmcs (cpu s) \<noteq> vmcs_region v
         then Inl (Panic ''vm_manager_current_vm and current VMCS pointer unsynced'')
         else Inr (vm_manager_current_vm s)))"

lemma vmx_msr_vmlaunch_frame [simp]:
  "get_vm (vmx_msr_vmlaunch s) = get_vm s" "cpu (vmx_msr_vmlaunch s) = cpu s"
  by (simp_all add: msr_switch_defs get_vm_def fun_eq_iff)

lemma vm_manager_launch_current:
  assumes "vm_manager_launch vp s = Inr s'" "vp \<noteq> 0" "cpu_vmx_error (cpu s) Vmptrst 0 = 0"
  shows "vm_manager_get_current_vm s' = Inr vp" "get_vm s' = get_vm s"
  using assms by (auto simp: vm_manager_launch_def vm_manager_get_current_vm_def VMX_ASSERT_def Let_def get_vm_def
    fun_eq_iff msr_switch_defs split: if_splits option.splits)

lemma vm_manager_launch_returns:
  assumes "get_vm s vp = Inr v" "cpu_vmx_error (cpu s) Vmptrld (vmcs_region v) = 0" "cpu_vmx_error (cpu s) Vmlaunch 0 = 0"
  shows "\<exists>s'. vm_manager_launch vp s = Inr s'"
  using assms by (simp add: vm_manager_launch_def Let_def VMX_ASSERT_def)

definition device_at :: "hv_state \<Rightarrow> u64 \<Rightarrow> vm_device_t res" where
  "device_at s d = (case dev_heap s d of None \<Rightarrow> Inl (Fault ''vm_device_t'') | Some x \<Rightarrow> Inr x)"

definition vm_manager_register_device :: "u64 \<Rightarrow> u64 \<Rightarrow> hv_state \<Rightarrow> hv_state res" where
  "vm_manager_register_device vp device s =
     bnd (get_vm s vp) (\<lambda>v. bnd (device_at s device) (\<lambda>d.
       if dev_next d \<noteq> 0 then Inl (Panic ''Registering a device that is probably already registered'')
       else Inr (put_vm vp (v\<lparr>vm_devices := device\<rparr>)
              (s\<lparr>dev_heap := (dev_heap s)(device \<mapsto> d\<lparr>dev_next := vm_devices v\<rparr>)\<rparr>))))"

section \<open>Tracked pages\<close>

text \<open>
  The loop of \<open>vm_manager_track_page\<close>: \<open>Some\<close> the changed list when the page is in a block of its kind
  or extends one, \<open>None\<close> when the loop ends without finding one.
\<close>

fun vm_track_existing :: "u64 \<Rightarrow> vm_page_type_t \<Rightarrow> bool \<Rightarrow> vm_page_list_t list \<Rightarrow> vm_page_list_t list option" where
  "vm_track_existing pa ty res [] = None"
| "vm_track_existing pa ty res (iter # rest) =
     (if pl_pages iter = 0 then map_option ((#) iter) (vm_track_existing pa ty res rest)
      else if pl_page_type iter \<noteq> ty \<or> pl_reserved_pool iter \<noteq> res
      then map_option ((#) iter) (vm_track_existing pa ty res rest)
      else
        (let first_page = pl_physical_address iter;
             last_page = first_page + (ucast (pl_pages iter) - 1) * PAGE_SIZE
         in if pa \<ge> first_page \<and> pa \<le> last_page then Some (iter # rest)
            else if pa + PAGE_SIZE = first_page
            then Some (iter\<lparr>pl_physical_address := pa, pl_pages := pl_pages iter + 1\<rparr> # rest)
            else if pa - PAGE_SIZE = last_page
            then Some (iter\<lparr>pl_pages := pl_pages iter + 1\<rparr> # rest)
            else map_option ((#) iter) (vm_track_existing pa ty res rest)))"

text \<open>The block the loop noted in \<open>new_list\<close>, the first empty one, is overwritten.\<close>

fun vm_track_reuse :: "vm_page_list_t \<Rightarrow> vm_page_list_t list \<Rightarrow> vm_page_list_t list option" where
  "vm_track_reuse n [] = None"
| "vm_track_reuse n (iter # rest) =
     (if pl_pages iter = 0 then Some (n # rest) else map_option ((#) iter) (vm_track_reuse n rest))"

definition vm_manager_track_page :: "u64 \<Rightarrow> u64 \<Rightarrow> vm_page_type_t \<Rightarrow> bool \<Rightarrow> hv_state \<Rightarrow> hv_state res" where
  "vm_manager_track_page vp pa ty res s = bnd (get_vm s vp) (\<lambda>v.
     case vm_track_existing pa ty res (tracked_pages v) of
       Some l \<Rightarrow> Inr (put_vm vp (v\<lparr>tracked_pages := l\<rparr>) s)
     | None \<Rightarrow>
       (let n = \<lparr>pl_physical_address = pa, pl_pages = 1, pl_page_type = ty, pl_reserved_pool = res\<rparr> in
        case vm_track_reuse n (tracked_pages v) of
          Some l \<Rightarrow> Inr (put_vm vp (v\<lparr>tracked_pages := l\<rparr>) s)
        | None \<Rightarrow> bnd (arena_allocate (vm_manager_arena s) sizeof_vm_page_list_t s) (\<lambda>(_, s).
            Inr (put_vm vp (v\<lparr>tracked_pages := n # tracked_pages v\<rparr>) s))))"

text \<open>\<open>None\<close> is the result \<open>false\<close>; \<open>Some\<close> gives \<open>*physical_address\<close> and the changed list.\<close>

fun vm_untrack_first :: "vm_page_type_t \<Rightarrow> vm_page_list_t list \<Rightarrow> (u64 \<times> vm_page_list_t list) option" where
  "vm_untrack_first ty [] = None"
| "vm_untrack_first ty (iter # rest) =
     (if pl_page_type iter \<noteq> ty \<or> \<not> pl_reserved_pool iter \<or> pl_pages iter = 0
      then map_option (\<lambda>(p, l). (p, iter # l)) (vm_untrack_first ty rest)
      else Some (pl_physical_address iter + (ucast (pl_pages iter) - 1) * PAGE_SIZE,
                 iter\<lparr>pl_pages := pl_pages iter - 1\<rparr> # rest))"

definition vm_manager_untrack_page_from_reserved_pool ::
    "u64 \<Rightarrow> vm_page_type_t \<Rightarrow> hv_state \<Rightarrow> (u64 option \<times> hv_state) res" where
  "vm_manager_untrack_page_from_reserved_pool vp ty s = bnd (get_vm s vp) (\<lambda>v.
     case vm_untrack_first ty (tracked_pages v) of
       None \<Rightarrow> Inr (None, s)
     | Some (p, l) \<Rightarrow> Inr (Some p, put_vm vp (v\<lparr>tracked_pages := l\<rparr>) s))"

definition vm_manager_track_ept_page :: "u64 \<Rightarrow> u64 \<Rightarrow> hv_state \<Rightarrow> hv_state res" where
  "vm_manager_track_ept_page vp ept_page = vm_manager_track_page vp ept_page VM_PAGE_TYPE_EPT False"

definition vm_manager_untrack_ept_page_from_reserved_pool ::
    "u64 \<Rightarrow> hv_state \<Rightarrow> (u64 option \<times> hv_state) res" where
  "vm_manager_untrack_ept_page_from_reserved_pool vp =
     vm_manager_untrack_page_from_reserved_pool vp VM_PAGE_TYPE_EPT"

section \<open>The pages of a block\<close>

definition pl_kind :: "vm_page_list_t \<Rightarrow> vm_page_type_t \<times> bool" where
  "pl_kind pl = (pl_page_type pl, pl_reserved_pool pl)"

definition block_pages :: "u64 \<Rightarrow> nat \<Rightarrow> u64 multiset" where
  "block_pages a n = mset (map (\<lambda>i. a + 4096 * of_nat i) [0..<n])"

definition pl_mset :: "vm_page_list_t \<Rightarrow> u64 multiset" where
  "pl_mset pl = block_pages (pl_physical_address pl) (unat (pl_pages pl))"

text \<open>The pages a list of blocks holds, of one kind and of all.\<close>

definition kind_mset :: "vm_page_type_t \<times> bool \<Rightarrow> vm_page_list_t list \<Rightarrow> u64 multiset" where
  "kind_mset k l = sum_list (map (\<lambda>pl. if pl_kind pl = k then pl_mset pl else {#}) l)"

definition pages_mset :: "vm_page_list_t list \<Rightarrow> u64 multiset" where
  "pages_mset l = sum_list (map pl_mset l)"

text \<open>A block lies within the physical address space.\<close>

definition pl_ok :: "vm_page_list_t \<Rightarrow> bool" where
  "pl_ok pl \<longleftrightarrow> phys_page (pl_physical_address pl) \<and>
     unat (pl_physical_address pl) + 4096 * unat (pl_pages pl) \<le> 4503599627370496"

lemma kind_mset_simps [simp]:
  "kind_mset k [] = {#}"
  "kind_mset k (pl # l) = (if pl_kind pl = k then pl_mset pl else {#}) + kind_mset k l"
  by (simp_all add: kind_mset_def)

lemma pages_mset_simps [simp]:
  "pages_mset [] = {#}" "pages_mset (pl # l) = pl_mset pl + pages_mset l"
  by (simp_all add: pages_mset_def)

lemma kind_mset_subset: "kind_mset k l \<subseteq># pages_mset l"
  by (induction l) (auto intro: subset_mset.add_mono subset_mset.add_increasing)

lemma kind_mset_disjoint:
  "k \<noteq> k' \<Longrightarrow> kind_mset k l + kind_mset k' l \<subseteq># pages_mset l"
proof (induction l)
  case Nil
  then show ?case by simp
next
  case (Cons pl l)
  let ?a = "if pl_kind pl = k then pl_mset pl else {#}" and ?b = "if pl_kind pl = k' then pl_mset pl else {#}"
  have "?a + ?b \<subseteq># pl_mset pl" using Cons.prems by auto
  with Cons have "(?a + ?b) + (kind_mset k l + kind_mset k' l) \<subseteq># pl_mset pl + pages_mset l"
    by (intro subset_mset.add_mono) simp_all
  then show ?case by (simp add: ac_simps)
qed

lemma pages_mset_kind: "p \<in># pages_mset l \<Longrightarrow> \<exists>k. p \<in># kind_mset k l"
proof (induction l)
  case Nil
  then show ?case by simp
next
  case (Cons pl l)
  show ?case
  proof (cases "p \<in># pl_mset pl")
    case True
    then show ?thesis by (intro exI [of _ "pl_kind pl"]) simp
  next
    case False
    with Cons obtain k where "p \<in># kind_mset k l" by auto
    then show ?thesis by (intro exI [of _ k]) simp
  qed
qed

lemma block_pages_0 [simp]: "block_pages a 0 = {#}"
  by (simp add: block_pages_def)

lemma block_pages_Suc: "block_pages a (Suc n) = add_mset (a + 4096 * of_nat n) (block_pages a n)"
  by (simp add: block_pages_def)

lemma block_pages_Suc_front: "block_pages a (Suc n) = add_mset a (block_pages (a + 4096) n)"
proof (induction n)
  case 0
  then show ?case by (simp add: block_pages_def)
next
  case (Suc n)
  then show ?case
    by (simp add: block_pages_Suc [of _ "Suc n"] block_pages_Suc [of "a + 4096"] algebra_simps)
qed

lemma block_page:
  assumes "phys_page a" "unat a + 4096 * n \<le> 4503599627370496" "i < n"
  shows "unat (a + 4096 * of_nat i) = unat a + 4096 * i" "phys_page (a + 4096 * of_nat i)"
proof -
  have i: "unat (of_nat i :: u64) = i" using assms(2,3) by (intro unat_of_nat_64) linarith
  have m: "unat (4096 * of_nat i :: u64) = 4096 * i"
    using assms(2,3) i by (subst unat_mult_64_no_wrap) simp_all
  show u: "unat (a + 4096 * of_nat i) = unat a + 4096 * i"
    using assms(2,3) m by (subst unat_plus_64_no_wrap) simp_all
  show "phys_page (a + 4096 * of_nat i)"
    using assms u by (auto simp: phys_page_def page_aligned_iff)
qed

lemma pl_mset_iff:
  assumes "pl_ok pl"
  shows "p \<in># pl_mset pl \<longleftrightarrow> page_aligned p \<and> unat (pl_physical_address pl) \<le> unat p \<and>
     unat p < unat (pl_physical_address pl) + 4096 * unat (pl_pages pl)"
proof -
  let ?a = "pl_physical_address pl" and ?n = "unat (pl_pages pl)"
  have ok: "phys_page ?a" "unat ?a + 4096 * ?n \<le> 4503599627370496" using assms by (simp_all add: pl_ok_def)
  have "p \<in># pl_mset pl \<longleftrightarrow> (\<exists>i < ?n. p = ?a + 4096 * of_nat i)"
    by (auto simp: pl_mset_def block_pages_def)
  also have "\<dots> \<longleftrightarrow> page_aligned p \<and> unat ?a \<le> unat p \<and> unat p < unat ?a + 4096 * ?n"
  proof
    assume "\<exists>i < ?n. p = ?a + 4096 * of_nat i"
    then obtain i where "i < ?n" "p = ?a + 4096 * of_nat i" by blast
    with block_page [OF ok] show "page_aligned p \<and> unat ?a \<le> unat p \<and> unat p < unat ?a + 4096 * ?n"
      by (auto intro: phys_page_aligned)
  next
    assume r: "page_aligned p \<and> unat ?a \<le> unat p \<and> unat p < unat ?a + 4096 * ?n"
    have "page_aligned ?a" using ok(1) by simp
    then obtain j k where jk: "unat ?a = 4096 * j" "unat p = 4096 * k"
      using r by (auto elim!: page_alignedE)
    have i: "k - j < ?n" using r jk by auto
    have "p = ?a + 4096 * of_nat (k - j)"
      by (rule word_unat_eqI) (use block_page(1) [OF ok i] jk r in auto)
    with i show "\<exists>i < ?n. p = ?a + 4096 * of_nat i" by blast
  qed
  finally show ?thesis .
qed

lemma pl_mset_phys_page: "pl_ok pl \<Longrightarrow> p \<in># pl_mset pl \<Longrightarrow> phys_page p"
  by (auto simp: pl_mset_iff phys_page_def pl_ok_def)

lemma pages_mset_phys_page: "\<forall>pl \<in> set l. pl_ok pl \<Longrightarrow> p \<in># pages_mset l \<Longrightarrow> phys_page p"
  by (induction l) (auto dest: pl_mset_phys_page)

lemma pages_56: "unat (ucast (w :: 56 word) :: u64) = unat w" "unat w < 72057594037927936"
proof -
  show lt: "unat w < 72057594037927936" using unsigned_less [of w] by simp
  then have "unat w < 2 ^ 64" by simp
  then show "unat (ucast w :: u64) = unat w"
    by (simp only: unsigned_ucast_eq len_num1 len_bit0 take_bit_nat_eq_self_iff) simp
qed

lemma unat_plus_one_56: "unat w + 1 < 72057594037927936 \<Longrightarrow> unat (w + 1 :: 56 word) = unat w + 1"
  by (simp add: unat_word_ariths)

lemma pl_last_page:
  assumes "pl_ok pl" "pl_pages pl \<noteq> 0"
  shows "unat (pl_physical_address pl + (ucast (pl_pages pl) - 1) * PAGE_SIZE) + 4096 =
     unat (pl_physical_address pl) + 4096 * unat (pl_pages pl)"
    and "pl_physical_address pl + (ucast (pl_pages pl) - 1) * PAGE_SIZE =
     pl_physical_address pl + 4096 * of_nat (unat (pl_pages pl) - 1)"
proof -
  let ?a = "pl_physical_address pl" and ?n = "unat (pl_pages pl)"
  have ok: "phys_page ?a" "unat ?a + 4096 * ?n \<le> 4503599627370496" using assms by (simp_all add: pl_ok_def)
  have pos: "0 < ?n" using assms(2) by (simp add: unat_gt_0)
  have "(ucast (pl_pages pl) :: u64) - 1 = of_nat (?n - 1)"
  proof (rule word_unat_eqI)
    have "(ucast (pl_pages pl) :: u64) \<noteq> 0" using pos pages_56(1) [of "pl_pages pl"] by (metis less_irrefl unsigned_0)
    then have "unat ((ucast (pl_pages pl) :: u64) - 1) = ?n - 1"
      by (simp add: unat_minus_one pages_56)
    moreover have "unat (of_nat (?n - 1) :: u64) = ?n - 1" using ok(2) by (intro unat_of_nat_64) linarith
    ultimately show "unat ((ucast (pl_pages pl) :: u64) - 1) = unat (of_nat (?n - 1) :: u64)" by simp
  qed
  then show l: "?a + (ucast (pl_pages pl) - 1) * PAGE_SIZE = ?a + 4096 * of_nat (?n - 1)"
    by (simp add: hv_const mult.commute)
  show "unat (?a + (ucast (pl_pages pl) - 1) * PAGE_SIZE) + 4096 = unat ?a + 4096 * ?n"
    unfolding l using block_page(1) [OF ok, of "?n - 1"] pos by simp
qed

text \<open>The code's range test is membership.\<close>

lemma pl_range_test:
  assumes "pl_ok pl" "pl_pages pl \<noteq> 0" "page_aligned p"
  shows "p \<ge> pl_physical_address pl \<and> p \<le> pl_physical_address pl + (ucast (pl_pages pl) - 1) * PAGE_SIZE
     \<longleftrightarrow> p \<in># pl_mset pl"
proof -
  have "unat (pl_physical_address pl) mod 4096 = 0" "unat p mod 4096 = 0"
    using assms(1,3) by (auto simp: pl_ok_def phys_page_def page_aligned_iff)
  then obtain j k where jk: "unat (pl_physical_address pl) = 4096 * j" "unat p = 4096 * k"
    by (auto simp: mod_eq_0_iff_dvd elim!: dvdE)
  have "4096 * k \<le> L \<longleftrightarrow> 4096 * k < 4096 * j + 4096 * n" if "L + 4096 = 4096 * j + 4096 * n" for L n :: nat
  proof -
    have "4096 * k \<le> L \<longleftrightarrow> 4096 * (k + 1) \<le> 4096 * (j + n)"
      unfolding distrib_left that [symmetric] by simp
    also have "\<dots> \<longleftrightarrow> 4096 * k < 4096 * (j + n)"
      unfolding mult_le_cancel1 mult_less_cancel1 by auto
    finally show ?thesis by (simp add: distrib_left)
  qed
  from this [OF pl_last_page(1) [OF assms(1,2), unfolded jk]] show ?thesis
    unfolding pl_mset_iff [OF assms(1)] word_le_nat_alt using assms(3) jk by simp
qed

lemma pl_in_block: "pl_ok pl \<Longrightarrow> p \<in># pl_mset pl \<Longrightarrow> page_in_block p (pl_physical_address pl) (ucast (pl_pages pl))"
proof -
  assume ok: "pl_ok pl" and p: "p \<in># pl_mset pl"
  then have "pl_pages pl \<noteq> 0" by (auto simp: pl_mset_def)
  with pl_range_test [OF ok this, of p] p ok show ?thesis
    by (simp add: page_in_block_def pl_mset_iff)
qed

section \<open>Tracking and untracking\<close>

lemma pl_extend_front:
  assumes "pl_ok pl" "pl_pages pl \<noteq> 0" "phys_page pa" "pa + PAGE_SIZE = pl_physical_address pl"
  shows "pl_ok (pl\<lparr>pl_physical_address := pa, pl_pages := pl_pages pl + 1\<rparr>)"
    and "pl_mset (pl\<lparr>pl_physical_address := pa, pl_pages := pl_pages pl + 1\<rparr>) = add_mset pa (pl_mset pl)"
proof -
  have n: "unat (pl_pages pl + 1) = unat (pl_pages pl) + 1"
    by (rule unat_plus_one_56) (use assms(1) in \<open>simp add: pl_ok_def\<close>)
  have "unat (pl_physical_address pl) = unat pa + 4096"
    unfolding assms(4) [symmetric] hv_const using assms(3)
    by (subst unat_plus_64_no_wrap) (simp_all add: phys_page_def)
  then show "pl_ok (pl\<lparr>pl_physical_address := pa, pl_pages := pl_pages pl + 1\<rparr>)"
    using assms(1,3) n by (simp add: pl_ok_def)
  show "pl_mset (pl\<lparr>pl_physical_address := pa, pl_pages := pl_pages pl + 1\<rparr>) = add_mset pa (pl_mset pl)"
    using assms(4) by (simp add: pl_mset_def n block_pages_Suc_front hv_const)
qed

lemma pl_extend_back:
  assumes "pl_ok pl" "pl_pages pl \<noteq> 0" "phys_page pa"
    and "pa - PAGE_SIZE = pl_physical_address pl + (ucast (pl_pages pl) - 1) * PAGE_SIZE"
  shows "pl_ok (pl\<lparr>pl_pages := pl_pages pl + 1\<rparr>)"
    and "pl_mset (pl\<lparr>pl_pages := pl_pages pl + 1\<rparr>) = add_mset pa (pl_mset pl)"
proof -
  let ?a = "pl_physical_address pl" and ?n = "unat (pl_pages pl)"
  have ok: "unat ?a + 4096 * ?n \<le> 4503599627370496" using assms(1) by (simp add: pl_ok_def)
  have n: "unat (pl_pages pl + 1) = ?n + 1" by (rule unat_plus_one_56) (use ok in linarith)
  have pos: "0 < ?n" using assms(2) by (simp add: unat_gt_0)
  have pa: "pa = ?a + 4096 * of_nat ?n"
  proof -
    have "pa = (?a + 4096 * of_nat (?n - 1)) + PAGE_SIZE"
      using assms(4) pl_last_page(2) [OF assms(1,2)] by (metis diff_add_cancel)
    also have "\<dots> = ?a + 4096 * (of_nat (?n - 1) + 1)" by (simp add: hv_const algebra_simps)
    also have "(of_nat (?n - 1) + 1 :: u64) = of_nat ?n" using pos by (cases ?n) simp_all
    finally show ?thesis .
  qed
  have "unat pa = unat ?a + 4096 * ?n"
  proof -
    have "unat pa = unat (pa - PAGE_SIZE) + 4096"
    proof -
      have "unat (pa - PAGE_SIZE) + 4096 < 18446744073709551616"
        unfolding assms(4) pl_last_page(1) [OF assms(1,2)] using ok by simp
      then have "unat ((pa - PAGE_SIZE) + PAGE_SIZE) = unat (pa - PAGE_SIZE) + 4096"
        by (subst unat_plus_64_no_wrap) (simp_all add: hv_const)
      then show ?thesis by simp
    qed
    then show ?thesis unfolding assms(4) pl_last_page(1) [OF assms(1,2)] .
  qed
  then have "unat ?a + 4096 * (?n + 1) \<le> 4503599627370496"
  proof -
    assume u: "unat pa = unat ?a + 4096 * ?n"
    obtain k where "unat pa = 4096 * k" using assms(3) page_alignedE [of pa] by blast
    moreover from this have "k < 1099511627776" using assms(3) by (simp add: phys_page_def)
    then have "4096 * k + 4096 \<le> 4503599627370496" by simp
    ultimately show ?thesis using u by simp
  qed
  then show "pl_ok (pl\<lparr>pl_pages := pl_pages pl + 1\<rparr>)"
    using assms(1) n by (simp add: pl_ok_def)
  show "pl_mset (pl\<lparr>pl_pages := pl_pages pl + 1\<rparr>) = add_mset pa (pl_mset pl)"
    using pa by (simp add: pl_mset_def n block_pages_Suc)
qed

text \<open>One page more of the kind \<open>k\<close>, the others untouched.\<close>

definition adds_page :: "vm_page_type_t \<times> bool \<Rightarrow> u64 \<Rightarrow> vm_page_list_t list \<Rightarrow> vm_page_list_t list \<Rightarrow> bool" where
  "adds_page k p l l' \<longleftrightarrow> (\<forall>pl \<in> set l'. pl_ok pl) \<and>
     (\<forall>k'. kind_mset k' l' = (if k' = k then add_mset p (kind_mset k' l) else kind_mset k' l)) \<and>
     pages_mset l' = add_mset p (pages_mset l)"

lemma adds_page_Cons: "pl_ok x \<Longrightarrow> adds_page k p l l' \<Longrightarrow> adds_page k p (x # l) (x # l')"
  by (simp add: adds_page_def)

lemma adds_page_head:
  assumes "\<forall>pl \<in> set l. pl_ok pl" "pl_ok x'" "pl_kind x = k \<or> pl_mset x = {#}" "pl_kind x' = k"
    "pl_mset x' = add_mset p (pl_mset x)"
  shows "adds_page k p (x # l) (x' # l)"
  using assms by (auto simp: adds_page_def)

lemma vm_track_existing_spec:
  assumes "vm_track_existing pa ty res l = Some l'" "\<forall>pl \<in> set l. pl_ok pl" "phys_page pa"
    and "pa \<notin># kind_mset (ty, res) l"
  shows "adds_page (ty, res) pa l l'"
  using assms
proof (induction l arbitrary: l')
  case Nil
  then show ?case by simp
next
  case (Cons x l)
  show ?case
  proof (cases "pl_pages x = 0 \<or> pl_page_type x \<noteq> ty \<or> pl_reserved_pool x \<noteq> res")
    case True
    with Cons.prems(1) obtain l1 where "vm_track_existing pa ty res l = Some l1" "l' = x # l1"
      by (auto split: if_splits)
    with Cons show ?thesis by (auto intro!: adds_page_Cons)
  next
    case False
    then have nz: "pl_pages x \<noteq> 0" and k: "pl_kind x = (ty, res)" by (auto simp: pl_kind_def)
    have ok: "pl_ok x" using Cons.prems(2) by simp
    have "pa \<notin># pl_mset x" using Cons.prems(4) k by auto
    then have out: "\<not> (pa \<ge> pl_physical_address x \<and>
        pa \<le> pl_physical_address x + (ucast (pl_pages x) - 1) * PAGE_SIZE)"
      using pl_range_test [OF ok nz, of pa] Cons.prems(3) by simp
    consider (front) "pa + PAGE_SIZE = pl_physical_address x"
        "l' = x\<lparr>pl_physical_address := pa, pl_pages := pl_pages x + 1\<rparr> # l"
      | (after) "pa - PAGE_SIZE = pl_physical_address x + (ucast (pl_pages x) - 1) * PAGE_SIZE"
        "l' = x\<lparr>pl_pages := pl_pages x + 1\<rparr> # l"
      | (rest) l1 where "vm_track_existing pa ty res l = Some l1" "l' = x # l1"
      using Cons.prems(1) False out by (auto simp: Let_def split: if_splits)
    then show ?thesis
    proof cases
      case front
      with pl_extend_front [OF ok nz Cons.prems(3)] Cons.prems(2) k show ?thesis
        by (auto intro!: adds_page_head simp: pl_kind_def)
    next
      case after
      with pl_extend_back [OF ok nz Cons.prems(3)] Cons.prems(2) k show ?thesis
        by (auto intro!: adds_page_head simp: pl_kind_def)
    next
      case rest
      with Cons k show ?thesis by (auto intro!: adds_page_Cons)
    qed
  qed
qed

lemma pl_single:
  assumes "phys_page pa" "pl_physical_address n = pa" "pl_pages n = 1"
  shows "pl_ok n" "pl_mset n = {#pa#}"
proof -
  show "pl_ok n" using assms by (auto simp: pl_ok_def phys_page_def page_aligned_iff)
  show "pl_mset n = {#pa#}" using assms by (simp add: pl_mset_def block_pages_def)
qed

lemma vm_track_reuse_spec:
  assumes "vm_track_reuse n l = Some l'" "\<forall>pl \<in> set l. pl_ok pl" "phys_page pa"
    and "pl_physical_address n = pa" "pl_pages n = 1" "pl_kind n = k"
  shows "adds_page k pa l l'"
  using assms(1,2)
proof (induction l arbitrary: l')
  case Nil
  then show ?case by simp
next
  case (Cons x l)
  show ?case
  proof (cases "pl_pages x = 0")
    case True
    with Cons.prems(1) have "l' = n # l" by simp
    moreover have "pl_mset x = {#}" using True by (simp add: pl_mset_def)
    ultimately show ?thesis
      using pl_single [OF assms(3-5)] assms(6) Cons.prems(2) by (auto intro!: adds_page_head)
  next
    case False
    with Cons.prems(1) obtain l1 where "vm_track_reuse n l = Some l1" "l' = x # l1" by auto
    with Cons show ?thesis by (auto intro!: adds_page_Cons)
  qed
qed

lemma vm_untrack_first_spec:
  assumes "\<forall>pl \<in> set l. pl_ok pl"
  shows "case vm_untrack_first ty l of
      None \<Rightarrow> kind_mset (ty, True) l = {#}
    | Some (p, l') \<Rightarrow> adds_page (ty, True) p l' l \<and> (\<forall>pl \<in> set l'. pl_ok pl)"
  using assms
proof (induction l)
  case Nil
  then show ?case by simp
next
  case (Cons x l)
  show ?case
  proof (cases "pl_page_type x \<noteq> ty \<or> \<not> pl_reserved_pool x \<or> pl_pages x = 0")
    case True
    then have x: "pl_kind x = (ty, True) \<Longrightarrow> pl_mset x = {#}" by (auto simp: pl_kind_def pl_mset_def)
    from True Cons x show ?thesis
      by (auto split: option.splits intro!: adds_page_Cons)
  next
    case False
    then have nz: "pl_pages x \<noteq> 0" and k: "pl_kind x = (ty, True)" by (auto simp: pl_kind_def)
    have ok: "pl_ok x" using Cons.prems by simp
    obtain n where n: "unat (pl_pages x) = Suc n" using nz by (metis not0_implies_Suc unat_eq_0)
    have n1: "unat (pl_pages x - 1) = n" using n unat_minus_one [OF nz] by simp
    have last: "pl_physical_address x + (ucast (pl_pages x) - 1) * PAGE_SIZE =
        pl_physical_address x + 4096 * of_nat n"
      using pl_last_page(2) [OF ok nz] n by simp
    have "pl_mset x = add_mset (pl_physical_address x + 4096 * of_nat n)
        (pl_mset (x\<lparr>pl_pages := pl_pages x - 1\<rparr>))"
      by (simp add: pl_mset_def n n1 block_pages_Suc)
    moreover have "pl_ok (x\<lparr>pl_pages := pl_pages x - 1\<rparr>)"
      using ok n n1 by (simp add: pl_ok_def)
    ultimately show ?thesis
      using False k last Cons.prems ok by (auto intro!: adds_page_head simp: pl_kind_def)
  qed
qed

end
