(* ===== verification/Page_Ownership.thy ===== *)
theory Page_Ownership
  imports Vm_Manager
begin

text \<open>
  Who owns a physical page.  The arenas, the VMXON region, the MSR bitmaps and the pages of the
  machines own pages; the invariant \<open>hv_inv\<close> says that no page has two owners, that none of them
  belongs to the image the bootloader left, and that the blocks of tracked pages are well formed.
  Every operation that takes a page keeps it, because \<open>mm_get_free_page\<close> never returns an owned page.
  The locale \<open>page_provider\<close> is the interface of such an operation.
\<close>

section \<open>The owners\<close>

definition vm_owned :: "vm_t \<Rightarrow> u64 multiset" where
  "vm_owned v = (if vm_flags v AND VM_T_FLAG_VMCS_INITIALIZED \<noteq> 0 then {#vmcs_region v#} else {#}) +
     pages_mset (tracked_pages v)"

definition owned :: "hv_state \<Rightarrow> u64 list \<Rightarrow> u64 multiset" where
  "owned s as = mset (map V2P_IDENTITY_MAP as) +
     (if vmxon_region_valid s then {#vmxon_region s#} else {#}) +
     (if msr_bitmaps_page_valid s then {#msr_bitmaps_page s#} else {#}) +
     sum_list (map (\<lambda>(vp, v). vm_owned v) (vm_manager_vm_list s))"

definition vms_ok :: "hv_state \<Rightarrow> u64 list \<Rightarrow> bool" where
  "vms_ok s as \<longleftrightarrow> distinct (map fst (vm_manager_vm_list s)) \<and>
     (\<forall>(vp, v) \<in> set (vm_manager_vm_list s).
        (\<forall>pl \<in> set (tracked_pages v). pl_ok pl) \<and>
        vm_manager_arena s \<in> set as \<and> unat (vp - vm_manager_arena s) < arena_end s (vm_manager_arena s)) \<and>
     (vm_manager_arena s \<noteq> 0 \<longrightarrow> vm_manager_arena s \<in> set as)"

definition hv_inv :: "hv_state \<Rightarrow> u64 list \<Rightarrow> bool" where
  "hv_inv s as \<longleftrightarrow> mm_ok s as \<and> vms_ok s as \<and>
     (\<forall>p. count (owned s as) p \<le> 1) \<and>
     (\<forall>p \<in># owned s as. phys_page p \<and> \<not> mm_page_used_by_chainload s p)"

lemma vm_owned_in_use:
  assumes "p \<in># vm_owned v" "\<forall>pl \<in> set (tracked_pages v). pl_ok pl"
  shows "mm_page_used_by_vm v p"
proof -
  have ex: "\<exists>pl \<in> set l. p \<in># pl_mset pl" if "p \<in># pages_mset l" for l
    using that by (induction l) auto
  consider (vmcs) "vm_flags v AND VM_T_FLAG_VMCS_INITIALIZED \<noteq> 0" "p = vmcs_region v"
    | (pages) "p \<in># pages_mset (tracked_pages v)"
    using assms(1) by (auto simp: vm_owned_def split: if_splits)
  then show ?thesis
  proof cases
    case vmcs
    then show ?thesis by (simp add: mm_page_used_by_vm_def)
  next
    case pages
    then obtain pl where pl: "pl \<in> set (tracked_pages v)" "p \<in># pl_mset pl" using ex by blast
    then have "page_in_block p (pl_physical_address pl) (ucast (pl_pages pl))"
      using assms(2) by (intro pl_in_block) auto
    with pl(1) show ?thesis by (auto simp: mm_page_used_by_vm_def list_ex_iff)
  qed
qed

lemma in_sum_list_mset: "p \<in># sum_list (map f l) \<longleftrightarrow> (\<exists>x \<in> set l. p \<in># f x)"
  by (induction l) auto

lemma owned_in_use:
  assumes "hv_inv s as" "p \<in># owned s as"
  shows "page_in_use s as p"
proof -
  have p: "phys_page p" using assms by (simp add: hv_inv_def)
  have vm: "mm_page_used_by_vm_manager s p"
    if "(vp, v) \<in> set (vm_manager_vm_list s)" "p \<in># vm_owned v" for vp v
  proof -
    have "\<forall>pl \<in> set (tracked_pages v). pl_ok pl"
      using assms(1) that(1) by (auto simp: hv_inv_def vms_ok_def)
    with vm_owned_in_use [OF that(2)] that(1) show ?thesis
      by (auto simp: mm_page_used_by_vm_manager_def list_ex_iff)
  qed
  have "p AND PAGE_MASK = p" using p by (simp add: hv_const)
  with assms(2) vm show ?thesis
    by (auto simp: owned_def page_in_use_def mm_page_used_by_vmx_def V2P_eq_iff in_sum_list_mset
      split: if_splits)
qed

text \<open>A page that the search returns has no owner.\<close>

lemma mm_get_free_page_unowned:
  assumes "mm_get_free_page s = Inr (p, s')" "hv_inv s as"
  obtains r i where "s' = s\<lparr>last_returned_region_index := r, last_returned_page_index := i\<rparr>"
    "phys_page p" "p \<notin># owned s as" "\<not> mm_page_used_by_chainload s p" "hv_inv s' as"
proof -
  have ok: "mm_ok s as" using assms(2) by (simp add: hv_inv_def)
  obtain r i where s': "s' = s\<lparr>last_returned_region_index := r, last_returned_page_index := i\<rparr>"
    and p: "phys_page p" "\<not> page_in_use s as p" and ok': "mm_ok s' as"
    by (rule mm_get_free_page_okE [OF assms(1) ok])
  have "owned s' as = owned s as" by (simp add: s' owned_def)
  moreover have "vms_ok s' as = vms_ok s as" by (simp add: s' vms_ok_def arena_end_def)
  moreover have "mm_page_used_by_chainload s' = mm_page_used_by_chainload s"
    by (simp add: s' fun_eq_iff mm_page_used_by_chainload_def)
  ultimately have "hv_inv s' as" using ok' assms(2) by (simp add: hv_inv_def)
  with that s' p owned_in_use [OF assms(2)] show ?thesis by (auto simp: page_in_use_def)
qed

lemma fresh_page_facts:
  assumes "mm_get_free_page s = Inr (p, s')" "hv_inv s as"
  shows "phys_page p" "p \<notin># owned s as" "\<not> mm_page_used_by_chainload s p" "hv_inv s' as"
  by (rule mm_get_free_page_unowned [OF assms], simp)+

section \<open>Changing one machine\<close>

lemma sum_list_put:
  fixes f :: "vm_t \<Rightarrow> u64 multiset"
  assumes "distinct (map fst l)" "map_of l vp = Some v"
  shows "sum_list (map (\<lambda>(p, w). f w) (map (\<lambda>(p, w). (p, if p = vp then v' else w)) l)) + f v =
     sum_list (map (\<lambda>(p, w). f w) l) + f v'"
  using assms
proof (induction l)
  case Nil
  then show ?case by simp
next
  case (Cons x l)
  obtain p w where x: "x = (p, w)" by (cases x)
  show ?case
  proof (cases "p = vp")
    case True
    with Cons.prems x have "w = v" "vp \<notin> fst ` set l" by auto
    moreover from this have "map (\<lambda>(p, w). (p, if p = vp then v' else w)) l = l"
      by (intro map_idI) (force simp: image_iff)
    ultimately show ?thesis using True x by (simp add: ac_simps)
  next
    case False
    with Cons x show ?thesis by (auto simp: ac_simps)
  qed
qed

lemma get_vm_map_of: "get_vm s vp = Inr v \<longleftrightarrow> map_of (vm_manager_vm_list s) vp = Some v"
  by (simp add: get_vm_def split: option.splits)

lemma get_vm_in_set: "get_vm s vp = Inr v \<Longrightarrow> (vp, v) \<in> set (vm_manager_vm_list s)"
  by (simp add: get_vm_map_of map_of_SomeD)

lemma owned_put_vm:
  assumes "vms_ok s as" "get_vm s vp = Inr v"
  shows "owned (put_vm vp v' s) as + vm_owned v = owned s as + vm_owned v'"
  using sum_list_put [of "vm_manager_vm_list s" vp v vm_owned v'] assms
  by (simp add: owned_def vms_ok_def get_vm_map_of) (simp add: put_vm_def ac_simps)

definition arena_grows :: "hv_state \<Rightarrow> (u64 \<rightharpoonup> arena_header_t) \<Rightarrow> u64 list \<Rightarrow> bool" where
  "arena_grows s h as \<longleftrightarrow> arena_ok (s\<lparr>arena_heap := h\<rparr>) as \<and>
     (\<forall>a. arena_end s a \<le> arena_end (s\<lparr>arena_heap := h\<rparr>) a)"

lemma arena_grows_refl: "hv_inv s as \<Longrightarrow> arena_grows s (arena_heap s) as"
  by (simp add: arena_grows_def hv_inv_def mm_ok_def)

lemma arena_allocate_grows:
  assumes "arena_ok s as" "a \<in> set as" "arena_allocate a sz s = Inr (q, s')"
  obtains h where "s' = s\<lparr>arena_heap := h\<rparr>" "arena_grows s h as"
    "q = a + of_nat (arena_end s a)" "arena_end s a + unat sz \<le> 4096"
    "arena_end s' a = arena_end s a + unat sz" "\<And>b. b \<noteq> a \<Longrightarrow> h b = arena_heap s b"
proof -
  from arena_allocate_spec [OF assms(1,2), of sz] assms(3) have fits: "arena_end s a + unat sz \<le> 4096"
    by (auto split: if_splits)
  with arena_allocate_spec [OF assms(1,2), of sz] assms(3) obtain h where
    h: "q = a + of_nat (arena_end s a)" "s' = s\<lparr>arena_heap := h\<rparr>" "arena_ok (s\<lparr>arena_heap := h\<rparr>) as"
      "arena_end (s\<lparr>arena_heap := h\<rparr>) a = arena_end s a + unat sz" "\<forall>b. b \<noteq> a \<longrightarrow> h b = arena_heap s b"
    by auto
  have "arena_end s b \<le> arena_end (s\<lparr>arena_heap := h\<rparr>) b" for b
    using h(4,5) by (cases "b = a") (auto simp: arena_end_def)
  with h fits that show ?thesis by (auto simp: arena_grows_def)
qed

text \<open>The frame of an operation that changes the machine \<open>vp\<close> and may allocate in an arena.\<close>

lemma in_put_vm:
  "(p, w) \<in> set (vm_manager_vm_list (put_vm vp v' s)) \<Longrightarrow>
   \<exists>w0. (p, w0) \<in> set (vm_manager_vm_list s) \<and> w = (if p = vp then v' else w0)"
  by (auto simp: put_vm_def)

lemma vms_ok_put_vm:
  assumes "vms_ok s as" "arena_grows s h as" "\<forall>pl \<in> set (tracked_pages v'). pl_ok pl"
  shows "vms_ok (put_vm vp v' (s\<lparr>arena_heap := h\<rparr>)) as"
proof -
  let ?s = "put_vm vp v' (s\<lparr>arena_heap := h\<rparr>)"
  have e: "arena_end s a \<le> arena_end ?s a" for a
    using assms(2) by (simp add: arena_grows_def arena_end_def)
  have "distinct (map fst (vm_manager_vm_list ?s))"
    unfolding put_vm_frame(13) using assms(1) by (simp add: vms_ok_def)
  moreover have "(\<forall>pl \<in> set (tracked_pages w). pl_ok pl) \<and> vm_manager_arena ?s \<in> set as \<and>
      unat (p - vm_manager_arena ?s) < arena_end ?s (vm_manager_arena ?s)"
    if pw: "(p, w) \<in> set (vm_manager_vm_list ?s)" for p w
  proof -
    obtain w0 where w: "(p, w0) \<in> set (vm_manager_vm_list s)" "w = (if p = vp then v' else w0)"
      using in_put_vm [OF pw] by auto
    then have "(\<forall>pl \<in> set (tracked_pages w0). pl_ok pl) \<and> vm_manager_arena s \<in> set as \<and>
        unat (p - vm_manager_arena s) < arena_end s (vm_manager_arena s)"
      using assms(1) by (auto simp: vms_ok_def)
    moreover have "vm_manager_arena ?s = vm_manager_arena s" by simp
    ultimately show ?thesis
      using w(2) assms(3) e [of "vm_manager_arena s"] by (auto intro: less_le_trans)
  qed
  moreover have "vm_manager_arena ?s \<noteq> 0 \<longrightarrow> vm_manager_arena ?s \<in> set as"
    using assms(1) by (simp add: vms_ok_def)
  ultimately show ?thesis by (auto simp: vms_ok_def)
qed

lemma hv_inv_change_vm:
  assumes "hv_inv s as" "get_vm s vp = Inr v" "arena_grows s h as"
    and "\<forall>pl \<in> set (tracked_pages v'). pl_ok pl"
    and "owned s as + vm_owned v' = os + vm_owned v"
    and "\<And>p. count os p \<le> 1"
    and "\<And>p. p \<in># os \<Longrightarrow> phys_page p \<and> \<not> mm_page_used_by_chainload s p"
  shows "hv_inv (put_vm vp v' (s\<lparr>arena_heap := h\<rparr>)) as"
    and "owned (put_vm vp v' (s\<lparr>arena_heap := h\<rparr>)) as = os"
proof -
  let ?s = "put_vm vp v' (s\<lparr>arena_heap := h\<rparr>)"
  have ok: "mm_ok s as" "vms_ok s as" using assms(1) by (simp_all add: hv_inv_def)
  have "owned ?s as = owned (put_vm vp v' s) as" by (simp add: owned_def put_vm_def)
  then have "owned ?s as + vm_owned v = os + vm_owned v"
    using owned_put_vm [OF ok(2) assms(2), of v'] assms(5) by simp
  then show o: "owned ?s as = os" by simp
  have "mm_ok ?s as"
    using ok(1) assms(3) by (simp add: mm_ok_def mm_position_ok_def arena_grows_def arena_ok_def)
  moreover have "vms_ok ?s as" by (rule vms_ok_put_vm [OF ok(2) assms(3,4)])
  moreover have "mm_page_used_by_chainload ?s = mm_page_used_by_chainload s"
    by (simp add: fun_eq_iff mm_page_used_by_chainload_def)
  ultimately show "hv_inv ?s as" using assms(6,7) o by (simp add: hv_inv_def)
qed

lemma vm_owned_subset: "(vp, v) \<in> set l \<Longrightarrow> vm_owned v \<subseteq># sum_list (map (\<lambda>(vp, v). vm_owned v) l)"
proof (induction l)
  case Nil
  then show ?case by simp
next
  case (Cons x l)
  then show ?case by (cases x) (auto intro: subset_mset.add_increasing subset_mset.add_increasing2)
qed

lemma vm_owned_subset_owned: "get_vm s vp = Inr v \<Longrightarrow> vm_owned v \<subseteq># owned s as"
  unfolding owned_def
  by (rule subset_mset.add_increasing [OF _ vm_owned_subset [OF get_vm_in_set]]) simp_all

lemma tracked_owned: "get_vm s vp = Inr v \<Longrightarrow> p \<in># pages_mset (tracked_pages v) \<Longrightarrow> p \<in># owned s as"
  by (rule mset_subset_eqD [OF vm_owned_subset_owned]) (auto simp: vm_owned_def)

section \<open>Tracking keeps the invariant\<close>

lemma vm_owned_tracked: "vm_owned (v\<lparr>tracked_pages := l\<rparr>) + pages_mset (tracked_pages v) = vm_owned v + pages_mset l"
  by (simp add: vm_owned_def)

lemma hv_inv_add_tracked:
  assumes "hv_inv s as" "get_vm s vp = Inr v" "arena_grows s h as" "adds_page k pa (tracked_pages v) l"
    and "phys_page pa" "pa \<notin># owned s as" "\<not> mm_page_used_by_chainload s pa"
  shows "hv_inv (put_vm vp (v\<lparr>tracked_pages := l\<rparr>) (s\<lparr>arena_heap := h\<rparr>)) as"
    and "owned (put_vm vp (v\<lparr>tracked_pages := l\<rparr>) (s\<lparr>arena_heap := h\<rparr>)) as = add_mset pa (owned s as)"
proof -
  have l: "\<forall>pl \<in> set l. pl_ok pl" "pages_mset l = add_mset pa (pages_mset (tracked_pages v))"
    using assms(4) by (simp_all add: adds_page_def)
  have o: "owned s as + vm_owned (v\<lparr>tracked_pages := l\<rparr>) = add_mset pa (owned s as) + vm_owned v"
    using l(2) by (simp add: vm_owned_def)
  have c: "count (add_mset pa (owned s as)) p \<le> 1" for p
    using assms(1,6) by (auto simp: hv_inv_def not_in_iff)
  have ok: "phys_page p \<and> \<not> mm_page_used_by_chainload s p" if "p \<in># add_mset pa (owned s as)" for p
    using assms(1,5,7) that by (auto simp: hv_inv_def)
  show "hv_inv (put_vm vp (v\<lparr>tracked_pages := l\<rparr>) (s\<lparr>arena_heap := h\<rparr>)) as"
    "owned (put_vm vp (v\<lparr>tracked_pages := l\<rparr>) (s\<lparr>arena_heap := h\<rparr>)) as = add_mset pa (owned s as)"
    by (rule hv_inv_change_vm [OF assms(1-3) _ o c ok]; use l(1) in simp)+
qed

lemma vm_manager_track_page_ok:
  assumes "vm_manager_track_page vp pa ty res s = Inr s'" "hv_inv s as" "phys_page pa"
    "pa \<notin># owned s as" "\<not> mm_page_used_by_chainload s pa"
  obtains v l h where "get_vm s vp = Inr v" "adds_page (ty, res) pa (tracked_pages v) l"
    "s' = put_vm vp (v\<lparr>tracked_pages := l\<rparr>) (s\<lparr>arena_heap := h\<rparr>)"
    "hv_inv s' as" "owned s' as = add_mset pa (owned s as)"
proof -
  obtain v where v: "get_vm s vp = Inr v"
    using assms(1) by (auto simp: vm_manager_track_page_def bnd_Inr_iff)
  have vms: "vms_ok s as" and aok: "arena_ok s as" using assms(2) by (simp_all add: hv_inv_def mm_ok_def)
  have pl: "\<forall>pl \<in> set (tracked_pages v). pl_ok pl" "vm_manager_arena s \<in> set as"
    using vms get_vm_in_set [OF v] by (auto simp: vms_ok_def)
  let ?n = "\<lparr>pl_physical_address = pa, pl_pages = 1, pl_page_type = ty, pl_reserved_pool = res\<rparr>"
  have new: "pa \<notin># kind_mset (ty, res) (tracked_pages v)"
    using assms(4) tracked_owned [OF v] kind_mset_subset by (meson mset_subset_eqD)
  obtain l h where lh: "adds_page (ty, res) pa (tracked_pages v) l" "arena_grows s h as"
    "s' = put_vm vp (v\<lparr>tracked_pages := l\<rparr>) (s\<lparr>arena_heap := h\<rparr>)"
  proof (cases "vm_track_existing pa ty res (tracked_pages v)")
    case (Some l)
    then have "s' = put_vm vp (v\<lparr>tracked_pages := l\<rparr>) (s\<lparr>arena_heap := arena_heap s\<rparr>)"
      using assms(1) v by (simp add: vm_manager_track_page_def)
    with that vm_track_existing_spec [OF Some pl(1) assms(3) new] arena_grows_refl [OF assms(2)]
    show thesis by blast
  next
    case None
    then have not_found: "vm_manager_track_page vp pa ty res s =
      (case vm_track_reuse ?n (tracked_pages v) of
          Some l \<Rightarrow> Inr (put_vm vp (v\<lparr>tracked_pages := l\<rparr>) s)
        | None \<Rightarrow> bnd (arena_allocate (vm_manager_arena s) sizeof_vm_page_list_t s) (\<lambda>(_, s).
            Inr (put_vm vp (v\<lparr>tracked_pages := ?n # tracked_pages v\<rparr>) s)))"
      by (simp add: vm_manager_track_page_def v Let_def)
    show thesis
    proof (cases "vm_track_reuse ?n (tracked_pages v)")
      case (Some l)
      then have "s' = put_vm vp (v\<lparr>tracked_pages := l\<rparr>) (s\<lparr>arena_heap := arena_heap s\<rparr>)"
        using assms(1) not_found by simp
      with that vm_track_reuse_spec [OF Some pl(1) assms(3)] arena_grows_refl [OF assms(2)]
      show thesis by (auto simp: pl_kind_def)
    next
      case None
      then obtain q s1 where al: "arena_allocate (vm_manager_arena s) sizeof_vm_page_list_t s = Inr (q, s1)"
        and s': "s' = put_vm vp (v\<lparr>tracked_pages := ?n # tracked_pages v\<rparr>) s1"
        using assms(1) not_found by (auto simp: bnd_Inr_iff)
      obtain h where "s1 = s\<lparr>arena_heap := h\<rparr>" "arena_grows s h as"
        by (rule arena_allocate_grows [OF aok pl(2) al])
      moreover have "adds_page (ty, res) pa (tracked_pages v) (?n # tracked_pages v)"
        using pl_single [OF assms(3), of ?n] pl(1) by (simp add: adds_page_def pl_kind_def)
      ultimately show thesis using that s' by simp
    qed
  qed
  from hv_inv_add_tracked [OF assms(2) v lh(2,1) assms(3-5)] that v lh show ?thesis by simp
qed

text \<open>A page of the reserved pool is given up, and its machine no longer owns it until it is tracked again.\<close>

lemma vm_manager_untrack_ok:
  assumes "vm_manager_untrack_page_from_reserved_pool vp ty s = Inr (r, s')" "hv_inv s as"
  obtains (none) v where "get_vm s vp = Inr v" "r = None" "s' = s" "kind_mset (ty, True) (tracked_pages v) = {#}"
  | (some) v p l where "get_vm s vp = Inr v" "r = Some p" "s' = put_vm vp (v\<lparr>tracked_pages := l\<rparr>) s"
    "adds_page (ty, True) p l (tracked_pages v)" "hv_inv s' as" "owned s as = add_mset p (owned s' as)"
    "phys_page p" "p \<notin># owned s' as" "\<not> mm_page_used_by_chainload s' p"
proof -
  obtain v where v: "get_vm s vp = Inr v"
    using assms(1) by (auto simp: vm_manager_untrack_page_from_reserved_pool_def bnd_Inr_iff)
  have pl: "\<forall>pl \<in> set (tracked_pages v). pl_ok pl"
    using assms(2) get_vm_in_set [OF v] by (auto simp: hv_inv_def vms_ok_def)
  note spec = vm_untrack_first_spec [OF pl, of ty]
  show ?thesis
  proof (cases "vm_untrack_first ty (tracked_pages v)")
    case None
    with assms(1) v have "r = None" "s' = s"
      by (simp_all add: vm_manager_untrack_page_from_reserved_pool_def)
    moreover have "kind_mset (ty, True) (tracked_pages v) = {#}" using None spec by simp
    ultimately show ?thesis using none [OF v] by simp
  next
    case (Some pr)
    obtain p l where pr: "pr = (p, l)" by (cases pr)
    have l: "adds_page (ty, True) p l (tracked_pages v)" "\<forall>pl \<in> set l. pl_ok pl"
      using spec Some pr by simp_all
    have s': "s' = put_vm vp (v\<lparr>tracked_pages := l\<rparr>) (s\<lparr>arena_heap := arena_heap s\<rparr>)" "r = Some p"
      using assms(1) v Some pr by (simp_all add: vm_manager_untrack_page_from_reserved_pool_def)
    have pm: "pages_mset (tracked_pages v) = add_mset p (pages_mset l)" using l(1) by (simp add: adds_page_def)
    then have "p \<in># owned s as" by (intro tracked_owned [OF v]) simp
    then obtain os where os: "owned s as = add_mset p os" by (meson multi_member_split)
    have o: "owned s as + vm_owned (v\<lparr>tracked_pages := l\<rparr>) = os + vm_owned v"
      using pm os by (simp add: vm_owned_def)
    have c1: "count (owned s as) q \<le> 1" for q using assms(2) by (simp add: hv_inv_def)
    have c: "count os q \<le> 1" for q using c1 [of q] os by (simp split: if_splits)
    have ok: "phys_page q \<and> \<not> mm_page_used_by_chainload s q" if "q \<in># os" for q
      using assms(2) that os by (auto simp: hv_inv_def)
    have inv: "hv_inv s' as" "owned s' as = os"
      unfolding s'(1)
      by (rule hv_inv_change_vm [OF assms(2) v arena_grows_refl [OF assms(2)] _ o c ok]; use l(2) in simp)+
    have "phys_page p" "\<not> mm_page_used_by_chainload s p" using assms(2) os by (auto simp: hv_inv_def)
    moreover have "mm_page_used_by_chainload s' = mm_page_used_by_chainload s"
      by (simp add: fun_eq_iff mm_page_used_by_chainload_def s'(1))
    moreover have "p \<notin># os" using c1 [of p] os by (simp add: not_in_iff)
    ultimately show ?thesis using some [OF v _ _ l(1)] s' inv os by simp
  qed
qed

end
