(* ===== verification/Vmx_Ept.thy ===== *)
theory Vmx_Ept
  imports Page_Ownership
begin

text \<open>
  hv/src/vmm/vmx\_ept.c: the extended page tables of a machine.  This theory holds the operations; the
  correctness of mapping and walking is in the theories Ept\_Tables and Ept\_Map.  A pointer to a table
  is represented by the physical address of the table.
\<close>

section \<open>Taking a page for a table\<close>

text \<open>A page of the reserved pool of the machine, or a free one, zeroed.\<close>

definition ept_take_page :: "u64 \<Rightarrow> hv_state \<Rightarrow> (u64 \<times> hv_state) res" where
  "ept_take_page vp s = bnd (vm_manager_untrack_ept_page_from_reserved_pool vp s) (\<lambda>(r, s).
     case r of Some page \<Rightarrow> Inr (page, s) | None \<Rightarrow> vmx_get_free_ept_page s)"

definition ept_present :: "u64 \<Rightarrow> bool" where
  "ept_present e \<longleftrightarrow> e AND EPT_PTE_READ \<noteq> 0"

definition ept_large :: "u64 \<Rightarrow> bool" where
  "ept_large e \<longleftrightarrow> e AND EPT_PDE_PAGE_SIZE \<noteq> 0"

text \<open>A present entry with all rights for the page at a physical address.\<close>

definition ept_entry :: "u64 \<Rightarrow> u64" where
  "ept_entry pa = EPT_PTE_READ OR EPT_PTE_WRITE OR EPT_PTE_EXECUTE OR (pa AND EPT_PTE_PHYSICAL_ADDRESS_PAGE)"

section \<open>\<open>vmx_ept_map_page\<close>\<close>

text \<open>The root: \<open>eptp\<close>, set up on the first mapping.\<close>

definition ept_map_root :: "u64 \<Rightarrow> hv_state \<Rightarrow> (u64 \<times> hv_state) res" where
  "ept_map_root vp s = bnd (get_vm s vp) (\<lambda>v.
     if vm_flags v AND VM_T_FLAG_EPT_PML4_INITIALIZED \<noteq> 0 then Inr (eptp (vmcs_config v), s)
     else bnd (ept_take_page vp s) (\<lambda>(ept_pml4, s).
       bnd (get_vm s vp) (\<lambda>v.
       let s = put_vm vp (v\<lparr>vmcs_config := (vmcs_config v)\<lparr>eptp := ept_pml4\<rparr>,
                            vm_flags := vm_flags v OR VM_T_FLAG_EPT_PML4_INITIALIZED\<rparr>) s
       in bnd (vm_manager_track_ept_page vp ept_pml4 s) (\<lambda>s. Inr (ept_pml4, s)))))"

text \<open>
  One level down from the entry \<open>index\<close> of \<open>table\<close>.  The code repeats this block for the PDPT, the PD and
  the PT; only the last two check the page-size bit of the entry they read.
\<close>

definition already_mapped_panic_str :: string where
  "already_mapped_panic_str = ''Remapping an already mapped guest physical page in EPT''"

definition ept_map_next :: "u64 \<Rightarrow> bool \<Rightarrow> u64 \<Rightarrow> u64 \<Rightarrow> hv_state \<Rightarrow> (u64 \<times> hv_state) res" where
  "ept_map_next vp check_size table index s =
     (let e = read64 (phys s) (entry table index) in
      if ept_present e then
        (if check_size \<and> ept_large e then Inl (Panic already_mapped_panic_str)
         else Inr (e AND EPT_PTE_PHYSICAL_ADDRESS_PAGE, s))
      else bnd (ept_take_page vp s) (\<lambda>(page, s).
        bnd (vm_manager_track_ept_page vp page s) (\<lambda>s.
          Inr (page, s\<lparr>phys := write64 (phys s) (entry table index) (ept_entry page)\<rparr>))))"

definition vmx_ept_map_page :: "u64 \<Rightarrow> u64 \<Rightarrow> u64 \<Rightarrow> hv_state \<Rightarrow> hv_state res" where
  "vmx_ept_map_page vp guest_physical_page host_physical_page s =
     bnd (ept_map_root vp s) (\<lambda>(ept_pml4, s).
     bnd (ept_map_next vp False ept_pml4 (LINEAR_ADDRESS_GET_PML4 guest_physical_page) s) (\<lambda>(ept_pdpt, s).
     bnd (ept_map_next vp True ept_pdpt (LINEAR_ADDRESS_GET_DIRECTORY_PTR guest_physical_page) s) (\<lambda>(ept_pd, s).
     bnd (ept_map_next vp True ept_pd (LINEAR_ADDRESS_GET_DIRECTORY guest_physical_page) s) (\<lambda>(ept_pt, s).
       let pte = entry ept_pt (LINEAR_ADDRESS_GET_TABLE guest_physical_page) in
       if ept_present (read64 (phys s) pte) then Inl (Panic already_mapped_panic_str)
       else Inr (s\<lparr>phys := write64 (phys s) pte (ept_entry host_physical_page)\<rparr>)))))"

section \<open>\<open>vmx_ept_get_host_physical_address\<close>\<close>

text \<open>\<open>None\<close> is the result \<open>false\<close>.  The walk reads the memory and nothing else of the state.\<close>

definition ept_walk :: "phys_mem \<Rightarrow> u64 \<Rightarrow> u64 \<Rightarrow> u64 option" where
  "ept_walk m ept_pml4 g =
     (let pml4e = read64 m (entry ept_pml4 (LINEAR_ADDRESS_GET_PML4 g)) in
      if \<not> ept_present pml4e then None else
      let pdpte = read64 m (entry (pml4e AND EPT_PTE_PHYSICAL_ADDRESS_PAGE) (LINEAR_ADDRESS_GET_DIRECTORY_PTR g)) in
      if \<not> ept_present pdpte then None
      else if ept_large pdpte then
        Some ((pdpte AND EPT_PDPTE_PHYSICAL_ADDRESS_PAGE) OR
          (g AND (LINEAR_ADDRESS_D_MASK OR LINEAR_ADDRESS_TABLE_MASK OR LINEAR_ADDRESS_OFFSET_MASK)))
      else
      let pde = read64 m (entry (pdpte AND EPT_PTE_PHYSICAL_ADDRESS_PAGE) (LINEAR_ADDRESS_GET_DIRECTORY g)) in
      if \<not> ept_present pde then None
      else if ept_large pde then
        Some ((pde AND EPT_PDE_PHYSICAL_ADDRESS_PAGE) OR
          (g AND (LINEAR_ADDRESS_TABLE_MASK OR LINEAR_ADDRESS_OFFSET_MASK)))
      else
      let pte = read64 m (entry (pde AND EPT_PTE_PHYSICAL_ADDRESS_PAGE) (LINEAR_ADDRESS_GET_TABLE g)) in
      if \<not> ept_present pte then None
      else Some ((pte AND EPT_PTE_PHYSICAL_ADDRESS_PAGE) OR LINEAR_ADDRESS_GET_OFFSET g))"

definition vm_walk :: "phys_mem \<Rightarrow> vm_t \<Rightarrow> u64 \<Rightarrow> u64 option" where
  "vm_walk m v g = (if vm_flags v AND VM_T_FLAG_EPT_PML4_INITIALIZED = 0 then None
     else ept_walk m (eptp (vmcs_config v)) g)"

definition vmx_ept_get_host_physical_address :: "hv_state \<Rightarrow> u64 \<Rightarrow> u64 \<Rightarrow> u64 option res" where
  "vmx_ept_get_host_physical_address s vp g = bnd (get_vm s vp) (\<lambda>v. Inr (vm_walk (phys s) v g))"

section \<open>\<open>vmx_ept_create_identity_mapping\<close>\<close>

definition vmx_ept_create_identity_mapping :: "u64 \<Rightarrow> hv_state \<Rightarrow> hv_state res" where
  "vmx_ept_create_identity_mapping vp s = bnd (get_vm s vp) (\<lambda>v.
     if vm_flags v AND VM_T_FLAG_EPT_PML4_INITIALIZED \<noteq> 0
     then Inl (Panic ''Setting up a new EPT with id mapping on a VM with EPT PML4 already initialized'')
     else bnd (ept_take_page vp s) (\<lambda>(ept_pdpt, s).
       bnd (vm_manager_track_ept_page vp ept_pdpt s) (\<lambda>s.
       let s = s\<lparr>phys := fill_table (phys s) ept_pdpt (\<lambda>i.
             EPT_PTE_READ OR EPT_PTE_WRITE OR EPT_PTE_EXECUTE OR EPT_PDE_PAGE_SIZE OR
             (push_bit 30 (of_nat i) AND EPT_PDPTE_PHYSICAL_ADDRESS_PAGE))\<rparr>
       in bnd (ept_take_page vp s) (\<lambda>(ept_pml4, s).
       bnd (vm_manager_track_ept_page vp ept_pml4 s) (\<lambda>s.
       let s = s\<lparr>phys := write64 (phys s) (entry ept_pml4 0) (ept_entry ept_pdpt)\<rparr>
       in bnd (get_vm s vp) (\<lambda>v.
         Inr (put_vm vp (v\<lparr>vmcs_config := (vmcs_config v)\<lparr>eptp := ept_pml4\<rparr>,
                           vm_flags := vm_flags v OR VM_T_FLAG_EPT_PML4_INITIALIZED\<rparr>) s)))))))"

section \<open>Entries\<close>

lemma ept_present_bit: "ept_present e \<longleftrightarrow> bit e 0"
  using bit_iff_and_push_bit_not_eq_0 [of e 0] by (simp add: ept_present_def hv_const)

lemma ept_large_bit: "ept_large e \<longleftrightarrow> bit e 7"
  using bit_iff_and_push_bit_not_eq_0 [of e 7] by (simp add: ept_large_def hv_const)

lemma ept_entry_facts:
  assumes "phys_page p"
  shows "ept_present (ept_entry p)" "\<not> ept_large (ept_entry p)" "ept_entry p AND EPT_PTE_PHYSICAL_ADDRESS_PAGE = p"
proof -
  show "ept_present (ept_entry p)" "\<not> ept_large (ept_entry p)"
    by (simp_all add: ept_present_bit ept_large_bit ept_entry_def hv_const bit_simps)
  have "(EPT_PTE_READ OR EPT_PTE_WRITE OR EPT_PTE_EXECUTE) AND EPT_PTE_PHYSICAL_ADDRESS_PAGE = 0"
    by (simp add: hv_const)
  from entry_address [OF assms this] show "ept_entry p AND EPT_PTE_PHYSICAL_ADDRESS_PAGE = p"
    by (simp add: ept_entry_def or.assoc)
qed

lemma ept_zero_entry [simp]: "\<not> ept_present 0"
  by (simp add: ept_present_def)

end
