(* ===== verification/Ept_Tables.thy ===== *)
theory Ept_Tables
  imports Vmx_Ept
begin

text \<open>
  The shape of extended page tables in memory.  A table is found from the root by a path of indexes,
  the last index first.  \<open>ept_wf\<close> says that the tables reached by different paths are different pages of
  a given set.  The two lemmas on writes, one for a new table and one for a leaf, say which paths and
  which walks change; they are the abstract content of \<open>vmx_ept_map_page\<close>.
\<close>

section \<open>Tables by path\<close>

definition ept_child :: "phys_mem \<Rightarrow> u64 \<Rightarrow> u64 \<Rightarrow> u64 option" where
  "ept_child m t i = (let e = read64 m (entry t i) in
     if ept_present e \<and> \<not> ept_large e then Some (e AND EPT_PTE_PHYSICAL_ADDRESS_PAGE) else None)"

primrec ept_tbl :: "phys_mem \<Rightarrow> u64 \<Rightarrow> u64 list \<Rightarrow> u64 option" where
  "ept_tbl m root [] = Some root"
| "ept_tbl m root (i # p) = (case ept_tbl m root p of None \<Rightarrow> None | Some t \<Rightarrow> ept_child m t i)"

definition ept_path :: "u64 list \<Rightarrow> bool" where
  "ept_path p \<longleftrightarrow> length p \<le> 3 \<and> (\<forall>i \<in> set p. unat i < 512)"

definition pdpt_path :: "u64 \<Rightarrow> u64 list" where
  "pdpt_path g = [LINEAR_ADDRESS_GET_PML4 g]"
definition pd_path :: "u64 \<Rightarrow> u64 list" where
  "pd_path g = LINEAR_ADDRESS_GET_DIRECTORY_PTR g # pdpt_path g"
definition pt_path :: "u64 \<Rightarrow> u64 list" where
  "pt_path g = LINEAR_ADDRESS_GET_DIRECTORY g # pd_path g"

lemma ept_path_simps [simp]:
  "ept_path []" "ept_path (pdpt_path g)" "ept_path (pd_path g)" "ept_path (pt_path g)"
  by (simp_all add: ept_path_def pdpt_path_def pd_path_def pt_path_def)

lemma ept_path_Cons: "ept_path (i # p) \<longleftrightarrow> ept_path p \<and> length p < 3 \<and> unat i < 512"
  by (auto simp: ept_path_def)

lemma length_paths [simp]: "length (pdpt_path g) = 1" "length (pd_path g) = 2" "length (pt_path g) = 3"
  by (simp_all add: pdpt_path_def pd_path_def pt_path_def)

lemma pt_path_eq:
  "pt_path g = pt_path g' \<and> LINEAR_ADDRESS_GET_TABLE g = LINEAR_ADDRESS_GET_TABLE g' \<longleftrightarrow> same_guest_page g g'"
  by (auto simp: pt_path_def pd_path_def pdpt_path_def same_guest_page_iff_indexes)

definition ept_wf :: "phys_mem \<Rightarrow> u64 \<Rightarrow> u64 set \<Rightarrow> bool" where
  "ept_wf m root T \<longleftrightarrow>
     (\<forall>p t. ept_path p \<and> ept_tbl m root p = Some t \<longrightarrow> phys_page t \<and> t \<in> T) \<and>
     (\<forall>p q t. ept_path p \<and> ept_path q \<and> ept_tbl m root p = Some t \<and> ept_tbl m root q = Some t \<longrightarrow> p = q) \<and>
     (\<forall>i. unat i < 512 \<longrightarrow> ept_present (read64 m (entry root i)) \<longrightarrow> \<not> ept_large (read64 m (entry root i)))"

lemma ept_wfD:
  assumes "ept_wf m root T"
  shows "ept_path p \<Longrightarrow> ept_tbl m root p = Some t \<Longrightarrow> phys_page t"
    and "ept_path p \<Longrightarrow> ept_tbl m root p = Some t \<Longrightarrow> t \<in> T"
    and "ept_path p \<Longrightarrow> ept_path q \<Longrightarrow> ept_tbl m root p = Some t \<Longrightarrow> ept_tbl m root q = Some t \<Longrightarrow> p = q"
    and "unat i < 512 \<Longrightarrow> ept_present (read64 m (entry root i)) \<Longrightarrow> \<not> ept_large (read64 m (entry root i))"
  using assms unfolding ept_wf_def by blast+

text \<open>The walk of the code by the tables of its paths.\<close>

definition large_1g :: "u64 \<Rightarrow> u64 \<Rightarrow> u64" where
  "large_1g e g = (e AND EPT_PDPTE_PHYSICAL_ADDRESS_PAGE) OR
     (g AND (LINEAR_ADDRESS_D_MASK OR LINEAR_ADDRESS_TABLE_MASK OR LINEAR_ADDRESS_OFFSET_MASK))"
definition large_2m :: "u64 \<Rightarrow> u64 \<Rightarrow> u64" where
  "large_2m e g = (e AND EPT_PDE_PHYSICAL_ADDRESS_PAGE) OR
     (g AND (LINEAR_ADDRESS_TABLE_MASK OR LINEAR_ADDRESS_OFFSET_MASK))"

definition large_entry :: "u64 \<Rightarrow> bool" where
  "large_entry e \<longleftrightarrow> ept_present e \<and> ept_large e"

lemma ept_walk_by_path:
  assumes "ept_wf m root T"
  shows "ept_walk m root g = (case ept_tbl m root (pdpt_path g) of None \<Rightarrow> None | Some pdpt \<Rightarrow>
     let e = read64 m (entry pdpt (LINEAR_ADDRESS_GET_DIRECTORY_PTR g)) in
     if large_entry e then Some (large_1g e g)
     else (case ept_tbl m root (pd_path g) of None \<Rightarrow> None | Some pd \<Rightarrow>
       let e = read64 m (entry pd (LINEAR_ADDRESS_GET_DIRECTORY g)) in
       if large_entry e then Some (large_2m e g)
       else (case ept_tbl m root (pt_path g) of None \<Rightarrow> None | Some pt \<Rightarrow>
         let e = read64 m (entry pt (LINEAR_ADDRESS_GET_TABLE g)) in
         if ept_present e then Some ((e AND EPT_PTE_PHYSICAL_ADDRESS_PAGE) OR LINEAR_ADDRESS_GET_OFFSET g)
         else None)))"
  using ept_wfD(4) [OF assms, of "LINEAR_ADDRESS_GET_PML4 g"]
  by (simp add: ept_walk_def pt_path_def pd_path_def pdpt_path_def ept_child_def Let_def large_entry_def
    large_1g_def large_2m_def)

section \<open>Frame\<close>

lemma ept_tbl_frame:
  assumes "ept_wf m root T" "\<And>t. t \<in> T \<Longrightarrow> page_eq m m' t" "ept_path p"
  shows "ept_tbl m' root p = ept_tbl m root p"
  using assms(3)
proof (induction p)
  case Nil
  then show ?case by simp
next
  case (Cons i p)
  then have IH: "ept_tbl m' root p = ept_tbl m root p" and p: "ept_path p" and i: "unat i < 512"
    by (simp_all add: ept_path_Cons)
  show ?case
  proof (cases "ept_tbl m root p")
    case None
    with IH show ?thesis by simp
  next
    case (Some t)
    then have "page_eq m m' t" using ept_wfD(2) [OF assms(1) p] assms(2) by simp
    from page_eq_read64 [OF this i] show ?thesis using IH Some by (simp add: ept_child_def)
  qed
qed

lemma ept_wf_frame:
  assumes "ept_wf m root T" "\<And>t. t \<in> T \<Longrightarrow> page_eq m m' t"
  shows "ept_wf m' root T" and "ept_walk m' root g = ept_walk m root g"
proof -
  note tbl = ept_tbl_frame [OF assms]
  have rd: "read64 m' (entry t i) = read64 m (entry t i)" if "ept_tbl m root p = Some t" "ept_path p" "unat i < 512" for t p i
    using page_eq_read64 [OF assms(2) that(3), of t] ept_wfD(2) [OF assms(1) that(2,1)] by simp
  have root: "ept_tbl m root [] = Some root" by simp
  show wf': "ept_wf m' root T"
    unfolding ept_wf_def using ept_wfD [OF assms(1)] tbl rd [OF root ept_path_simps(1)] by metis
  show "ept_walk m' root g = ept_walk m root g"
    unfolding ept_walk_by_path [OF wf'] ept_walk_by_path [OF assms(1)]
    using rd [of "pdpt_path g"] rd [of "pd_path g"] rd [of "pt_path g"]
    by (auto simp: tbl Let_def split: option.splits)
qed

lemma ept_wf_mono: "ept_wf m root T \<Longrightarrow> T \<subseteq> T' \<Longrightarrow> ept_wf m root T'"
  unfolding ept_wf_def by blast

section \<open>A new table\<close>

text \<open>The situation before an absent entry gets the fresh zero page \<open>n\<close> as its table.\<close>

definition ept_new_table :: "phys_mem \<Rightarrow> u64 \<Rightarrow> u64 set \<Rightarrow> u64 list \<Rightarrow> u64 \<Rightarrow> u64 \<Rightarrow> u64 \<Rightarrow> bool" where
  "ept_new_table m root T p t i n \<longleftrightarrow> ept_wf m root T \<and> ept_path (i # p) \<and> ept_tbl m root p = Some t \<and>
     \<not> ept_present (read64 m (entry t i)) \<and> phys_page n \<and> n \<notin> T \<and> page_zero m n"

definition ept_link :: "phys_mem \<Rightarrow> u64 \<Rightarrow> u64 \<Rightarrow> u64 \<Rightarrow> phys_mem" where
  "ept_link m t i n = write64 m (entry t i) (ept_entry n)"

lemma ept_new_tableD:
  assumes "ept_new_table m root T p t i n"
  shows "ept_wf m root T" "ept_path (i # p)" "ept_tbl m root p = Some t"
    "\<not> ept_present (read64 m (entry t i))" "phys_page n" "n \<notin> T" "page_zero m n"
  using assms by (simp_all add: ept_new_table_def)

lemma new_table_p:
  assumes N: "ept_new_table m root T p t i n"
  shows "ept_path p" "length p < 3" "unat i < 512"
  using ept_new_tableD(2) [OF N] by (simp_all add: ept_path_Cons)

lemma new_table_tT:
  assumes N: "ept_new_table m root T p t i n"
  shows "t \<in> T" "phys_page t" "t \<noteq> n"
  using ept_wfD(1,2) [OF ept_new_tableD(1) [OF N] new_table_p(1) [OF N] ept_new_tableD(3) [OF N]] ept_new_tableD(5-7) [OF N] by auto

lemma new_table_rd:
  assumes N: "ept_new_table m root T p t i n"
    and A: "phys_page u" "unat j < 512"
  shows "read64 (ept_link m t i n) (entry u j) = (if u = t \<and> j = i then ept_entry n else read64 m (entry u j))"
proof -
  note t = ept_new_tableD(3) [OF N]
  note p = new_table_p [OF N]
  note tT = new_table_tT [OF N]
  show ?thesis
    using A read64_write64_entry [of t u i j m "ept_entry n"] tT p(3) by (auto simp: ept_link_def)
qed

lemma new_table_rd_new:
  assumes N: "ept_new_table m root T p t i n"
    and A: "unat j < 512"
  shows "read64 (ept_link m t i n) (entry n j) = 0"
proof -
  note n = ept_new_tableD(5-7) [OF N]
  note tT = new_table_tT [OF N]
  note rd = new_table_rd [OF N]
  show ?thesis
    using A rd [OF n(1)] page_zero_read64 [OF n(3)] tT(3) by simp
qed

lemma new_table_old_absent:
  assumes N: "ept_new_table m root T p t i n"
  shows "ept_tbl m root (i # p) = None"
proof -
  note t = ept_new_tableD(3) [OF N]
  note absent = ept_new_tableD(4) [OF N]
  show ?thesis
    using t absent by (simp add: ept_child_def Let_def)
qed

lemma new_table_tbl:
  assumes N: "ept_new_table m root T p t i n"
    and A: "ept_path q"
  shows "ept_tbl (ept_link m t i n) root q = (if q = i # p then Some n else ept_tbl m root q)"
proof -
  note wf = ept_new_tableD(1) [OF N]
  note t = ept_new_tableD(3) [OF N]
  note n = ept_new_tableD(5-7) [OF N]
  note p = new_table_p [OF N]
  note rd = new_table_rd [OF N]
  note rd_new = new_table_rd_new [OF N]
  note old_absent = new_table_old_absent [OF N]
  show ?thesis
    using A
    proof (induction q)
      case Nil
      then show ?case by simp
    next
      case (Cons j q)
      then have IH: "ept_tbl (ept_link m t i n) root q = (if q = i # p then Some n else ept_tbl m root q)"
        and q: "ept_path q" "unat j < 512" by (simp_all add: ept_path_Cons)
      show ?case
      proof (cases "q = i # p")
        case True
        with IH old_absent q show ?thesis by (simp add: ept_child_def rd_new)
      next
        case False
        show ?thesis
        proof (cases "ept_tbl m root q")
          case None
          with IH False t show ?thesis by auto
        next
          case (Some u)
          have u: "phys_page u" using ept_wfD(1) [OF wf q(1) Some] .
          have "u = t \<longleftrightarrow> q = p" using ept_wfD(3) [OF wf q(1) p(1) Some] t Some by auto
          with IH False Some u q(2) n(1) show ?thesis
            by (auto simp: ept_child_def rd ept_entry_facts)
        qed
      qed
    qed
qed

lemma new_table_wf':
  assumes N: "ept_new_table m root T p t i n"
  shows "ept_wf (ept_link m t i n) root (insert n T)"
proof -
  note wf = ept_new_tableD(1) [OF N]
  note n = ept_new_tableD(5-7) [OF N]
  note rd = new_table_rd [OF N]
  note tbl = new_table_tbl [OF N]
  show ?thesis
    unfolding ept_wf_def
    proof (intro conjI allI impI)
      fix q u
      assume "ept_path q \<and> ept_tbl (ept_link m t i n) root q = Some u"
      then show "phys_page u" "u \<in> insert n T"
        using ept_wfD(1,2) [OF wf, of q u] n(1) by (auto simp: tbl split: if_splits)
    next
      fix q r u
      assume qr: "ept_path q \<and> ept_path r \<and> ept_tbl (ept_link m t i n) root q = Some u \<and> ept_tbl (ept_link m t i n) root r = Some u"
      have "ept_tbl m root q \<noteq> Some n" if "ept_path q" for q using ept_wfD(2) [OF wf that] n(2) by auto
      with qr ept_wfD(3) [OF wf, of q r u] show "q = r" by (auto simp: tbl split: if_splits)
    next
      fix j :: u64
      assume j: "unat j < 512" "ept_present (read64 (ept_link m t i n) (entry root j))"
      have "phys_page root" using ept_wfD(1) [OF wf, of "[]"] by simp
      then show "\<not> ept_large (read64 (ept_link m t i n) (entry root j))"
        using j rd [of root j] ept_wfD(4) [OF wf j(1)] n(1) by (auto simp: ept_entry_facts split: if_splits)
    qed
qed

lemma new_table_large_same:
  assumes N: "ept_new_table m root T p t i n"
    and A: "ept_path q" "ept_tbl m root q = Some u" "unat j < 512"
  shows "large_entry (read64 (ept_link m t i n) (entry u j)) = large_entry (read64 m (entry u j)) \<and>
  (large_entry (read64 m (entry u j)) \<longrightarrow> read64 (ept_link m t i n) (entry u j) = read64 m (entry u j))"
proof -
  note wf = ept_new_tableD(1) [OF N]
  note absent = ept_new_tableD(4) [OF N]
  note n = ept_new_tableD(5-7) [OF N]
  note rd = new_table_rd [OF N]
  show ?thesis
    using A ept_wfD(1) [OF wf] absent n(1) by (auto simp: rd large_entry_def ept_entry_facts)
qed

lemma new_table_leaf_same:
  assumes N: "ept_new_table m root T p t i n"
    and A: "ept_path q" "ept_tbl m root q = Some u" "length q = 3" "unat j < 512"
  shows "read64 (ept_link m t i n) (entry u j) = read64 m (entry u j)"
proof -
  note wf = ept_new_tableD(1) [OF N]
  note t = ept_new_tableD(3) [OF N]
  note p = new_table_p [OF N]
  note rd = new_table_rd [OF N]
  show ?thesis
    proof -
      have "u \<noteq> t" using ept_wfD(3) [OF wf A(1) p(1) A(2)] t A(3) p(2) by auto
      then show ?thesis using rd [OF ept_wfD(1) [OF wf A(1,2)] A(4)] by simp
    qed
qed

lemma new_table_walk_same:
  assumes N: "ept_new_table m root T p t i n"
  shows "ept_walk (ept_link m t i n) root g = ept_walk m root g"
proof -
  note wf = ept_new_tableD(1) [OF N]
  note rd_new = new_table_rd_new [OF N]
  note old_absent = new_table_old_absent [OF N]
  note tbl = new_table_tbl [OF N]
  note wf' = new_table_wf' [OF N]
  note large_same = new_table_large_same [OF N]
  note leaf_same = new_table_leaf_same [OF N]
  show ?thesis
    proof -
      have new: "\<not> large_entry 0" by (simp add: large_entry_def)
      have sub: "ept_tbl m root (pdpt_path g) = None \<Longrightarrow> ept_tbl m root (pd_path g) = None"
        "ept_tbl m root (pd_path g) = None \<Longrightarrow> ept_tbl m root (pt_path g) = None"
        by (simp_all add: pd_path_def pt_path_def)
      have ne: "pd_path g \<noteq> pdpt_path g" "pt_path g \<noteq> pdpt_path g" "pt_path g \<noteq> pd_path g"
        by (simp_all add: pdpt_path_def pd_path_def pt_path_def)
      note big = large_same [of "pdpt_path g" _ "LINEAR_ADDRESS_GET_DIRECTORY_PTR g"]
        large_same [of "pd_path g" _ "LINEAR_ADDRESS_GET_DIRECTORY g"]
      note leaf = leaf_same [of "pt_path g" _ "LINEAR_ADDRESS_GET_TABLE g"]
      have tbls: "ept_tbl (ept_link m t i n) root (pdpt_path g) = (if pdpt_path g = i # p then Some n else ept_tbl m root (pdpt_path g))"
        "ept_tbl (ept_link m t i n) root (pd_path g) = (if pd_path g = i # p then Some n else ept_tbl m root (pd_path g))"
        "ept_tbl (ept_link m t i n) root (pt_path g) = (if pt_path g = i # p then Some n else ept_tbl m root (pt_path g))"
        by (simp_all add: tbl)
      consider (pdpt) "pdpt_path g = i # p" | (pd) "pd_path g = i # p" | (pt) "pt_path g = i # p"
        | (other) "pdpt_path g \<noteq> i # p" "pd_path g \<noteq> i # p" "pt_path g \<noteq> i # p" by blast
      then show ?thesis
      proof cases
        case pdpt
        then have o: "pd_path g \<noteq> i # p" "pt_path g \<noteq> i # p" "ept_tbl m root (pdpt_path g) = None"
          using ne old_absent by auto
        then have "ept_tbl (ept_link m t i n) root (pdpt_path g) = Some n" "ept_tbl (ept_link m t i n) root (pd_path g) = None"
          using tbls pdpt sub by simp_all
        with o show ?thesis
          unfolding ept_walk_by_path [OF wf'] ept_walk_by_path [OF wf] by (simp add: rd_new new)
      next
        case pd
        then have o: "pdpt_path g \<noteq> i # p" "pt_path g \<noteq> i # p" "ept_tbl m root (pd_path g) = None"
          using ne old_absent by auto
        then have "ept_tbl (ept_link m t i n) root (pdpt_path g) = ept_tbl m root (pdpt_path g)"
          "ept_tbl (ept_link m t i n) root (pd_path g) = Some n" "ept_tbl (ept_link m t i n) root (pt_path g) = None"
          using tbls pd sub by simp_all
        with o big show ?thesis
          unfolding ept_walk_by_path [OF wf'] ept_walk_by_path [OF wf]
          by (auto simp: rd_new new Let_def split: option.splits)
      next
        case pt
        then have o: "pdpt_path g \<noteq> i # p" "pd_path g \<noteq> i # p" "ept_tbl m root (pt_path g) = None"
          using ne old_absent by auto
        then have "ept_tbl (ept_link m t i n) root (pdpt_path g) = ept_tbl m root (pdpt_path g)"
          "ept_tbl (ept_link m t i n) root (pd_path g) = ept_tbl m root (pd_path g)" "ept_tbl (ept_link m t i n) root (pt_path g) = Some n"
          using tbls pt by simp_all
        with o big show ?thesis
          unfolding ept_walk_by_path [OF wf'] ept_walk_by_path [OF wf]
          by (auto simp: rd_new Let_def split: option.splits)
      next
        case other
        with tbls have "ept_tbl (ept_link m t i n) root (pdpt_path g) = ept_tbl m root (pdpt_path g)"
          "ept_tbl (ept_link m t i n) root (pd_path g) = ept_tbl m root (pd_path g)"
          "ept_tbl (ept_link m t i n) root (pt_path g) = ept_tbl m root (pt_path g)" by simp_all
        with big leaf show ?thesis
          unfolding ept_walk_by_path [OF wf'] ept_walk_by_path [OF wf]
          by (auto simp: Let_def split: option.splits)
      qed
    qed
qed

section \<open>A new leaf\<close>

text \<open>The situation before an absent leaf entry gets the host page \<open>h\<close>.\<close>

definition ept_new_leaf :: "phys_mem \<Rightarrow> u64 \<Rightarrow> u64 set \<Rightarrow> u64 \<Rightarrow> u64 \<Rightarrow> u64 \<Rightarrow> bool" where
  "ept_new_leaf m root T g pt h \<longleftrightarrow> ept_wf m root T \<and> ept_tbl m root (pt_path g) = Some pt \<and>
     \<not> ept_present (read64 m (entry pt (LINEAR_ADDRESS_GET_TABLE g))) \<and> phys_page h"

definition ept_set_leaf :: "phys_mem \<Rightarrow> u64 \<Rightarrow> u64 \<Rightarrow> u64 \<Rightarrow> phys_mem" where
  "ept_set_leaf m pt g h = write64 m (entry pt (LINEAR_ADDRESS_GET_TABLE g)) (ept_entry h)"

lemma ept_new_leafD:
  assumes "ept_new_leaf m root T g pt h"
  shows "ept_wf m root T" "ept_tbl m root (pt_path g) = Some pt"
    "\<not> ept_present (read64 m (entry pt (LINEAR_ADDRESS_GET_TABLE g)))" "phys_page h"
  using assms by (simp_all add: ept_new_leaf_def)

lemma new_leaf_pt_page:
  assumes N: "ept_new_leaf m root T g pt h"
  shows "phys_page pt" "pt \<in> T"
  using ept_wfD(1,2) [OF ept_new_leafD(1) [OF N] _ ept_new_leafD(2) [OF N]] by simp_all

lemma new_leaf_rd:
  assumes N: "ept_new_leaf m root T g pt h"
    and A: "phys_page u" "unat j < 512"
  shows "read64 (ept_set_leaf m pt g h) (entry u j) = (if u = pt \<and> j = LINEAR_ADDRESS_GET_TABLE g then ept_entry h else read64 m (entry u j))"
proof -
  note pt = ept_new_leafD(2) [OF N]
  note pt_page = new_leaf_pt_page [OF N]
  show ?thesis
    using A read64_write64_entry [of pt u "LINEAR_ADDRESS_GET_TABLE g" j m "ept_entry h"] pt_page by (auto simp: ept_set_leaf_def)
qed

lemma new_leaf_rd_inner:
  assumes N: "ept_new_leaf m root T g pt h"
    and A: "ept_path q" "length q < 3" "ept_tbl m root q = Some u" "unat j < 512"
  shows "read64 (ept_set_leaf m pt g h) (entry u j) = read64 m (entry u j)"
proof -
  note wf = ept_new_leafD(1) [OF N]
  note pt = ept_new_leafD(2) [OF N]
  note rd = new_leaf_rd [OF N]
  show ?thesis
    proof -
      have "u \<noteq> pt" using ept_wfD(3) [OF wf A(1) ept_path_simps(4) A(3), of g] pt A(2) by auto
      then show ?thesis using rd [OF ept_wfD(1) [OF wf A(1,3)] A(4)] by simp
    qed
qed

lemma new_leaf_tbl:
  assumes N: "ept_new_leaf m root T g pt h"
    and A: "ept_path q"
  shows "ept_tbl (ept_set_leaf m pt g h) root q = ept_tbl m root q"
proof -
  note rd_inner = new_leaf_rd_inner [OF N]
  show ?thesis
    using A
    proof (induction q)
      case Nil
      then show ?case by simp
    next
      case (Cons j q)
      then have IH: "ept_tbl (ept_set_leaf m pt g h) root q = ept_tbl m root q" and q: "ept_path q" "length q < 3" "unat j < 512"
        by (simp_all add: ept_path_Cons)
      then show ?case by (auto simp: ept_child_def rd_inner split: option.splits)
    qed
qed

lemma new_leaf_wf':
  assumes N: "ept_new_leaf m root T g pt h"
  shows "ept_wf (ept_set_leaf m pt g h) root T"
proof -
  note wf = ept_new_leafD(1) [OF N]
  note rd_inner = new_leaf_rd_inner [OF N]
  note tbl = new_leaf_tbl [OF N]
  show ?thesis
    unfolding ept_wf_def using ept_wfD [OF wf] tbl rd_inner [of "[]" root] by (metis ept_path_simps(1) ept_tbl.simps(1) list.size(3) zero_less_numeral)
qed

lemma new_leaf_leaf_of:
  assumes N: "ept_new_leaf m root T g pt h"
    and A: "ept_tbl m root (pt_path g') = Some u"
  shows "u = pt \<and> LINEAR_ADDRESS_GET_TABLE g' = LINEAR_ADDRESS_GET_TABLE g \<longleftrightarrow> same_guest_page g' g"
proof -
  note wf = ept_new_leafD(1) [OF N]
  note pt = ept_new_leafD(2) [OF N]
  show ?thesis
    proof -
      have "u = pt \<longleftrightarrow> pt_path g' = pt_path g"
        using ept_wfD(3) [OF wf ept_path_simps(4) ept_path_simps(4), of g' u g] A pt by auto
      then show ?thesis using pt_path_eq [of g' g] by auto
    qed
qed

lemma new_leaf_inner_reads:
  assumes N: "ept_new_leaf m root T g pt h"
  shows "ept_tbl m root (pdpt_path g') = Some u \<Longrightarrow>
     read64 (ept_set_leaf m pt g h) (entry u (LINEAR_ADDRESS_GET_DIRECTORY_PTR g')) = read64 m (entry u (LINEAR_ADDRESS_GET_DIRECTORY_PTR g'))"
  "ept_tbl m root (pd_path g') = Some u \<Longrightarrow>
     read64 (ept_set_leaf m pt g h) (entry u (LINEAR_ADDRESS_GET_DIRECTORY g')) = read64 m (entry u (LINEAR_ADDRESS_GET_DIRECTORY g'))"
  by (rule new_leaf_rd_inner [OF N]; simp)+

lemma new_leaf_leaf_read:
  assumes N: "ept_new_leaf m root T g pt h"
    and A: "ept_tbl m root (pt_path g') = Some u"
  shows "read64 (ept_set_leaf m pt g h) (entry u (LINEAR_ADDRESS_GET_TABLE g')) =
    (if same_guest_page g' g then ept_entry h else read64 m (entry u (LINEAR_ADDRESS_GET_TABLE g')))"
proof -
  note wf = ept_new_leafD(1) [OF N]
  note rd = new_leaf_rd [OF N]
  note leaf_of = new_leaf_leaf_of [OF N]
  show ?thesis
    using rd [OF ept_wfD(1) [OF wf ept_path_simps(4) A], of "LINEAR_ADDRESS_GET_TABLE g'"] leaf_of [OF A]
      by simp
qed

lemma new_leaf_walk_other:
  assumes N: "ept_new_leaf m root T g pt h"
    and A: "\<not> same_guest_page g' g"
  shows "ept_walk (ept_set_leaf m pt g h) root g' = ept_walk m root g'"
proof -
  note wf = ept_new_leafD(1) [OF N]
  note tbl = new_leaf_tbl [OF N]
  note wf' = new_leaf_wf' [OF N]
  note inner_reads = new_leaf_inner_reads [OF N]
  note leaf_read = new_leaf_leaf_read [OF N]
  show ?thesis
    using A
    unfolding ept_walk_by_path [OF wf'] ept_walk_by_path [OF wf]
      using inner_reads leaf_read by (auto simp: tbl Let_def split: option.splits)
qed

lemma new_leaf_walk_same_page:
  assumes N: "ept_new_leaf m root T g pt h"
    and A: "same_guest_page g' g"
  shows "ept_walk (ept_set_leaf m pt g h) root g' = Some (h OR LINEAR_ADDRESS_GET_OFFSET g')" and "ept_walk m root g' = None"
proof -
  note wf = ept_new_leafD(1) [OF N]
  note pt = ept_new_leafD(2) [OF N]
  note absent = ept_new_leafD(3) [OF N]
  note h = ept_new_leafD(4) [OF N]
  note tbl = new_leaf_tbl [OF N]
  note wf' = new_leaf_wf' [OF N]
  note inner_reads = new_leaf_inner_reads [OF N]
  note leaf_read = new_leaf_leaf_read [OF N]
  have pt': "ept_tbl m root (pt_path g') = Some pt" using A pt pt_path_eq [of g' g] by simp
  then obtain pd where pd: "ept_tbl m root (pd_path g') = Some pd"
    and c2: "ept_child m pd (LINEAR_ADDRESS_GET_DIRECTORY g') = Some pt"
    by (auto simp: pt_path_def split: option.splits)
  then obtain pdpt where pdpt: "ept_tbl m root (pdpt_path g') = Some pdpt"
    and c3: "ept_child m pdpt (LINEAR_ADDRESS_GET_DIRECTORY_PTR g') = Some pd"
    by (auto simp: pd_path_def split: option.splits)
  have nl: "\<not> large_entry (read64 m (entry pdpt (LINEAR_ADDRESS_GET_DIRECTORY_PTR g')))"
    "\<not> large_entry (read64 m (entry pd (LINEAR_ADDRESS_GET_DIRECTORY g')))"
    using c2 c3 by (auto simp: ept_child_def Let_def large_entry_def split: if_splits)
  have abs: "\<not> ept_present (read64 m (entry pt (LINEAR_ADDRESS_GET_TABLE g')))"
    using A absent pt_path_eq [of g' g] by simp
  show "ept_walk (ept_set_leaf m pt g h) root g' = Some (h OR LINEAR_ADDRESS_GET_OFFSET g')"
    unfolding ept_walk_by_path [OF wf'] using inner_reads(1) [OF pdpt] inner_reads(2) [OF pd] leaf_read [OF pt'] A
    by (simp add: tbl pdpt pd pt' nl ept_entry_facts [OF h])
  show "ept_walk m root g' = None"
    unfolding ept_walk_by_path [OF wf] by (simp add: pdpt pd pt' nl abs)
qed

lemma new_leaf_walk:
  assumes N: "ept_new_leaf m root T g pt h"
  shows "ept_walk (ept_set_leaf m pt g h) root g' = (if same_guest_page g' g then Some (h OR LINEAR_ADDRESS_GET_OFFSET g')
     else ept_walk m root g')"
proof -
  note walk_other = new_leaf_walk_other [OF N]
  note walk_same_page = new_leaf_walk_same_page [OF N]
  show ?thesis
    using walk_other walk_same_page(1) by simp
qed

text \<open>The offset is added to the page.\<close>

lemma page_or_offset: "page_aligned h \<Longrightarrow> h OR LINEAR_ADDRESS_GET_OFFSET g = h + (g AND 0xfff)"
proof -
  assume h: "page_aligned h"
  have o: "LINEAR_ADDRESS_GET_OFFSET g = g AND 0xfff"
    by (simp add: LINEAR_ADDRESS_GET_OFFSET_def hv_const)
  have "h AND (g AND 0xfff) = 0" using h by (metis and.left_commute and.commute page_aligned_def and_zero_eq)
  then show ?thesis unfolding o by (intro disjunctive_add_eq_or [symmetric]) 
    (auto simp: bit_eq_iff bit_simps)
qed

end
