(* ===== verification/Ept_Map.thy ===== *)
theory Ept_Map
  imports Ept_Tables
begin

text \<open>
  The correctness of \<open>vmx_ept_map_page\<close>.  The invariant \<open>hv_ok\<close> adds to the ownership of pages that the
  reserved pool of every machine holds zero pages and that its tables are well formed within its own
  pages.  Mapping keeps it, changes exactly the walk of the mapped guest page, and leaves the other
  machines and the guest memory untouched.
\<close>

section \<open>The invariant\<close>

abbreviation ept_pages :: "vm_t \<Rightarrow> u64 multiset" where
  "ept_pages v \<equiv> kind_mset (VM_PAGE_TYPE_EPT, False) (tracked_pages v)"
abbreviation ept_pool :: "vm_t \<Rightarrow> u64 multiset" where
  "ept_pool v \<equiv> kind_mset (VM_PAGE_TYPE_EPT, True) (tracked_pages v)"
abbreviation guest_pages :: "vm_t \<Rightarrow> u64 multiset" where
  "guest_pages v \<equiv> kind_mset (VM_PAGE_TYPE_GUEST_PHYSICAL, False) (tracked_pages v)"
abbreviation vm_pages :: "vm_t \<Rightarrow> u64 multiset" where
  "vm_pages v \<equiv> pages_mset (tracked_pages v)"
abbreviation ept_initialized :: "vm_t \<Rightarrow> bool" where
  "ept_initialized v \<equiv> vm_flags v AND VM_T_FLAG_EPT_PML4_INITIALIZED \<noteq> 0"
abbreviation ept_root :: "vm_t \<Rightarrow> u64" where
  "ept_root v \<equiv> eptp (vmcs_config v)"

definition vm_mem_ok :: "phys_mem \<Rightarrow> vm_t \<Rightarrow> bool" where
  "vm_mem_ok m v \<longleftrightarrow> (\<forall>p \<in># ept_pool v. page_zero m p) \<and>
     (ept_initialized v \<longrightarrow> ept_wf m (ept_root v) (set_mset (ept_pages v)))"

definition hv_ok :: "hv_state \<Rightarrow> u64 list \<Rightarrow> bool" where
  "hv_ok s as \<longleftrightarrow> hv_inv s as \<and> (\<forall>vp v. get_vm s vp = Inr v \<longrightarrow> vm_mem_ok (phys s) v)"

lemma hv_ok_inv: "hv_ok s as \<Longrightarrow> hv_inv s as"
  by (simp add: hv_ok_def)

lemma hv_ok_vm: "hv_ok s as \<Longrightarrow> get_vm s vp = Inr v \<Longrightarrow> vm_mem_ok (phys s) v"
  by (simp add: hv_ok_def)

lemma kind_in_pages: "p \<in># kind_mset k (tracked_pages v) \<Longrightarrow> p \<in># vm_pages v"
  by (rule mset_subset_eqD [OF kind_mset_subset])

lemma vm_mem_ok_frame:
  assumes "vm_mem_ok m v" "\<And>p. p \<in># vm_pages v \<Longrightarrow> page_eq m m' p"
  shows "vm_mem_ok m' v"
  using assms(1) ept_wf_frame(1) [of m "ept_root v" "set_mset (ept_pages v)" m'] page_eq_zero kind_in_pages assms(2)
  unfolding vm_mem_ok_def by blast

section \<open>Two owners never share a page\<close>

lemma two_in_sum_list:
  fixes f :: "'a \<Rightarrow> 'b multiset"
  assumes "x \<in> set l" "y \<in> set l" "x \<noteq> y"
  shows "f x + f y \<subseteq># sum_list (map f l)"
  using assms
proof (induction l)
  case Nil
  then show ?case by simp
next
  case (Cons z l)
  have one: "f w \<subseteq># sum_list (map f l)" if "w \<in> set l" for w
    using that by (induction l) (auto intro: subset_mset.add_increasing subset_mset.add_increasing2)
  consider "x = z" "y \<in> set l" | "y = z" "x \<in> set l" | "x \<in> set l" "y \<in> set l" using Cons.prems by auto
  then show ?case
  proof cases
    case 1 with one show ?thesis by (simp add: subset_mset.add_left_mono)
  next
    case 2 with one show ?thesis by (simp add: add.commute [of "f x"] subset_mset.add_left_mono)
  next
    case 3 with Cons show ?thesis by (simp add: subset_mset.add_increasing)
  qed
qed

lemma count_le_one_disjoint:
  assumes "A + B \<subseteq># M" "\<And>p. count M p \<le> 1" "p \<in># A" "p \<in># B"
  shows False
proof -
  have "count A p + count B p \<le> count M p" using assms(1) by (metis count_union subseteq_mset_def)
  moreover have "0 < count A p" "0 < count B p" using assms(3,4) by simp_all
  ultimately show False using assms(2) [of p] by linarith
qed

lemma other_vm_pages:
  assumes "hv_inv s as" "get_vm s vp = Inr v" "get_vm s q = Inr w" "q \<noteq> vp" "p \<in># vm_pages v"
  shows "p \<notin># vm_pages w"
proof
  assume p: "p \<in># vm_pages w"
  have "vm_owned v + vm_owned w \<subseteq># sum_list (map (\<lambda>(vp, v). vm_owned v) (vm_manager_vm_list s))"
    using two_in_sum_list [OF get_vm_in_set [OF assms(2)] get_vm_in_set [OF assms(3)], of "\<lambda>(vp, v). vm_owned v"]
      assms(4) by auto
  then have "vm_owned v + vm_owned w \<subseteq># owned s as"
    unfolding owned_def by (rule subset_mset.add_increasing [rotated]) simp
  moreover have "count (owned s as) x \<le> 1" for x using assms(1) by (simp add: hv_inv_def)
  moreover have "p \<in># vm_owned v" "p \<in># vm_owned w" using p assms(5) by (auto simp: vm_owned_def)
  ultimately show False by (rule count_le_one_disjoint)
qed

lemma other_kind_pages:
  assumes "hv_inv s as" "get_vm s vp = Inr v" "k \<noteq> k'" "p \<in># kind_mset k (tracked_pages v)"
  shows "p \<notin># kind_mset k' (tracked_pages v)"
proof
  assume p: "p \<in># kind_mset k' (tracked_pages v)"
  have sub: "vm_pages v \<subseteq># owned s as"
    using subset_mset.order_trans [OF _ vm_owned_subset_owned [OF assms(2), of as], of "vm_pages v"]
    by (simp add: vm_owned_def)
  have count: "count (owned s as) x \<le> 1" for x using assms(1) by (simp add: hv_inv_def)
  show False
    by (rule count_le_one_disjoint [OF subset_mset.order_trans [OF kind_mset_disjoint [OF assms(3)] sub] count
      assms(4) p])
qed

lemma get_vm_phys [simp]: "get_vm (s\<lparr>phys := m\<rparr>) = get_vm s"
  by (simp add: get_vm_def fun_eq_iff)

lemma owned_phys [simp]: "owned (s\<lparr>phys := m\<rparr>) as = owned s as"
  by (simp add: owned_def)

lemma chainload_phys [simp]: "mm_page_used_by_chainload (s\<lparr>phys := m\<rparr>) = mm_page_used_by_chainload s"
  by (simp add: fun_eq_iff mm_page_used_by_chainload_def)

lemma hv_inv_phys: "hv_inv (s\<lparr>phys := m\<rparr>) as = hv_inv s as"
proof -
  have "mm_ok (s\<lparr>phys := m\<rparr>) as = mm_ok s as"
    by (simp add: mm_ok_def mm_position_ok_def arena_ok_def)
  moreover have "vms_ok (s\<lparr>phys := m\<rparr>) as = vms_ok s as" by (simp add: vms_ok_def arena_end_def)
  ultimately show ?thesis by (simp only: hv_inv_def owned_phys chainload_phys)
qed

section \<open>Frames\<close>

text \<open>
  What an operation on the tables of \<open>vp\<close> leaves alone: the other machines with the contents of their
  pages, and the guest pages of \<open>vp\<close> with their contents.
\<close>

definition ept_frame :: "u64 \<Rightarrow> hv_state \<Rightarrow> hv_state \<Rightarrow> bool" where
  "ept_frame vp s s' \<longleftrightarrow>
     (\<forall>q. q \<noteq> vp \<longrightarrow> get_vm s' q = get_vm s q) \<and>
     (\<forall>q w p. q \<noteq> vp \<and> get_vm s q = Inr w \<and> p \<in># vm_pages w \<longrightarrow> page_eq (phys s) (phys s') p) \<and>
     (\<forall>v. get_vm s vp = Inr v \<longrightarrow> (\<exists>v'. get_vm s' vp = Inr v' \<and> guest_pages v' = guest_pages v) \<and>
        (\<forall>p \<in># guest_pages v. page_eq (phys s) (phys s') p))"

lemma ept_frame_trans: "ept_frame vp s s' \<Longrightarrow> ept_frame vp s' s'' \<Longrightarrow> ept_frame vp s s''"
  unfolding ept_frame_def
proof (intro conjI allI impI; (elim conjE)?)
  assume a: "\<forall>q. q \<noteq> vp \<longrightarrow> get_vm s' q = get_vm s q" "\<forall>q. q \<noteq> vp \<longrightarrow> get_vm s'' q = get_vm s' q"
    and b: "\<forall>q w p. q \<noteq> vp \<and> get_vm s q = Inr w \<and> p \<in># vm_pages w \<longrightarrow> page_eq (phys s) (phys s') p"
      "\<forall>q w p. q \<noteq> vp \<and> get_vm s' q = Inr w \<and> p \<in># vm_pages w \<longrightarrow> page_eq (phys s') (phys s'') p"
    and c: "\<forall>v. get_vm s vp = Inr v \<longrightarrow> (\<exists>v'. get_vm s' vp = Inr v' \<and> guest_pages v' = guest_pages v) \<and>
        (\<forall>p \<in># guest_pages v. page_eq (phys s) (phys s') p)"
      "\<forall>v. get_vm s' vp = Inr v \<longrightarrow> (\<exists>v'. get_vm s'' vp = Inr v' \<and> guest_pages v' = guest_pages v) \<and>
        (\<forall>p \<in># guest_pages v. page_eq (phys s') (phys s'') p)"
  show "get_vm s'' q = get_vm s q" if "q \<noteq> vp" for q using a that by simp
  show "page_eq (phys s) (phys s'') p" if "q \<noteq> vp" "get_vm s q = Inr w" "p \<in># vm_pages w" for q w p
    using a(1) b that page_eq_trans by metis
  fix v assume v: "get_vm s vp = Inr v"
  then obtain v' where v': "get_vm s' vp = Inr v'" "guest_pages v' = guest_pages v" using c(1) by blast
  then show "\<exists>v'. get_vm s'' vp = Inr v' \<and> guest_pages v' = guest_pages v" using c(2) by metis
  show "\<forall>p \<in># guest_pages v. page_eq (phys s) (phys s'') p"
    using c v v' page_eq_trans by metis
qed

lemma ept_frame_refl: "get_vm s vp = Inr v \<Longrightarrow> ept_frame vp s s"
  by (simp add: ept_frame_def)

text \<open>The state record: what \<open>put_vm\<close> and the arena heap do to the machines.\<close>

lemma get_vm_put_arena:
  assumes "get_vm s vp = Inr v"
  shows "get_vm (put_vm vp v' (s\<lparr>arena_heap := h\<rparr>)) q = (if q = vp then Inr v' else get_vm s q)"
proof -
  have "get_vm (s\<lparr>arena_heap := h\<rparr>) = get_vm s" by (simp add: get_vm_def fun_eq_iff)
  with get_put_vm [of "s\<lparr>arena_heap := h\<rparr>" vp v v' q] assms show ?thesis by simp
qed

lemma hv_ok_put_vm:
  assumes "hv_ok s as" "get_vm s vp = Inr v" "hv_inv (put_vm vp v' (s\<lparr>arena_heap := h\<rparr>)) as" "vm_mem_ok (phys s) v'"
  shows "hv_ok (put_vm vp v' (s\<lparr>arena_heap := h\<rparr>)) as"
  using assms unfolding hv_ok_def by (auto simp: get_vm_put_arena split: if_splits)

section \<open>Taking and tracking a page\<close>

text \<open>A page nobody owns may be written: nothing that the invariant speaks of changes.\<close>

lemma unowned_page_other: "n \<notin># owned s as \<Longrightarrow> get_vm s q = Inr w \<Longrightarrow> p \<in># vm_pages w \<Longrightarrow> p \<noteq> n"
  using tracked_owned by blast

lemma hv_ok_phys:
  assumes "hv_ok s as" "\<And>q w p. get_vm s q = Inr w \<Longrightarrow> p \<in># vm_pages w \<Longrightarrow> page_eq (phys s) m p"
  shows "hv_ok (s\<lparr>phys := m\<rparr>) as"
  using assms vm_mem_ok_frame unfolding hv_ok_def hv_inv_phys by fastforce

lemma get_free_zero_page_ok:
  assumes "bnd (mm_get_free_page s) (\<lambda>(page, s). Inr (page, s\<lparr>phys := memset page 0 (unat PAGE_SIZE) (phys s)\<rparr>))
      = Inr (n, s1)" "hv_ok s as"
  shows "hv_ok s1 as" "get_vm s1 = get_vm s" "owned s1 as = owned s as"
    "mm_page_used_by_chainload s1 = mm_page_used_by_chainload s"
    "phys_page n" "n \<notin># owned s as" "\<not> mm_page_used_by_chainload s n"
    "page_zero (phys s1) n" "\<And>p. page_aligned p \<Longrightarrow> p \<noteq> n \<Longrightarrow> page_eq (phys s) (phys s1) p"
    "vm_manager_arena s1 = vm_manager_arena s"
proof -
  obtain s0 where s0: "mm_get_free_page s = Inr (n, s0)"
    and s1: "s1 = s0\<lparr>phys := memset n 0 (unat PAGE_SIZE) (phys s0)\<rparr>"
    using assms(1) by (auto simp: bnd_Inr_iff)
  obtain r i where s0': "s0 = s\<lparr>last_returned_region_index := r, last_returned_page_index := i\<rparr>"
    and n: "phys_page n" "n \<notin># owned s as" "\<not> mm_page_used_by_chainload s n" "hv_inv s0 as"
    by (rule mm_get_free_page_unowned [OF s0 hv_ok_inv [OF assms(2)]])
  have same: "get_vm s0 = get_vm s" "owned s0 as = owned s as" "phys s0 = phys s"
    "mm_page_used_by_chainload s0 = mm_page_used_by_chainload s"
    by (simp_all add: s0' get_vm_def owned_def fun_eq_iff mm_page_used_by_chainload_def)
  have sz: "unat PAGE_SIZE = 4096" by (simp add: hv_const)
  show pe: "page_eq (phys s) (phys s1) p" if "page_aligned p" "p \<noteq> n" for p
    using page_eq_sym [OF page_eq_memset [of n p 0 "phys s"]] that n(1) by (simp add: s1 same sz)
  have ok0: "hv_ok s0 as" using assms(2) n(4) same by (simp add: hv_ok_def)
  have pa: "page_aligned p" if "get_vm s q = Inr w" "p \<in># vm_pages w" for q w p
    using tracked_owned [OF that, of as] assms(2) by (simp add: hv_ok_def hv_inv_def)
  show "hv_ok s1 as"
    unfolding s1 using ok0
  proof (rule hv_ok_phys)
    fix q w p assume "get_vm s0 q = Inr w" "p \<in># vm_pages w"
    then have "page_aligned p" "p \<noteq> n" using pa same(1) n(2) unowned_page_other by auto
    then show "page_eq (phys s0) (memset n 0 (unat PAGE_SIZE) (phys s0)) p"
      using pe by (simp add: s1 same)
  qed
  show "page_zero (phys s1) n" using page_zero_memset by (simp add: s1 sz)
  show "get_vm s1 = get_vm s" "owned s1 as = owned s as"
    "mm_page_used_by_chainload s1 = mm_page_used_by_chainload s" "phys_page n" "n \<notin># owned s as"
    "\<not> mm_page_used_by_chainload s n" "vm_manager_arena s1 = vm_manager_arena s"
    using n same by (simp_all add: s1 s0')
qed

lemma adds_page_kinds:
  assumes "adds_page k p l l'"
  shows "kind_mset k l' = add_mset p (kind_mset k l)" "k' \<noteq> k \<Longrightarrow> kind_mset k' l' = kind_mset k' l"
  using assms by (simp_all add: adds_page_def del: split_paired_All)

text \<open>
  \<open>ept_take_page\<close>: the page it returns is zero, belongs to nobody any more and differs from every table;
  the memory changes at most in that page.
\<close>

definition ept_took :: "u64 \<Rightarrow> hv_state \<Rightarrow> u64 list \<Rightarrow> vm_t \<Rightarrow> u64 \<Rightarrow> vm_page_list_t list \<Rightarrow> hv_state \<Rightarrow> bool" where
  "ept_took vp s as v n l s1 \<longleftrightarrow> hv_ok s1 as \<and> get_vm s1 vp = Inr (v\<lparr>tracked_pages := l\<rparr>) \<and>
     (\<forall>q. q \<noteq> vp \<longrightarrow> get_vm s1 q = get_vm s q) \<and>
     (\<forall>k. k \<noteq> (VM_PAGE_TYPE_EPT, True) \<longrightarrow> kind_mset k l = kind_mset k (tracked_pages v)) \<and>
     phys_page n \<and> n \<notin># owned s1 as \<and> \<not> mm_page_used_by_chainload s1 n \<and> page_zero (phys s1) n \<and>
     (\<forall>p. page_aligned p \<longrightarrow> p \<noteq> n \<longrightarrow> page_eq (phys s) (phys s1) p) \<and>
     n \<notin># ept_pages v \<and> n \<notin># guest_pages v \<and> (\<forall>q w. q \<noteq> vp \<longrightarrow> get_vm s q = Inr w \<longrightarrow> n \<notin># vm_pages w)"

lemma ept_tookD:
  assumes "ept_took vp s as v n l s1"
  shows "hv_ok s1 as" "get_vm s1 vp = Inr (v\<lparr>tracked_pages := l\<rparr>)" "\<And>q. q \<noteq> vp \<Longrightarrow> get_vm s1 q = get_vm s q"
    "\<And>k. k \<noteq> (VM_PAGE_TYPE_EPT, True) \<Longrightarrow> kind_mset k l = kind_mset k (tracked_pages v)"
    "phys_page n" "n \<notin># owned s1 as" "\<not> mm_page_used_by_chainload s1 n" "page_zero (phys s1) n"
    "\<And>p. page_aligned p \<Longrightarrow> p \<noteq> n \<Longrightarrow> page_eq (phys s) (phys s1) p"
    "n \<notin># ept_pages v" "n \<notin># guest_pages v" "\<And>q w. q \<noteq> vp \<Longrightarrow> get_vm s q = Inr w \<Longrightarrow> n \<notin># vm_pages w"
  using assms unfolding ept_took_def by blast+

lemma ept_take_page_ok:
  assumes "ept_take_page vp s = Inr (n, s1)" "hv_ok s as" "get_vm s vp = Inr v"
  obtains l where "ept_took vp s as v n l s1"
proof -
  obtain r s0 where u: "vm_manager_untrack_page_from_reserved_pool vp VM_PAGE_TYPE_EPT s = Inr (r, s0)"
    and rest: "(case r of Some page \<Rightarrow> Inr (page, s0) | None \<Rightarrow> vmx_get_free_ept_page s0) = Inr (n, s1)"
    using assms(1) by (auto simp: ept_take_page_def vm_manager_untrack_ept_page_from_reserved_pool_def bnd_Inr_iff)
  note inv = hv_ok_inv [OF assms(2)]
  from u inv show ?thesis
  proof (cases rule: vm_manager_untrack_ok)
    case (none v0)
    then have f: "bnd (mm_get_free_page s) (\<lambda>(page, s). Inr (page, s\<lparr>phys := memset page 0 (unat PAGE_SIZE) (phys s)\<rparr>))
      = Inr (n, s1)" using rest by (simp add: vmx_get_free_ept_page_def)
    note g = get_free_zero_page_ok [OF f assms(2)]
    have nv: "n \<notin># vm_pages w" if "get_vm s q = Inr w" for q w using tracked_owned [OF that] g(6) by blast
    have "n \<notin># ept_pages v" "n \<notin># guest_pages v" using nv [OF assms(3)] kind_in_pages by blast+
    with g assms(3) nv show ?thesis by (intro that [of "tracked_pages v"]) (simp add: ept_took_def)
  next
    case (some v0 p l)
    then have v0: "v0 = v" and n: "n = p" "s1 = s0" using assms(3) rest by auto
    have s0: "s0 = put_vm vp (v\<lparr>tracked_pages := l\<rparr>) (s\<lparr>arena_heap := arena_heap s\<rparr>)" using some(3) v0 by simp
    have gv: "get_vm s0 q = (if q = vp then Inr (v\<lparr>tracked_pages := l\<rparr>) else get_vm s q)" for q
      unfolding s0 by (rule get_vm_put_arena [OF assms(3)])
    note add = adds_page_kinds [OF some(4)[unfolded v0]]
    have pool: "p \<in># ept_pool v" using add(1) by simp
    have mem: "vm_mem_ok (phys s) v" by (rule hv_ok_vm [OF assms(2,3)])
    have "vm_mem_ok (phys s) (v\<lparr>tracked_pages := l\<rparr>)"
      using mem add(1) add(2) [of "(VM_PAGE_TYPE_EPT, False)"] by (simp add: vm_mem_ok_def)
    then have ok: "hv_ok s0 as"
      using hv_ok_put_vm [OF assms(2,3) some(5)[unfolded s0]] unfolding s0 by blast
    have ph: "phys s0 = phys s" by (simp add: s0)
    have "page_zero (phys s1) n" using mem pool n ph by (simp add: vm_mem_ok_def)
    moreover have "n \<notin># ept_pages v" "n \<notin># guest_pages v"
      using other_kind_pages [OF inv assms(3) _ pool] n by simp_all
    moreover have "n \<notin># vm_pages w" if "q \<noteq> vp" "get_vm s q = Inr w" for q w
      using other_vm_pages [OF inv assms(3) that(2,1)] kind_in_pages [OF pool] n by simp
    moreover have "kind_mset k l = kind_mset k (tracked_pages v)" if "k \<noteq> (VM_PAGE_TYPE_EPT, True)" for k
      using add(2) [OF that] by simp
    ultimately have "ept_took vp s as v n l s1"
      using some ok gv n ph unfolding ept_took_def by auto
    then show ?thesis by (rule that)
  qed
qed

definition vm_tracked :: "u64 \<Rightarrow> hv_state \<Rightarrow> u64 list \<Rightarrow> vm_t \<Rightarrow> vm_page_type_t \<times> bool \<Rightarrow> u64 \<Rightarrow>
    vm_page_list_t list \<Rightarrow> hv_state \<Rightarrow> bool" where
  "vm_tracked vp s as v k n l s' \<longleftrightarrow> hv_ok s' as \<and> get_vm s' vp = Inr (v\<lparr>tracked_pages := l\<rparr>) \<and>
     (\<forall>q. q \<noteq> vp \<longrightarrow> get_vm s' q = get_vm s q) \<and> adds_page k n (tracked_pages v) l \<and> phys s' = phys s \<and>
     owned s' as = add_mset n (owned s as) \<and> mm_page_used_by_chainload s' = mm_page_used_by_chainload s"

lemma vm_trackedD:
  assumes "vm_tracked vp s as v k n l s'"
  shows "hv_ok s' as" "get_vm s' vp = Inr (v\<lparr>tracked_pages := l\<rparr>)" "\<And>q. q \<noteq> vp \<Longrightarrow> get_vm s' q = get_vm s q"
    "adds_page k n (tracked_pages v) l" "phys s' = phys s" "owned s' as = add_mset n (owned s as)"
    "mm_page_used_by_chainload s' = mm_page_used_by_chainload s"
  using assms unfolding vm_tracked_def by blast+

lemma vm_manager_track_page_hv_ok:
  assumes "vm_manager_track_page vp n ty res s = Inr s'" "hv_ok s as" "get_vm s vp = Inr v"
    "phys_page n" "n \<notin># owned s as" "\<not> mm_page_used_by_chainload s n"
    and "ty = VM_PAGE_TYPE_EPT \<and> res \<Longrightarrow> page_zero (phys s) n"
  obtains l where "vm_tracked vp s as v (ty, res) n l s'"
proof -
  obtain v0 l h where t: "get_vm s vp = Inr v0" "adds_page (ty, res) n (tracked_pages v0) l"
    "s' = put_vm vp (v0\<lparr>tracked_pages := l\<rparr>) (s\<lparr>arena_heap := h\<rparr>)" "hv_inv s' as" "owned s' as = add_mset n (owned s as)"
    by (rule vm_manager_track_page_ok [OF assms(1) hv_ok_inv [OF assms(2)] assms(4-6)])
  have v0: "v0 = v" using t(1) assms(3) by simp
  have gv: "get_vm s' q = (if q = vp then Inr (v\<lparr>tracked_pages := l\<rparr>) else get_vm s q)" for q
    unfolding t(3) v0 by (rule get_vm_put_arena [OF assms(3)])
  have add: "kind_mset k l = (if k = (ty, res) then add_mset n (kind_mset k (tracked_pages v)) else kind_mset k (tracked_pages v))" for k
    using t(2) v0 by (simp add: adds_page_def del: split_paired_All)
  have mem: "vm_mem_ok (phys s) v" by (rule hv_ok_vm [OF assms(2,3)])
  then have "vm_mem_ok (phys s) (v\<lparr>tracked_pages := l\<rparr>)"
    using assms(7) ept_wf_mono [of "phys s" "ept_root v" "set_mset (ept_pages v)"]
    by (auto simp: vm_mem_ok_def add)
  then have "hv_ok s' as" using hv_ok_put_vm [OF assms(2,3)] t(3,4) v0 by simp
  moreover have "mm_page_used_by_chainload s' = mm_page_used_by_chainload s"
    by (simp add: t(3) fun_eq_iff mm_page_used_by_chainload_def)
  ultimately have "vm_tracked vp s as v (ty, res) n l s'" using gv t v0 by (simp add: vm_tracked_def)
  then show ?thesis by (rule that)
qed

text \<open>Writing an entry of a table of \<open>vp\<close>.\<close>

lemma owned_page_aligned: "hv_ok s as \<Longrightarrow> get_vm s q = Inr w \<Longrightarrow> p \<in># vm_pages w \<Longrightarrow> page_aligned p"
  using tracked_owned [of s q w p as] by (simp add: hv_ok_def hv_inv_def)

lemma hv_ok_write_table:
  assumes "hv_ok s as" "get_vm s vp = Inr v" "t \<in># ept_pages v" "unat i < 512"
    and "ept_wf (write64 (phys s) (entry t i) e) (ept_root v) (set_mset (ept_pages v))"
  shows "hv_ok (s\<lparr>phys := write64 (phys s) (entry t i) e\<rparr>) as"
    and "ept_frame vp s (s\<lparr>phys := write64 (phys s) (entry t i) e\<rparr>)"
proof -
  let ?m = "write64 (phys s) (entry t i) e"
  note inv = hv_ok_inv [OF assms(1)]
  note tv = kind_in_pages [OF assms(3)]
  have pe: "page_eq (phys s) ?m p" if "get_vm s q = Inr w" "p \<in># vm_pages w" "p \<noteq> t" for q w p
    using page_eq_sym [OF page_eq_write64_entry [of t p i "phys s" e]]
      owned_page_aligned [OF assms(1,2) tv] owned_page_aligned [OF assms(1) that(1,2)] that(3) assms(4) by simp
  have other: "p \<noteq> t" if "get_vm s q = Inr w" "q \<noteq> vp" "p \<in># vm_pages w" for q w p
    using other_vm_pages [OF inv assms(2) that(1,2) tv] that(3) by blast
  have kinds: "p \<noteq> t" if "p \<in># kind_mset k (tracked_pages v)" "k \<noteq> (VM_PAGE_TYPE_EPT, False)" for p k
    using other_kind_pages [OF inv assms(2) _ assms(3), of k] that by blast
  have "vm_mem_ok ?m w" if q: "get_vm s q = Inr w" for q w
  proof (cases "q = vp")
    case False
    have "page_eq (phys s) ?m p" if "p \<in># vm_pages w" for p
      using pe [OF q that] other [OF q False that] by blast
    then show ?thesis using vm_mem_ok_frame [OF hv_ok_vm [OF assms(1) q]] by blast
  next
    case True
    with q assms(2) have w: "w = v" by simp
    have "page_zero ?m p" if "p \<in># ept_pool v" for p
    proof -
      have "page_eq (phys s) ?m p" by (rule pe [OF assms(2) kind_in_pages [OF that] kinds [OF that]]) simp
      moreover have "page_zero (phys s) p" using hv_ok_vm [OF assms(1,2)] that by (simp add: vm_mem_ok_def)
      ultimately show ?thesis by (rule page_eq_zero)
    qed
    with w assms(5) show ?thesis by (simp add: vm_mem_ok_def)
  qed
  with inv show "hv_ok (s\<lparr>phys := ?m\<rparr>) as" by (simp add: hv_ok_def hv_inv_phys)
  have "page_eq (phys s) ?m p" if "p \<in># guest_pages v" for p
    by (rule pe [OF assms(2) kind_in_pages [OF that] kinds [OF that]]) simp
  moreover have "page_eq (phys s) ?m p" if "q \<noteq> vp" "get_vm s q = Inr w" "p \<in># vm_pages w" for q w p
    using pe [OF that(2,3)] other [OF that(2,1,3)] by blast
  ultimately show "ept_frame vp s (s\<lparr>phys := ?m\<rparr>)" using assms(2) by (auto simp: ept_frame_def)
qed

lemma ept_page_frame:
  assumes "hv_ok s as" "get_vm s vp = Inr v" "get_vm s' vp = Inr v'" "guest_pages v' = guest_pages v"
    and "\<And>q. q \<noteq> vp \<Longrightarrow> get_vm s' q = get_vm s q"
    and "\<And>p. page_aligned p \<Longrightarrow> p \<noteq> n \<Longrightarrow> page_eq (phys s) (phys s') p"
    and "n \<notin># guest_pages v" "\<And>q w. q \<noteq> vp \<Longrightarrow> get_vm s q = Inr w \<Longrightarrow> n \<notin># vm_pages w"
  shows "ept_frame vp s s'"
proof -
  have "page_eq (phys s) (phys s') p" if "p \<in># guest_pages v" for p
    using assms(6) [OF owned_page_aligned [OF assms(1,2) kind_in_pages [OF that]]] that assms(7) by blast
  moreover have "page_eq (phys s) (phys s') p" if "q \<noteq> vp" "get_vm s q = Inr w" "p \<in># vm_pages w" for q w p
    using assms(6) [OF owned_page_aligned [OF assms(1) that(2,3)]] assms(8) [OF that(1,2)] that(3) by blast
  ultimately show ?thesis using assms(2-5) by (auto simp: ept_frame_def)
qed

section \<open>The steps of \<open>vmx_ept_map_page\<close>\<close>

lemma ept_map_next_ok:
  assumes "ept_map_next vp chk t i s = Inr (t', s')" "hv_ok s as" "get_vm s vp = Inr v" "ept_initialized v"
    and "ept_tbl (phys s) (ept_root v) p = Some t" "ept_path (i # p)" "chk \<or> p = []"
  obtains l where "hv_ok s' as" "get_vm s' vp = Inr (v\<lparr>tracked_pages := l\<rparr>)"
    "ept_tbl (phys s') (ept_root v) (i # p) = Some t'"
    "\<And>g. ept_walk (phys s') (ept_root v) g = ept_walk (phys s) (ept_root v) g" "ept_frame vp s s'"
proof -
  let ?r = "ept_root v" and ?T = "set_mset (ept_pages v)" and ?e = "read64 (phys s) (entry t i)"
  have i: "unat i < 512" and p: "ept_path p" using assms(6) by (simp_all add: ept_path_Cons)
  have wf: "ept_wf (phys s) ?r ?T"
    using hv_ok_vm [OF assms(2,3)] assms(4) by (simp add: vm_mem_ok_def)
  have tT: "t \<in># ept_pages v" using ept_wfD(2) [OF wf p assms(5)] .
  show ?thesis
  proof (cases "ept_present ?e")
    case True
    have "\<not> ept_large ?e"
      using ept_wfD(4) [OF wf i] True assms(1,5,7) by (auto simp: ept_map_next_def Let_def split: if_splits)
    with True assms(1) have s': "s' = s" "t' = ?e AND EPT_PTE_PHYSICAL_ADDRESS_PAGE"
      by (auto simp: ept_map_next_def Let_def)
    have "ept_tbl (phys s) ?r (i # p) = Some t'"
      using assms(5) True \<open>\<not> ept_large ?e\<close> s' by (simp add: ept_child_def)
    then show ?thesis using s' assms(2,3) ept_frame_refl [OF assms(3)] by (intro that [of "tracked_pages v"]) simp_all
  next
    case False
    then obtain n s1 s2 where take: "ept_take_page vp s = Inr (n, s1)"
      and track: "vm_manager_track_page vp n VM_PAGE_TYPE_EPT False s1 = Inr s2"
      and s': "t' = n" "s' = s2\<lparr>phys := ept_link (phys s2) t i n\<rparr>"
      using assms(1) by (auto simp: ept_map_next_def Let_def bnd_Inr_iff vm_manager_track_ept_page_def ept_link_def)
    obtain l1 where "ept_took vp s as v n l1 s1" by (rule ept_take_page_ok [OF take assms(2,3)])
    note t1 = ept_tookD [OF this]
    have "VM_PAGE_TYPE_EPT = VM_PAGE_TYPE_EPT \<and> False \<Longrightarrow> page_zero (phys s1) n" by simp
    from vm_manager_track_page_hv_ok [OF track t1(1,2,5,6,7) this] obtain l where
      t2': "vm_tracked vp s1 as (v\<lparr>tracked_pages := l1\<rparr>) (VM_PAGE_TYPE_EPT, False) n l s2" by blast
    note t2 = vm_trackedD [OF t2', simplified]
    have ept: "kind_mset (VM_PAGE_TYPE_EPT, False) l = add_mset n (ept_pages v)"
      "kind_mset (VM_PAGE_TYPE_GUEST_PHYSICAL, False) l = guest_pages v"
      using adds_page_kinds [OF t2(4)] t1(4) by simp_all
    have same: "page_eq (phys s) (phys s2) u" if "u \<in> ?T" for u
    proof -
      have "page_aligned u" by (rule owned_page_aligned [OF assms(2,3) kind_in_pages [OF that]])
      moreover have "u \<noteq> n" using that t1(10) by blast
      ultimately show ?thesis using t1(9) t2(5) by simp
    qed
    have wf2: "ept_wf (phys s2) ?r ?T" and walk2: "ept_walk (phys s2) ?r g = ept_walk (phys s) ?r g" for g
      using ept_wf_frame [OF wf same] by blast+
    have N: "ept_new_table (phys s2) ?r ?T p t i n"
      using wf2 assms(6) ept_tbl_frame [OF wf same p] assms(5) False page_eq_read64 [OF same [OF tT] i] t1(5,8,10) t2(5)
      by (simp add: ept_new_table_def)
    have f1: "ept_frame vp s s2"
    proof (rule ept_page_frame [OF assms(2,3) t2(2), where n = n])
      show "get_vm s2 q = get_vm s q" if "q \<noteq> vp" for q using t1(3) t2(3) that by simp
      show "page_eq (phys s) (phys s2) p" if "page_aligned p" "p \<noteq> n" for p using t1(9) that t2(5) by simp
    qed (use t1(11,12) ept(2) in simp_all)
    note wr = hv_ok_write_table [OF t2(1,2), of t i "ept_entry n"]
    show ?thesis
    proof (rule that [of l])
      show "hv_ok s' as" unfolding s'(2) ept_link_def
        by (rule wr(1)) (use tT ept i new_table_wf' [OF N] in \<open>simp_all add: ept_link_def\<close>)
      show "ept_frame vp s s'" unfolding s'(2) ept_link_def
        by (rule ept_frame_trans [OF f1 wr(2)]) (use tT ept i new_table_wf' [OF N] in \<open>simp_all add: ept_link_def\<close>)
      show "ept_tbl (phys s') ?r (i # p) = Some t'" using new_table_tbl [OF N assms(6)] s' by simp
      show "ept_walk (phys s') ?r g = ept_walk (phys s) ?r g" for g
        using new_table_walk_same [OF N] walk2 s' by simp
      show "get_vm s' vp = Inr (v\<lparr>tracked_pages := l\<rparr>)" using t2(2) s' by simp
    qed
  qed
qed

lemma vmx_ept_get_host_physical_address_walk:
  "get_vm s vp = Inr v \<Longrightarrow> vmx_ept_get_host_physical_address s vp g = Inr (vm_walk (phys s) v g)"
  by (simp add: vmx_ept_get_host_physical_address_def)

lemma vm_walk_ept: "ept_initialized v \<Longrightarrow> vm_walk m v g = ept_walk m (ept_root v) g"
  by (simp add: vm_walk_def)

lemma ept_zero_root:
  assumes "page_zero m n" "phys_page n" "n \<in> T"
  shows "ept_wf m n T" "ept_walk m n g = None"
proof -
  have rd: "read64 m (entry n i) = 0" if "unat i < 512" for i by (rule page_zero_read64 [OF assms(1) that])
  have tbl: "ept_tbl m n p = (if p = [] then Some n else None)" if "ept_path p" for p
    using that by (induction p) (auto simp: ept_path_Cons ept_child_def rd split: if_splits)
  show "ept_wf m n T"
    unfolding ept_wf_def using assms(2,3) tbl rd by (auto split: if_splits)
  show "ept_walk m n g = None" by (simp add: ept_walk_def rd)
qed

lemma ept_flag_nonzero [simp]: "VM_T_FLAG_EPT_PML4_INITIALIZED \<noteq> 0"
  by (simp add: hv_const)

lemma flag_or: "f AND VM_T_FLAG_EPT_PML4_INITIALIZED \<noteq> 0 \<Longrightarrow> f OR VM_T_FLAG_EPT_PML4_INITIALIZED = f"
  "(f OR VM_T_FLAG_EPT_PML4_INITIALIZED) AND VM_T_FLAG_EPT_PML4_INITIALIZED \<noteq> 0"
  "(f OR VM_T_FLAG_EPT_PML4_INITIALIZED) AND VM_T_FLAG_VMCS_INITIALIZED = f AND VM_T_FLAG_VMCS_INITIALIZED"
proof -
  have b: "(f AND 2 \<noteq> 0) = bit f 1" using bit_iff_and_push_bit_not_eq_0 [of f 1] by simp
  have two: "bit (2 :: u64) n \<longleftrightarrow> n = 1" for n by (cases n) (auto simp: bit_numeral_rec bit_1_iff simp flip: bit_Suc)
  show "f AND VM_T_FLAG_EPT_PML4_INITIALIZED \<noteq> 0 \<Longrightarrow> f OR VM_T_FLAG_EPT_PML4_INITIALIZED = f"
    unfolding hv_const b by (rule bit_word_eqI) (auto simp: bit_simps two)
  show "(f OR VM_T_FLAG_EPT_PML4_INITIALIZED) AND VM_T_FLAG_EPT_PML4_INITIALIZED \<noteq> 0"
    unfolding hv_const by (simp add: bit.conj_disj_distrib2)
  show "(f OR VM_T_FLAG_EPT_PML4_INITIALIZED) AND VM_T_FLAG_VMCS_INITIALIZED = f AND VM_T_FLAG_VMCS_INITIALIZED"
    unfolding hv_const by (simp add: bit.conj_disj_distrib2)
qed

definition vm_with_ept :: "vm_t \<Rightarrow> u64 \<Rightarrow> vm_page_list_t list \<Rightarrow> vm_t" where
  "vm_with_ept v r l = v\<lparr>tracked_pages := l, vmcs_config := (vmcs_config v)\<lparr>eptp := r\<rparr>,
     vm_flags := vm_flags v OR VM_T_FLAG_EPT_PML4_INITIALIZED\<rparr>"

lemma vm_with_ept_simps [simp]:
  "tracked_pages (vm_with_ept v r l) = l" "ept_root (vm_with_ept v r l) = r" "ept_initialized (vm_with_ept v r l)"
  "vm_flags (vm_with_ept v r l) = vm_flags v OR VM_T_FLAG_EPT_PML4_INITIALIZED"
  "vmcs_region (vm_with_ept v r l) = vmcs_region v"
  "guest_physical_pages (vm_with_ept v r l) = guest_physical_pages v"
  "(vm_with_ept v r l)\<lparr>tracked_pages := l'\<rparr> = vm_with_ept v r l'"
  by (simp_all add: vm_with_ept_def flag_or)

lemma vm_with_ept_id: "ept_initialized v \<Longrightarrow> vm_with_ept v (ept_root v) l = v\<lparr>tracked_pages := l\<rparr>"
  by (simp add: vm_with_ept_def flag_or)

lemma ept_map_root_ok:
  assumes "ept_map_root vp s = Inr (r, s')" "hv_ok s as" "get_vm s vp = Inr v"
  obtains l where "hv_ok s' as" "get_vm s' vp = Inr (vm_with_ept v r l)"
    "\<And>g. ept_walk (phys s') r g = vm_walk (phys s) v g" "ept_frame vp s s'"
proof (cases "ept_initialized v")
  case True
  then have "s' = s" "r = ept_root v" using assms(1,3) by (simp_all add: ept_map_root_def)
  with True that [of "tracked_pages v"] vm_with_ept_id [OF True, of "tracked_pages v"] assms ept_frame_refl [OF assms(3)]
  show ?thesis by (simp add: vm_walk_def)
next
  case False
  then obtain s1 v1 where take: "ept_take_page vp s = Inr (r, s1)" and g1: "get_vm s1 vp = Inr v1"
    and track: "vm_manager_track_page vp r VM_PAGE_TYPE_EPT False
      (put_vm vp (v1\<lparr>vmcs_config := (vmcs_config v1)\<lparr>eptp := r\<rparr>,
         vm_flags := vm_flags v1 OR VM_T_FLAG_EPT_PML4_INITIALIZED\<rparr>) s1) = Inr s'"
    using assms(1,3) by (auto simp: ept_map_root_def bnd_Inr_iff Let_def vm_manager_track_ept_page_def)
  obtain l1 where "ept_took vp s as v r l1 s1" by (rule ept_take_page_ok [OF take assms(2,3)])
    note t1 = ept_tookD [OF this]
  have v1: "v1 = v\<lparr>tracked_pages := l1\<rparr>" using g1 t1(2) by simp
  let ?v = "vm_with_ept v r" and ?sP = "put_vm vp (vm_with_ept v r l1) (s1\<lparr>arena_heap := arena_heap s1\<rparr>)"
  note inv1 = hv_ok_inv [OF t1(1)]
  have pl: "\<forall>pl \<in> set l1. pl_ok pl"
    using inv1 get_vm_in_set [OF t1(2)] by (auto simp: hv_inv_def vms_ok_def)
  have same_owned: "owned s1 as + vm_owned (?v l1) = owned s1 as + vm_owned (v\<lparr>tracked_pages := l1\<rparr>)"
    by (simp add: vm_owned_def flag_or)
  have cnt: "count (owned s1 as) p \<le> 1" for p using inv1 by (simp add: hv_inv_def)
  have phy: "p \<in># owned s1 as \<Longrightarrow> phys_page p \<and> \<not> mm_page_used_by_chainload s1 p" for p
    using inv1 by (simp add: hv_inv_def)
  have P: "hv_inv ?sP as" "owned ?sP as = owned s1 as"
    by (rule hv_inv_change_vm [OF inv1 t1(2) arena_grows_refl [OF inv1] _ same_owned cnt phy]; use pl in simp)+
  have gP: "get_vm ?sP q = (if q = vp then Inr (?v l1) else get_vm s1 q)" for q
    by (rule get_vm_put_arena [OF t1(2)])
  have trackP: "vm_manager_track_page vp r VM_PAGE_TYPE_EPT False ?sP = Inr s'"
    using track v1 by (simp add: vm_with_ept_def)
  have chP: "mm_page_used_by_chainload ?sP = mm_page_used_by_chainload s1"
    by (simp add: fun_eq_iff mm_page_used_by_chainload_def)
  obtain v2 l h where t2: "get_vm ?sP vp = Inr v2" "adds_page (VM_PAGE_TYPE_EPT, False) r (tracked_pages v2) l"
    "s' = put_vm vp (v2\<lparr>tracked_pages := l\<rparr>) (?sP\<lparr>arena_heap := h\<rparr>)" "hv_inv s' as"
    by (rule vm_manager_track_page_ok [OF trackP P(1) t1(5)]) (use t1(6,7) P(2) chP in auto)
  have v2: "v2 = ?v l1" using t2(1) gP by simp
  have g2: "get_vm s' q = (if q = vp then Inr (?v l) else get_vm s1 q)" for q
    unfolding t2(3) get_vm_put_arena [OF t2(1)] using gP [of q] by (simp add: v2)
  have ph: "phys s' = phys s1" by (simp add: t2(3))
  note add = adds_page_kinds [OF t2(2)[unfolded v2, simplified]]
  have ept: "kind_mset (VM_PAGE_TYPE_EPT, False) l = add_mset r (ept_pages v)"
    "kind_mset (VM_PAGE_TYPE_GUEST_PHYSICAL, False) l = guest_pages v"
    "kind_mset (VM_PAGE_TYPE_EPT, True) l = kind_mset (VM_PAGE_TYPE_EPT, True) l1"
    using add t1(4) by simp_all
  have "vm_mem_ok (phys s1) (?v l)"
    using hv_ok_vm [OF t1(1,2)] ept ept_zero_root(1) [OF t1(8,5), of "set_mset (kind_mset (VM_PAGE_TYPE_EPT, False) l)"]
    by (simp add: vm_mem_ok_def)
  then have ok: "hv_ok s' as"
    using t2(4) t1(1) g2 ph by (auto simp: hv_ok_def split: if_splits)
  have fr: "ept_frame vp s s'"
  proof (rule ept_page_frame [OF assms(2,3), where n = r and v' = "?v l"])
    show "get_vm s' q = get_vm s q" if "q \<noteq> vp" for q using t1(3) g2 that by simp
    show "page_eq (phys s) (phys s') p" if "page_aligned p" "p \<noteq> r" for p using t1(9) that ph by simp
  qed (use t1(11,12) g2 ept(2) in simp_all)
  show ?thesis
  proof (rule that [of l])
    show "ept_walk (phys s') r g = vm_walk (phys s) v g" for g
      using False ept_zero_root(2) [OF t1(8,5), of "{r}"] ph by (simp add: vm_walk_def)
  qed (use ok fr g2 in simp_all)
qed

section \<open>\<open>vmx_ept_map_page\<close>\<close>

lemma vmx_ept_map_page_ok:
  assumes "vmx_ept_map_page vp g h s = Inr s'" "hv_ok s as" "get_vm s vp = Inr v" "phys_page h"
  obtains r l where "hv_ok s' as" "get_vm s' vp = Inr (vm_with_ept v r l)" "ept_frame vp s s'"
    "\<And>x. vm_walk (phys s') (vm_with_ept v r l) x =
       (if same_guest_page x g then Some (h + (x AND 0xfff)) else vm_walk (phys s) v x)"
    "vm_walk (phys s) v g = None"
proof -
  let ?pte = "\<lambda>pt. entry pt (LINEAR_ADDRESS_GET_TABLE g)"
  obtain r s0 pdpt s1 pd s2 pt s3 where st: "ept_map_root vp s = Inr (r, s0)"
    "ept_map_next vp False r (LINEAR_ADDRESS_GET_PML4 g) s0 = Inr (pdpt, s1)"
    "ept_map_next vp True pdpt (LINEAR_ADDRESS_GET_DIRECTORY_PTR g) s1 = Inr (pd, s2)"
    "ept_map_next vp True pd (LINEAR_ADDRESS_GET_DIRECTORY g) s2 = Inr (pt, s3)"
    and absent: "\<not> ept_present (read64 (phys s3) (?pte pt))"
    and s': "s' = s3\<lparr>phys := write64 (phys s3) (?pte pt) (ept_entry h)\<rparr>"
    using assms(1) by (auto simp: vmx_ept_map_page_def bnd_Inr_iff Let_def split: if_splits)
  obtain l0 where r0: "hv_ok s0 as" "get_vm s0 vp = Inr (vm_with_ept v r l0)"
    "\<And>g. ept_walk (phys s0) r g = vm_walk (phys s) v g" "ept_frame vp s s0"
    by (rule ept_map_root_ok [OF st(1) assms(2,3)]) blast
  have i: "ept_initialized (vm_with_ept v r l)" "ept_root (vm_with_ept v r l) = r" for l by simp_all
  obtain l1 where r1: "hv_ok s1 as" "get_vm s1 vp = Inr (vm_with_ept v r l1)"
    "ept_tbl (phys s1) r (pdpt_path g) = Some pdpt" "\<And>x. ept_walk (phys s1) r x = ept_walk (phys s0) r x" "ept_frame vp s0 s1"
    by (rule ept_map_next_ok [OF st(2) r0(1,2) i(1), of "[]"])
      (simp_all add: pdpt_path_def ept_path_def del: ept_tbl.simps(2))
  obtain l2 where r2: "hv_ok s2 as" "get_vm s2 vp = Inr (vm_with_ept v r l2)"
    "ept_tbl (phys s2) r (pd_path g) = Some pd" "\<And>x. ept_walk (phys s2) r x = ept_walk (phys s1) r x" "ept_frame vp s1 s2"
    by (rule ept_map_next_ok [OF st(3) r1(1,2) i(1), of "pdpt_path g"])
      (simp_all add: r1(3) pd_path_def [symmetric] del: ept_tbl.simps(2))
  obtain l3 where r3: "hv_ok s3 as" "get_vm s3 vp = Inr (vm_with_ept v r l3)"
    "ept_tbl (phys s3) r (pt_path g) = Some pt" "\<And>x. ept_walk (phys s3) r x = ept_walk (phys s2) r x" "ept_frame vp s2 s3"
    by (rule ept_map_next_ok [OF st(4) r2(1,2) i(1), of "pd_path g"])
      (simp_all add: r2(3) pt_path_def [symmetric] del: ept_tbl.simps(2))
  let ?T = "set_mset (kind_mset (VM_PAGE_TYPE_EPT, False) l3)"
  have wf: "ept_wf (phys s3) r ?T"
    using hv_ok_vm [OF r3(1,2)] i [of l3] by (simp add: vm_mem_ok_def)
  have N: "ept_new_leaf (phys s3) r ?T g pt h"
    using wf r3(3) absent assms(4) by (simp add: ept_new_leaf_def)
  have w: "ept_walk (phys s3) r x = vm_walk (phys s) v x" for x using r0(3) r1(4) r2(4) r3(4) by simp
  have ph': "phys s' = ept_set_leaf (phys s3) pt g h" by (simp add: s' ept_set_leaf_def)
  have pt: "pt \<in># ept_pages (vm_with_ept v r l3)" using new_leaf_pt_page(2) [OF N] by simp
  note wr = hv_ok_write_table [OF r3(1,2) pt, of "LINEAR_ADDRESS_GET_TABLE g" "ept_entry h"]
  show ?thesis
  proof (rule that [of r l3])
    show "hv_ok s' as" unfolding s'
      by (rule wr(1)) (use new_leaf_wf' [OF N] i [of l3] in \<open>simp_all add: ept_set_leaf_def\<close>)
    have "ept_frame vp s3 s'" unfolding s'
      by (rule wr(2)) (use new_leaf_wf' [OF N] i [of l3] in \<open>simp_all add: ept_set_leaf_def\<close>)
    then show "ept_frame vp s s'" using r0(4) r1(5) r2(5) r3(5) by (blast intro: ept_frame_trans)
    show "get_vm s' vp = Inr (vm_with_ept v r l3)" using r3(2) s' by simp
    show "vm_walk (phys s') (vm_with_ept v r l3) x =
       (if same_guest_page x g then Some (h + (x AND 0xfff)) else vm_walk (phys s) v x)" for x
      unfolding vm_walk_ept [OF i(1)] i(2) ph' new_leaf_walk [OF N, of x] w
      using page_or_offset [of h x] assms(4) by simp
    show "vm_walk (phys s) v g = None" using new_leaf_walk_same_page(2) [OF N, of g] w [of g] by simp
  qed
qed

text \<open>Mapping a page that is already mapped, by a leaf or by a large page, stops the machine.\<close>

lemma vmx_ept_map_page_remap:
  assumes "get_vm s vp = Inr v" "vm_walk (phys s) v g \<noteq> None"
  shows "vmx_ept_map_page vp g h s = Inl (Panic already_mapped_panic_str)"
proof -
  have i: "ept_initialized v" using assms(2) by (auto simp: vm_walk_def)
  with assms(2) have "ept_walk (phys s) (ept_root v) g \<noteq> None" by (simp add: vm_walk_def)
  then show ?thesis
    unfolding vmx_ept_map_page_def ept_map_root_def ept_map_next_def using assms(1) i
    by (simp add: ept_walk_def Let_def split: if_splits)
qed

end
