(* ===== verification/Vm_Memory.thy ===== *)
theory Vm_Memory
  imports Ept_Map
begin

text \<open>
  \<open>vm_manager_allocate_guest_physical_memory\<close> of hv/src/vmm/vm\_manager.c.  The locale \<open>page_provider\<close>
  states what an operation that takes pages promises; it is interpreted on the two operations the
  function repeats.  The main lemma says that a successful allocation gives the machine distinct zero
  pages, mapped in order at guest physical address 0, and touches no other machine.
\<close>

section \<open>The operations\<close>

definition CEIL_DIV :: "u64 \<Rightarrow> u64 \<Rightarrow> u64" where
  "CEIL_DIV a b = a div b + (if a mod b = 0 then 0 else 1)"

definition ept_pages_for :: "u64 \<Rightarrow> u64" where
  "ept_pages_for pages =
     (let ept_amount_pt = CEIL_DIV pages PAGE_TABLE_ENTRIES;
          ept_amount_pd = CEIL_DIV ept_amount_pt PAGE_TABLE_ENTRIES;
          ept_amount_pdpt = CEIL_DIV ept_amount_pd PAGE_TABLE_ENTRIES;
          ept_amount_pml4 = CEIL_DIV ept_amount_pdpt PAGE_TABLE_ENTRIES
      in ept_amount_pt + ept_amount_pd + ept_amount_pdpt + ept_amount_pml4)"

text \<open>The body of the first loop, and the first two lines of the second one, with the page they take.\<close>

definition vm_reserve_ept_page :: "u64 \<Rightarrow> hv_state \<Rightarrow> (u64 \<times> hv_state) res" where
  "vm_reserve_ept_page vp s = bnd (vmx_get_free_ept_page s) (\<lambda>(ept_page_pa, s).
     bnd (vm_manager_track_page vp ept_page_pa VM_PAGE_TYPE_EPT True s) (\<lambda>s. Inr (ept_page_pa, s)))"

definition vm_take_guest_page :: "u64 \<Rightarrow> hv_state \<Rightarrow> (u64 \<times> hv_state) res" where
  "vm_take_guest_page vp s = bnd (vm_manager_get_free_guest_physical_page s) (\<lambda>(page_pa, s).
     bnd (vm_manager_track_page vp page_pa VM_PAGE_TYPE_GUEST_PHYSICAL False s) (\<lambda>s. Inr (page_pa, s)))"

definition vm_manager_allocate_guest_physical_memory :: "u64 \<Rightarrow> u64 \<Rightarrow> hv_state \<Rightarrow> hv_state res" where
  "vm_manager_allocate_guest_physical_memory vp pages s = bnd (get_vm s vp) (\<lambda>v.
     if guest_physical_pages v \<noteq> 0
     then Inl (Panic ''Reallocating guest physical memory on a VM with memory already allocated'')
     else
       let s = put_vm vp (v\<lparr>guest_physical_pages := pages\<rparr>) s in
       bnd (for_loop (\<lambda>i s. bnd (vm_reserve_ept_page vp s) (\<lambda>(_, s). Inr s))
              0 (unat (ept_pages_for pages)) s)
         (for_loop (\<lambda>i s. bnd (vm_take_guest_page vp s) (\<lambda>(page_pa, s).
              vmx_ept_map_page vp (of_nat i * PAGE_SIZE) page_pa s))
            0 (unat pages)))"

section \<open>The interface of an operation that takes pages\<close>

locale page_provider =
  fixes take_page :: "'s \<Rightarrow> (u64 \<times> 's) res" and own :: "'s \<Rightarrow> u64 multiset" and inv :: "'s \<Rightarrow> bool"
    and rel :: "'s \<Rightarrow> 's \<Rightarrow> bool"
  assumes take_inv: "inv s \<Longrightarrow> take_page s = Inr (p, s') \<Longrightarrow> inv s'"
    and take_own: "inv s \<Longrightarrow> take_page s = Inr (p, s') \<Longrightarrow> own s' = add_mset p (own s)"
    and take_rel: "inv s \<Longrightarrow> take_page s = Inr (p, s') \<Longrightarrow> rel s s'"
    and own_once: "inv s \<Longrightarrow> count (own s) p \<le> 1"
    and rel_refl: "rel s s"
    and rel_trans: "rel s s' \<Longrightarrow> rel s' s'' \<Longrightarrow> rel s s''"
begin

lemma take_fresh: "inv s \<Longrightarrow> take_page s = Inr (p, s') \<Longrightarrow> p \<notin># own s"
  using own_once [of s' p] take_inv [of s p s'] take_own [of s p s'] by (simp add: not_in_iff)

text \<open>Repeating it gives as many distinct pages that nobody owned.\<close>

lemma take_loop:
  assumes "for_loop (\<lambda>i s. bnd (take_page s) (\<lambda>(_, s). Inr s)) i n s = Inr s'" "inv s"
  shows "\<exists>ps. length ps = n \<and> distinct ps \<and> (\<forall>p \<in> set ps. p \<notin># own s) \<and> own s' = mset ps + own s \<and>
    inv s' \<and> rel s s'"
  using assms
proof (induction n arbitrary: i s)
  case 0
  then show ?case by (simp add: rel_refl)
next
  case (Suc n)
  from Suc.prems(1) obtain p s1 where t: "take_page s = Inr (p, s1)"
    and l: "for_loop (\<lambda>i s. bnd (take_page s) (\<lambda>(_, s). Inr s)) (Suc i) n s1 = Inr s'"
    by (auto simp: bnd_Inr_iff)
  note o1 = take_own [OF Suc.prems(2) t]
  obtain ps where ps: "length ps = n" "distinct ps" "\<forall>q \<in> set ps. q \<notin># own s1" "own s' = mset ps + own s1"
    "inv s'" "rel s1 s'"
    using Suc.IH [OF l take_inv [OF Suc.prems(2) t]] by blast
  have "p \<notin> set ps" using ps(3) o1 by auto
  then show ?case
    using ps o1 take_fresh [OF Suc.prems(2) t] rel_trans [OF take_rel [OF Suc.prems(2) t] ps(6)]
    by (intro exI [of _ "p # ps"]) auto
qed

end

section \<open>What the other machines see\<close>

definition vm_others :: "u64 \<Rightarrow> hv_state \<Rightarrow> hv_state \<Rightarrow> bool" where
  "vm_others vp s s' \<longleftrightarrow> (\<forall>q. q \<noteq> vp \<longrightarrow> get_vm s' q = get_vm s q \<and>
     (\<forall>w. get_vm s q = Inr w \<longrightarrow> (\<forall>p \<in># vm_pages w. page_eq (phys s) (phys s') p)))"

lemma vm_others_refl [simp]: "vm_others vp s s"
  by (simp add: vm_others_def)

lemma vm_others_trans: "vm_others vp s s' \<Longrightarrow> vm_others vp s' s'' \<Longrightarrow> vm_others vp s s''"
  unfolding vm_others_def using page_eq_trans by metis

lemma ept_frame_others: "ept_frame vp s s' \<Longrightarrow> vm_others vp s s'"
  unfolding ept_frame_def vm_others_def by blast

lemma vm_walk_frame:
  assumes "vm_mem_ok m w" "\<And>p. p \<in># vm_pages w \<Longrightarrow> page_eq m m' p"
  shows "vm_walk m' w x = vm_walk m w x"
proof (cases "ept_initialized w")
  case True
  then have "ept_wf m (ept_root w) (set_mset (ept_pages w))" using assms(1) by (simp add: vm_mem_ok_def)
  from ept_wf_frame(2) [OF this, of m'] assms(2) kind_in_pages show ?thesis by (simp add: vm_walk_def True)
next
  case False
  then show ?thesis by (simp add: vm_walk_def)
qed

lemma vm_walk_tracked: "vm_walk m (v\<lparr>tracked_pages := l\<rparr>) x = vm_walk m v x"
  by (simp add: vm_walk_def)

text \<open>Translations of another machine, and the contents of its guest memory, are unchanged.\<close>

lemma vm_others_walk:
  assumes "vm_others vp s s'" "hv_ok s as" "q \<noteq> vp" "get_vm s q = Inr w"
  shows "get_vm s' q = Inr w" "vm_walk (phys s') w x = vm_walk (phys s) w x"
    "p \<in># guest_pages w \<Longrightarrow> page_eq (phys s) (phys s') p"
proof -
  have pe: "page_eq (phys s) (phys s') p" if "p \<in># vm_pages w" for p
    using assms(1,3,4) that by (simp add: vm_others_def)
  show "get_vm s' q = Inr w" using assms by (simp add: vm_others_def)
  show "vm_walk (phys s') w x = vm_walk (phys s) w x" by (rule vm_walk_frame [OF hv_ok_vm [OF assms(2,4)] pe])
  show "p \<in># guest_pages w \<Longrightarrow> page_eq (phys s) (phys s') p" using pe kind_in_pages by blast
qed

section \<open>Changes of a machine that keep its pages\<close>

lemma hv_ok_put_same:
  assumes "hv_ok s as" "get_vm s vp = Inr v"
    and "tracked_pages v' = tracked_pages v" "vm_flags v' = vm_flags v" "vmcs_region v' = vmcs_region v"
    and "ept_root v' = ept_root v"
  shows "hv_ok (put_vm vp v' s) as" and "owned (put_vm vp v' s) as = owned s as"
proof -
  note inv = hv_ok_inv [OF assms(1)]
  have pl: "\<forall>pl \<in> set (tracked_pages v'). pl_ok pl"
    using inv get_vm_in_set [OF assms(2)] assms(3) by (auto simp: hv_inv_def vms_ok_def)
  have o: "vm_owned v' = vm_owned v" by (simp add: vm_owned_def assms)
  have eq: "put_vm vp v' (s\<lparr>arena_heap := arena_heap s\<rparr>) = put_vm vp v' s" by simp
  have c: "hv_inv (put_vm vp v' (s\<lparr>arena_heap := arena_heap s\<rparr>)) as"
    "owned (put_vm vp v' (s\<lparr>arena_heap := arena_heap s\<rparr>)) as = owned s as"
    by (rule hv_inv_change_vm [OF inv assms(2) arena_grows_refl [OF inv] pl, of "owned s as"];
      use inv o in \<open>simp add: hv_inv_def\<close>)+
  then show "owned (put_vm vp v' s) as = owned s as" by simp
  have "vm_mem_ok (phys s) v'" using hv_ok_vm [OF assms(1,2)] by (simp add: vm_mem_ok_def assms)
  then have "hv_ok (put_vm vp v' (s\<lparr>arena_heap := arena_heap s\<rparr>)) as"
    by (rule hv_ok_put_vm [OF assms(1,2) c(1)])
  then show "hv_ok (put_vm vp v' s) as" by simp
qed

text \<open>Memory changes to the guest pages of one machine.\<close>

definition guest_write :: "vm_t \<Rightarrow> phys_mem \<Rightarrow> phys_mem \<Rightarrow> bool" where
  "guest_write v m m' \<longleftrightarrow> (\<forall>p. page_aligned p \<and> p \<notin># guest_pages v \<longrightarrow> page_eq m m' p)"

lemma guest_write_refl [simp]: "guest_write v m m"
  by (simp add: guest_write_def)

lemma guest_write_trans: "guest_write v m m' \<Longrightarrow> guest_write v m' m'' \<Longrightarrow> guest_write v m m''"
  unfolding guest_write_def using page_eq_trans by blast

lemma guest_write_page:
  assumes "p \<in># guest_pages v" "page_aligned p"
  shows "guest_write v m (memset p c 4096 m)" "guest_write v m (fill_table m p f)"
    "unat i < 512 \<Longrightarrow> guest_write v m (write64 m (entry p i) x)"
  unfolding guest_write_def
  using assms page_eq_memset [of p] page_eq_fill_table [of p] page_eq_write64_entry [of p]
  by (metis page_eq_sym)+

lemma guest_write_ok:
  assumes "hv_ok s as" "get_vm s vp = Inr v" "guest_write v (phys s) m"
  shows "hv_ok (s\<lparr>phys := m\<rparr>) as"
    and "get_vm s q = Inr w \<Longrightarrow> vm_walk m w x = vm_walk (phys s) w x"
    and "vm_others vp s (s\<lparr>phys := m\<rparr>)"
proof -
  have pe: "page_eq (phys s) m p" if "get_vm s q = Inr w" "p \<in># kind_mset k (tracked_pages w)"
    "q \<noteq> vp \<or> k \<noteq> (VM_PAGE_TYPE_GUEST_PHYSICAL, False)" for q w p k
  proof -
    have "p \<notin># guest_pages v"
    proof (cases "q = vp")
      case True
      then have "w = v" using that(1) assms(2) by simp
      with True that(2,3) show ?thesis using other_kind_pages [OF hv_ok_inv [OF assms(1)] assms(2)] by blast
    next
      case False
      from other_vm_pages [OF hv_ok_inv [OF assms(1)] that(1) assms(2) _ kind_in_pages [OF that(2)]] False
      show ?thesis using kind_in_pages by blast
    qed
    moreover have "page_aligned p" by (rule owned_page_aligned [OF assms(1) that(1) kind_in_pages [OF that(2)]])
    ultimately show ?thesis using assms(3) by (simp add: guest_write_def)
  qed
  have frame: "vm_mem_ok m w \<and> (\<forall>x. vm_walk m w x = vm_walk (phys s) w x)" if w: "get_vm s q = Inr w" for q w
  proof -
    have ok: "vm_mem_ok (phys s) w" by (rule hv_ok_vm [OF assms(1) w])
    have pool: "page_zero m p" if p: "p \<in># ept_pool w" for p
    proof -
      have "page_eq (phys s) m p" by (rule pe [OF w p]) simp
      moreover have "page_zero (phys s) p" using ok p by (simp add: vm_mem_ok_def)
      ultimately show ?thesis by (rule page_eq_zero)
    qed
    have ept: "page_eq (phys s) m p" if "p \<in> set_mset (ept_pages w)" for p
      using pe [OF w, of p] that by simp
    show ?thesis
    proof (cases "ept_initialized w")
      case True
      then have "ept_wf (phys s) (ept_root w) (set_mset (ept_pages w))" using ok by (simp add: vm_mem_ok_def)
      from ept_wf_frame [OF this ept] True pool show ?thesis by (simp add: vm_mem_ok_def vm_walk_def)
    next
      case False
      with pool show ?thesis by (simp add: vm_mem_ok_def vm_walk_def)
    qed
  qed
  show "hv_ok (s\<lparr>phys := m\<rparr>) as" using assms(1) frame by (simp add: hv_ok_def hv_inv_phys)
  show "get_vm s q = Inr w \<Longrightarrow> vm_walk m w x = vm_walk (phys s) w x" using frame by blast
  show "vm_others vp s (s\<lparr>phys := m\<rparr>)"
    unfolding vm_others_def using pe pages_mset_kind by fastforce
qed

section \<open>The two operations\<close>

text \<open>What both do: a fresh zero page is tracked, and nothing else changes.\<close>

definition vm_gained :: "u64 \<Rightarrow> hv_state \<Rightarrow> u64 list \<Rightarrow> vm_page_type_t \<times> bool \<Rightarrow> vm_t \<Rightarrow> u64 \<Rightarrow>
    vm_page_list_t list \<Rightarrow> hv_state \<Rightarrow> bool" where
  "vm_gained vp s as k v n l s' \<longleftrightarrow> hv_ok s' as \<and> get_vm s' vp = Inr (v\<lparr>tracked_pages := l\<rparr>) \<and>
     adds_page k n (tracked_pages v) l \<and> owned s' as = add_mset n (owned s as) \<and> n \<notin># owned s as \<and>
     phys_page n \<and> page_zero (phys s') n \<and> vm_others vp s s' \<and>
     (\<forall>p \<in># vm_pages v. page_eq (phys s) (phys s') p) \<and>
     (\<forall>x. vm_walk (phys s') (v\<lparr>tracked_pages := l\<rparr>) x = vm_walk (phys s) v x)"

lemma take_and_track_ok:
  assumes "bnd (bnd (mm_get_free_page s) (\<lambda>(page, s). Inr (page, s\<lparr>phys := memset page 0 (unat PAGE_SIZE) (phys s)\<rparr>)))
      (\<lambda>(n, s). bnd (vm_manager_track_page vp n ty res s) (\<lambda>s. Inr (n, s))) = Inr (n, s')"
    "hv_ok s as"
  obtains v l where "get_vm s vp = Inr v" "vm_gained vp s as (ty, res) v n l s'"
proof -
  obtain s1 where f: "bnd (mm_get_free_page s) (\<lambda>(page, s). Inr (page, s\<lparr>phys := memset page 0 (unat PAGE_SIZE) (phys s)\<rparr>))
      = Inr (n, s1)" and t: "vm_manager_track_page vp n ty res s1 = Inr s'"
    using assms(1) unfolding bnd_Inr_iff by auto
  note g = get_free_zero_page_ok [OF f assms(2)]
  obtain v where v: "get_vm s vp = Inr v"
    using t g(2) by (auto simp: vm_manager_track_page_def bnd_Inr_iff)
  have v1: "get_vm s1 vp = Inr v" and n: "n \<notin># owned s1 as" "\<not> mm_page_used_by_chainload s1 n"
    using g v by simp_all
  obtain l where tr: "vm_tracked vp s1 as v (ty, res) n l s'"
    by (rule vm_manager_track_page_hv_ok [OF t g(1) v1 g(5) n g(8)])
  note tr = vm_trackedD [OF tr]
  have pe: "page_eq (phys s) (phys s') p" if "get_vm s q = Inr w" "p \<in># vm_pages w" for q w p
    using g(9) [OF owned_page_aligned [OF assms(2) that]] unowned_page_other [OF g(6) that] tr(5) by simp
  have walk: "vm_walk (phys s') (v\<lparr>tracked_pages := l\<rparr>) x = vm_walk (phys s) v x" for x
    using vm_walk_frame [OF hv_ok_vm [OF assms(2) v] pe [OF v], of x] by (simp add: vm_walk_tracked)
  have "vm_others vp s s'" unfolding vm_others_def using tr(3) g(2) pe by simp
  with g tr walk pe [OF v] have "vm_gained vp s as (ty, res) v n l s'" by (simp add: vm_gained_def)
  with v show ?thesis by (rule that)
qed

lemma vm_reserve_ept_page_ok:
  assumes "vm_reserve_ept_page vp s = Inr (n, s')" "hv_ok s as"
  obtains v l where "get_vm s vp = Inr v" "vm_gained vp s as (VM_PAGE_TYPE_EPT, True) v n l s'"
  by (rule take_and_track_ok [OF assms(1)[unfolded vm_reserve_ept_page_def vmx_get_free_ept_page_def] assms(2)])
    (rule that)

lemma vm_take_guest_page_ok:
  assumes "vm_take_guest_page vp s = Inr (n, s')" "hv_ok s as"
  obtains v l where "get_vm s vp = Inr v" "vm_gained vp s as (VM_PAGE_TYPE_GUEST_PHYSICAL, False) v n l s'"
  by (rule take_and_track_ok [OF assms(1)[unfolded vm_take_guest_page_def
      vm_manager_get_free_guest_physical_page_def] assms(2)]) (rule that)

lemma hv_ok_once: "hv_ok s as \<Longrightarrow> count (owned s as) p \<le> 1"
  by (simp add: hv_ok_def hv_inv_def)

definition vm_reserve_rel :: "u64 \<Rightarrow> hv_state \<Rightarrow> hv_state \<Rightarrow> bool" where
  "vm_reserve_rel vp s s' \<longleftrightarrow> vm_others vp s s' \<and> (\<forall>v. get_vm s vp = Inr v \<longrightarrow>
     (\<exists>l. get_vm s' vp = Inr (v\<lparr>tracked_pages := l\<rparr>) \<and>
       kind_mset (VM_PAGE_TYPE_GUEST_PHYSICAL, False) l = guest_pages v \<and>
       (\<forall>x. vm_walk (phys s') (v\<lparr>tracked_pages := l\<rparr>) x = vm_walk (phys s) v x)))"

lemma vm_reserve_rel_trans:
  assumes "vm_reserve_rel vp s s'" "vm_reserve_rel vp s' s''"
  shows "vm_reserve_rel vp s s''"
  unfolding vm_reserve_rel_def
proof (intro conjI allI impI)
  show "vm_others vp s s''" using assms vm_others_trans unfolding vm_reserve_rel_def by blast
  fix v assume "get_vm s vp = Inr v"
  then obtain l where l: "get_vm s' vp = Inr (v\<lparr>tracked_pages := l\<rparr>)"
    "kind_mset (VM_PAGE_TYPE_GUEST_PHYSICAL, False) l = guest_pages v"
    "\<And>x. vm_walk (phys s') (v\<lparr>tracked_pages := l\<rparr>) x = vm_walk (phys s) v x"
    using assms(1) unfolding vm_reserve_rel_def by blast
  obtain l' where l': "get_vm s'' vp = Inr (v\<lparr>tracked_pages := l'\<rparr>)"
    "kind_mset (VM_PAGE_TYPE_GUEST_PHYSICAL, False) l' = kind_mset (VM_PAGE_TYPE_GUEST_PHYSICAL, False) l"
    "\<And>x. vm_walk (phys s'') (v\<lparr>tracked_pages := l'\<rparr>) x = vm_walk (phys s') (v\<lparr>tracked_pages := l\<rparr>) x"
    using assms(2) l(1) unfolding vm_reserve_rel_def by fastforce
  show "\<exists>l. get_vm s'' vp = Inr (v\<lparr>tracked_pages := l\<rparr>) \<and>
       kind_mset (VM_PAGE_TYPE_GUEST_PHYSICAL, False) l = guest_pages v \<and>
       (\<forall>x. vm_walk (phys s'') (v\<lparr>tracked_pages := l\<rparr>) x = vm_walk (phys s) v x)"
    by (intro exI [of _ l']) (simp add: l l')
qed

interpretation ept_reserve: page_provider "vm_reserve_ept_page vp" "\<lambda>s. owned s as" "\<lambda>s. hv_ok s as" "vm_reserve_rel vp"
  for vp as
proof unfold_locales
  fix s p s'
  assume "hv_ok s as" "vm_reserve_ept_page vp s = Inr (p, s')"
  then obtain v l where v: "get_vm s vp = Inr v" and g: "vm_gained vp s as (VM_PAGE_TYPE_EPT, True) v p l s'"
    using vm_reserve_ept_page_ok by blast
  show "hv_ok s' as" "owned s' as = add_mset p (owned s as)" using g by (simp_all add: vm_gained_def)
  have "kind_mset (VM_PAGE_TYPE_GUEST_PHYSICAL, False) l = guest_pages v"
    using g adds_page_kinds(2) [of "(VM_PAGE_TYPE_EPT, True)" p "tracked_pages v" l] by (simp add: vm_gained_def)
  with v g show "vm_reserve_rel vp s s'" by (auto simp: vm_gained_def vm_reserve_rel_def)
next
  fix s
  have "v = v\<lparr>tracked_pages := tracked_pages v\<rparr>" for v :: vm_t by simp
  then show "vm_reserve_rel vp s s" unfolding vm_reserve_rel_def by (metis vm_others_refl)
qed (use hv_ok_once vm_reserve_rel_trans in blast)+

interpretation guest_memory: page_provider "vm_take_guest_page vp" "\<lambda>s. owned s as" "\<lambda>s. hv_ok s as" "vm_others vp"
  for vp as
proof unfold_locales
  fix s p s'
  assume "hv_ok s as" "vm_take_guest_page vp s = Inr (p, s')"
  then obtain v l where g: "vm_gained vp s as (VM_PAGE_TYPE_GUEST_PHYSICAL, False) v p l s'"
    using vm_take_guest_page_ok by blast
  then show "hv_ok s' as" "owned s' as = add_mset p (owned s as)" "vm_others vp s s'" by (simp_all add: vm_gained_def)
qed (use hv_ok_once vm_others_trans in auto)

section \<open>Guest page numbers\<close>

definition guest_pfn :: "u64 \<Rightarrow> nat" where
  "guest_pfn x = unat x div 4096 mod 68719476736"

lemma same_guest_page_pfn: "same_guest_page x y \<longleftrightarrow> guest_pfn x = guest_pfn y"
proof -
  have "unat (take_bit 36 (drop_bit 12 z)) = guest_pfn z" for z :: u64
    by (simp add: guest_pfn_def unsigned_take_bit_eq take_bit_eq_mod unsigned_drop_bit_eq drop_bit_eq_div
      unat_mod unat_div)
  then have "guest_pfn x = guest_pfn y \<longleftrightarrow> take_bit 36 (drop_bit 12 x) = take_bit 36 (drop_bit 12 y)"
    using word_unat_eqI by metis
  also have "\<dots> \<longleftrightarrow> same_guest_page x y"
  proof
    assume e: "take_bit 36 (drop_bit 12 x) = take_bit 36 (drop_bit 12 y)"
    show "same_guest_page x y"
      unfolding same_guest_page_bits
    proof (intro allI impI)
      fix n :: nat assume n: "12 \<le> n \<and> n < 48"
      have "bit (take_bit 36 (drop_bit 12 x)) (n - 12) = bit (take_bit 36 (drop_bit 12 y)) (n - 12)" by (simp add: e)
      moreover have "n - 12 < 36" using n by linarith
      ultimately show "bit x n = bit y n" using n by (simp add: bit_simps)
    qed
  next
    assume "same_guest_page x y"
    then show "take_bit 36 (drop_bit 12 x) = take_bit 36 (drop_bit 12 y)"
      unfolding same_guest_page_bits by (intro bit_word_eqI) (auto simp: bit_simps)
  qed
  finally show ?thesis by simp
qed

lemma guest_pfn_page: "i < 68719476736 \<Longrightarrow> guest_pfn (of_nat i * PAGE_SIZE) = i"
  by (simp add: guest_pfn_def hv_const unat_mult_64_no_wrap unat_of_nat_64)

section \<open>The allocation\<close>

text \<open>The machine's guest memory consists of the pages \<open>ps\<close>, mapped in order from 0.\<close>

definition guest_memory_is :: "phys_mem \<Rightarrow> vm_t \<Rightarrow> u64 list \<Rightarrow> bool" where
  "guest_memory_is m v ps \<longleftrightarrow> guest_pages v = mset ps \<and>
     (\<forall>x. vm_walk m v x = (if guest_pfn x < length ps then Some (ps ! guest_pfn x + (x AND 0xfff)) else None)) \<and>
     (\<forall>p \<in> set ps. phys_page p \<and> page_zero m p)"

lemma guest_pages_distinct:
  assumes "hv_ok s as" "get_vm s vp = Inr v" "guest_pages v = mset ps"
  shows "distinct ps"
proof -
  have "count (mset ps) p \<le> 1" for p
  proof -
    have "count (guest_pages v) p \<le> count (vm_pages v) p"
      by (rule mset_subset_eq_count [OF kind_mset_subset])
    also have "\<dots> \<le> count (owned s as) p"
      using mset_subset_eq_count [OF vm_owned_subset_owned [OF assms(2), of as], of p]
      by (simp add: vm_owned_def split: if_splits)
    also have "\<dots> \<le> 1" by (rule hv_ok_once [OF assms(1)])
    finally show ?thesis using assms(3) by simp
  qed
  then have "count (mset ps) p = (if p \<in> set ps then 1 else 0)" for p
    by (metis One_nat_def count_eq_zero_iff le_Suc_eq le_zero_eq set_mset_mset)
  then show ?thesis by (simp add: distinct_count_atmost_1)
qed

lemma guest_memory_step:
  assumes "vm_take_guest_page vp t = Inr (p, t1)" "vmx_ept_map_page vp (of_nat k * PAGE_SIZE) p t1 = Inr t2"
    and "hv_ok t as" "get_vm t vp = Inr v" "guest_memory_is (phys t) v ps" "length ps = k" "k < 68719476736"
  obtains v' where "hv_ok t2 as" "get_vm t2 vp = Inr v'" "guest_physical_pages v' = guest_physical_pages v"
    "guest_memory_is (phys t2) v' (ps @ [p])" "vm_others vp t t2"
proof -
  obtain l where g: "vm_gained vp t as (VM_PAGE_TYPE_GUEST_PHYSICAL, False) v p l t1"
    using vm_take_guest_page_ok [OF assms(1,3)] assms(4) by (metis sum.inject(2))
  let ?v = "v\<lparr>tracked_pages := l\<rparr>"
  have t1: "hv_ok t1 as" "get_vm t1 vp = Inr ?v" "phys_page p" "page_zero (phys t1) p" "vm_others vp t t1"
    "\<And>q. q \<in># vm_pages v \<Longrightarrow> page_eq (phys t) (phys t1) q"
    "\<And>x. vm_walk (phys t1) ?v x = vm_walk (phys t) v x" "guest_pages ?v = add_mset p (guest_pages v)"
    using g adds_page_kinds(1) by (auto simp: vm_gained_def)
  obtain r l' where m: "hv_ok t2 as" "get_vm t2 vp = Inr (vm_with_ept ?v r l')" "ept_frame vp t1 t2"
    "\<And>x. vm_walk (phys t2) (vm_with_ept ?v r l') x =
       (if same_guest_page x (of_nat k * PAGE_SIZE) then Some (p + (x AND 0xfff)) else vm_walk (phys t1) ?v x)"
    by (rule vmx_ept_map_page_ok [OF assms(2) t1(1,2,3)]) (rule that)
  let ?v' = "vm_with_ept ?v r l'"
  have mem: "guest_pages v = mset ps" "\<And>x. vm_walk (phys t) v x =
      (if guest_pfn x < k then Some (ps ! guest_pfn x + (x AND 0xfff)) else None)"
    "\<forall>q \<in> set ps. phys_page q \<and> page_zero (phys t) q"
    using assms(5,6) by (simp_all add: guest_memory_is_def)
  have gp: "guest_pages ?v' = guest_pages ?v" and pe: "\<forall>q \<in># guest_pages ?v. page_eq (phys t1) (phys t2) q"
    using m(2,3) t1(2) unfolding ept_frame_def by auto
  have walk: "vm_walk (phys t2) ?v' x =
      (if guest_pfn x < Suc k then Some ((ps @ [p]) ! guest_pfn x + (x AND 0xfff)) else None)" for x
    unfolding m(4) t1(7) mem(2) same_guest_page_pfn guest_pfn_page [OF assms(7)]
    using assms(6) by (auto simp: nth_append less_Suc_eq)
  have zero: "page_zero (phys t2) q" if "q \<in> set (ps @ [p])" for q
  proof -
    have "page_zero (phys t1) q"
    proof (cases "q = p")
      case True
      then show ?thesis using t1(4) by simp
    next
      case False
      then have q: "q \<in> set ps" using that by simp
      then have "q \<in># vm_pages v" using mem(1) by (intro kind_in_pages [of _ "(VM_PAGE_TYPE_GUEST_PHYSICAL, False)"]) simp
      from page_eq_zero [OF t1(6) [OF this]] q mem(3) show ?thesis by blast
    qed
    moreover have "q \<in># guest_pages ?v" using that mem(1) t1(8) by auto
    ultimately show ?thesis using pe page_eq_zero by blast
  qed
  have "guest_memory_is (phys t2) ?v' (ps @ [p])"
    unfolding guest_memory_is_def using gp t1(8,3) mem(1,3) walk zero assms(6) by auto
  then show ?thesis
    using m(1,2) vm_others_trans [OF t1(5) ept_frame_others [OF m(3)]] by (intro that) simp_all
qed

lemma guest_memory_loop:
  assumes "for_loop (\<lambda>i s. bnd (vm_take_guest_page vp s) (\<lambda>(page_pa, s).
        vmx_ept_map_page vp (of_nat i * PAGE_SIZE) page_pa s)) 0 n s = Inr s'"
    and "hv_ok s as" "get_vm s vp = Inr v" "guest_memory_is (phys s) v []" "n \<le> 68719476736"
  shows "\<exists>v' ps. hv_ok s' as \<and> get_vm s' vp = Inr v' \<and> guest_physical_pages v' = guest_physical_pages v \<and>
    guest_memory_is (phys s') v' ps \<and> length ps = n \<and> vm_others vp s s'"
proof -
  define I where "I k t \<longleftrightarrow> (\<exists>v' ps. hv_ok t as \<and> get_vm t vp = Inr v' \<and>
    guest_physical_pages v' = guest_physical_pages v \<and> guest_memory_is (phys t) v' ps \<and> length ps = k \<and>
    vm_others vp s t)" for k :: nat and t
  have "I (0 + n) s'"
  proof (rule for_loop_invariant [OF assms(1)])
    show "I 0 s" using assms(2-4) unfolding I_def by (intro exI [of _ v] exI [of _ "[]"]) simp
    fix j t t'
    assume j: "j < 0 + n" and I: "I j t"
      and b: "bnd (vm_take_guest_page vp t) (\<lambda>(page_pa, s). vmx_ept_map_page vp (of_nat j * PAGE_SIZE) page_pa s) = Inr t'"
    obtain v1 ps where v1: "hv_ok t as" "get_vm t vp = Inr v1" "guest_physical_pages v1 = guest_physical_pages v"
      "guest_memory_is (phys t) v1 ps" "length ps = j" "vm_others vp s t" using I unfolding I_def by blast
    obtain p t1 where t1: "vm_take_guest_page vp t = Inr (p, t1)"
      "vmx_ept_map_page vp (of_nat j * PAGE_SIZE) p t1 = Inr t'" using b by (auto simp: bnd_Inr_iff)
    have "j < 68719476736" using j assms(5) by simp
    from guest_memory_step [OF t1 v1(1,2,4,5) this] obtain v2 where
      v2: "hv_ok t' as" "get_vm t' vp = Inr v2" "guest_physical_pages v2 = guest_physical_pages v1"
        "guest_memory_is (phys t') v2 (ps @ [p])" "vm_others vp t t'" by metis
    show "I (Suc j) t'"
      unfolding I_def using v2 v1(3,5) vm_others_trans [OF v1(6) v2(5)]
      by (intro exI [of _ v2] exI [of _ "ps @ [p]"]) simp
  qed
  then show ?thesis by (simp add: I_def)
qed

lemma vm_manager_allocate_guest_physical_memory_ok:
  assumes "vm_manager_allocate_guest_physical_memory vp n s = Inr s'"
    and "hv_ok s as" "get_vm s vp = Inr v" "guest_memory_is (phys s) v []" "unat n \<le> 68719476736"
  shows "\<exists>v' ps. hv_ok s' as \<and> get_vm s' vp = Inr v' \<and> guest_physical_pages v' = n \<and>
    guest_memory_is (phys s') v' ps \<and> length ps = unat n \<and> distinct ps \<and> vm_others vp s s'"
proof -
  let ?v = "v\<lparr>guest_physical_pages := n\<rparr>" and ?s0 = "put_vm vp (v\<lparr>guest_physical_pages := n\<rparr>) s"
  obtain s1 where l1: "for_loop (\<lambda>i s. bnd (vm_reserve_ept_page vp s) (\<lambda>(_, s). Inr s)) 0 (unat (ept_pages_for n)) ?s0 = Inr s1"
    and l2: "for_loop (\<lambda>i s. bnd (vm_take_guest_page vp s) (\<lambda>(page_pa, s).
        vmx_ept_map_page vp (of_nat i * PAGE_SIZE) page_pa s)) 0 (unat n) s1 = Inr s'"
    using assms(1,3) by (auto simp: vm_manager_allocate_guest_physical_memory_def bnd_Inr_iff Let_def split: if_splits)
  have g0: "get_vm ?s0 q = (if q = vp then Inr ?v else get_vm s q)" for q by (rule get_put_vm [OF assms(3)])
  have ok0: "hv_ok ?s0 as" by (rule hv_ok_put_same [OF assms(2,3)]) simp_all
  obtain ok1: "hv_ok s1 as" and rel: "vm_reserve_rel vp ?s0 s1"
    using ept_reserve.take_loop [OF l1 ok0] by blast
  obtain l where v1: "get_vm s1 vp = Inr (?v\<lparr>tracked_pages := l\<rparr>)"
    "kind_mset (VM_PAGE_TYPE_GUEST_PHYSICAL, False) l = guest_pages v"
    "\<And>x. vm_walk (phys s1) (?v\<lparr>tracked_pages := l\<rparr>) x = vm_walk (phys s) ?v x"
    using rel g0 [of vp] unfolding vm_reserve_rel_def by fastforce
  have "vm_walk (phys s) ?v x = vm_walk (phys s) v x" for x by (simp add: vm_walk_def)
  then have mem: "guest_memory_is (phys s1) (?v\<lparr>tracked_pages := l\<rparr>) []"
    using assms(4) v1(2,3) by (simp add: guest_memory_is_def)
  obtain v' ps where f: "hv_ok s' as" "get_vm s' vp = Inr v'" "guest_physical_pages v' = n"
    "guest_memory_is (phys s') v' ps" "length ps = unat n" "vm_others vp s1 s'"
    using guest_memory_loop [OF l2 ok1 v1(1) mem assms(5)] by auto
  have "vm_others vp s ?s0" using g0 by (simp add: vm_others_def)
  then have "vm_others vp s s'" using rel f(6) vm_others_trans unfolding vm_reserve_rel_def by blast
  with f guest_pages_distinct [OF f(1,2)] f(4)[unfolded guest_memory_is_def] show ?thesis by blast
qed

section \<open>Isolation\<close>

text \<open>
  The memory of a machine is made of the pages \<open>ps\<close>, whatever they contain: what an allocation
  establishes and what the guest, which only writes these pages, keeps.
\<close>

definition guest_mapped :: "phys_mem \<Rightarrow> vm_t \<Rightarrow> u64 list \<Rightarrow> bool" where
  "guest_mapped m v ps \<longleftrightarrow> guest_pages v = mset ps \<and>
     (\<forall>x. vm_walk m v x = (if guest_pfn x < length ps then Some (ps ! guest_pfn x + (x AND 0xfff)) else None))"

lemma guest_memory_is_mapped: "guest_memory_is m v ps \<Longrightarrow> guest_mapped m v ps"
  by (simp add: guest_memory_is_def guest_mapped_def)

lemma unat_page_offset: "unat (x AND 0xfff :: u64) < 4096"
  by (simp add: and_fff_eq_mod)

lemma page_plus_offset: "page_aligned p \<Longrightarrow> (p + (x AND 0xfff)) AND PAGE_MASK = p"
  using page_base_plus(1) [OF _ unat_page_offset] by (simp add: hv_const)

lemma guest_walk_page:
  assumes "guest_mapped m v ps" "vm_walk m v x = Some h" "\<And>p. p \<in># guest_pages v \<Longrightarrow> page_aligned p"
  shows "h AND PAGE_MASK \<in># guest_pages v" "guest_pfn x < length ps" "h AND PAGE_MASK = ps ! guest_pfn x"
    "h AND 0xfff = x AND 0xfff"
proof -
  have lt: "guest_pfn x < length ps" and h: "h = ps ! guest_pfn x + (x AND 0xfff)"
    using assms(1,2) by (auto simp: guest_mapped_def split: if_splits)
  have m: "ps ! guest_pfn x \<in># guest_pages v" using lt assms(1) by (simp add: guest_mapped_def)
  then have al: "page_aligned (ps ! guest_pfn x)" by (rule assms(3))
  show "guest_pfn x < length ps" by (rule lt)
  show "h AND PAGE_MASK = ps ! guest_pfn x" by (simp add: h page_plus_offset [OF al])
  then show "h AND PAGE_MASK \<in># guest_pages v" using m by simp
  show "h AND 0xfff = x AND 0xfff" using page_base_plus(2) [OF al unat_page_offset] by (simp add: h)
qed

text \<open>The pages that are not the guest memory of machine \<open>vp\<close>: all others that have an owner.\<close>

definition owned_elsewhere :: "u64 \<Rightarrow> vm_t \<Rightarrow> hv_state \<Rightarrow> u64 list \<Rightarrow> u64 multiset" where
  "owned_elsewhere vp v s as = owned s as - guest_pages v"

lemma guest_isolation:
  assumes "hv_ok s as" "get_vm s vp = Inr v" "guest_mapped (phys s) v ps" "vm_walk (phys s) v x = Some h"
  shows "h AND PAGE_MASK \<in># guest_pages v" "h AND PAGE_MASK \<notin># owned_elsewhere vp v s as"
    "\<not> mm_page_used_by_chainload s (h AND PAGE_MASK)"
proof -
  have "guest_pages v \<subseteq># vm_owned v"
    using subset_mset.order_trans [OF kind_mset_subset [of _ "tracked_pages v"] mset_subset_eq_add_right]
    by (simp add: vm_owned_def)
  then have sub: "guest_pages v \<subseteq># owned s as"
    using vm_owned_subset_owned [OF assms(2)] by (rule subset_mset.order_trans)
  show g: "h AND PAGE_MASK \<in># guest_pages v"
    by (rule guest_walk_page(1) [OF assms(3,4)]) (rule owned_page_aligned [OF assms(1,2) kind_in_pages])
  have "count (owned s as) (h AND PAGE_MASK) \<le> 1" by (rule hv_ok_once [OF assms(1)])
  moreover have "1 \<le> count (guest_pages v) (h AND PAGE_MASK)" using g by (metis Suc_leI One_nat_def count_greater_zero_iff)
  ultimately have "count (owned_elsewhere vp v s as) (h AND PAGE_MASK) = 0"
    unfolding owned_elsewhere_def count_diff by linarith
  then show "h AND PAGE_MASK \<notin># owned_elsewhere vp v s as" by (simp add: count_eq_zero_iff)
  show "\<not> mm_page_used_by_chainload s (h AND PAGE_MASK)"
    using hv_ok_inv [OF assms(1)] mset_subset_eqD [OF sub g] by (simp add: hv_inv_def)
qed

end
