(* ===== verification/Demo_State.thy ===== *)
theory Demo_State
  imports Vm_Memory
begin

text \<open>
  Concrete states, to which the properties are applied.  \<open>demo_boot\<close> is the hypervisor after
  \<open>mm_setup\<close>: one usable region of 256 pages, the last descriptor of the memory map.  \<open>demo_vm\<close> is
  the state after \<open>vm_manager_create_vmx_machine\<close> with one machine.
\<close>

definition demo_desc :: chainload_mmap_desc_t where
  "demo_desc = \<lparr>mmap_physical_address = 0x100000, mmap_pages = 256, mmap_usable = True\<rparr>"

definition demo_chainload :: chainload_page_t where
  "demo_chainload = \<lparr>rkhv_sections = replicate 4 \<lparr>section_physical_address = 0, section_pages = 0\<rparr>,
     chainload_page_physical_address = 0x1000,
     attachments = replicate 4 \<lparr>attachment_physical_address = 0, attachment_size = 0, attachment_type = 0\<rparr>,
     page_table_regions = replicate 16 \<lparr>region_physical_address = 0, region_pages = 0\<rparr>,
     efi_mmap_usable = replicate 230 \<lparr>mmap_physical_address = 0, mmap_pages = 0, mmap_usable = False\<rparr> @ [demo_desc]\<rparr>"

definition demo_cpu :: cpu_t where
  "demo_cpu = \<lparr>cpu_msr = \<lambda>_. 0, cpu_cr0 = 0x80000033, cpu_cr3 = 0x2000, cpu_cr4 = 0x2020, cpu_xcr0 = 1,
     cpu_gdtr = \<lparr>gdtr_size = 0, gdtr_offset = 0\<rparr>, cpu_idtr = \<lparr>idtr_size = 0, idtr_offset = 0\<rparr>,
     cpu_vmcs = \<lambda>_ _. 0, cpu_current_vmcs = 0, cpu_vmx_error = \<lambda>_ _. 0, cpu_cpuid = \<lambda>_ _ _. (0, 0, 0, 0)\<rparr>"

definition demo_boot :: hv_state where
  "demo_boot = \<lparr>phys = \<lambda>_. 0, mm_chainload_page = demo_chainload,
     last_returned_region_index = -1, last_returned_page_index = -1,
     arena_head = 0, arena_heap = Map.empty, arena_sub_heap = Map.empty,
     vmxon_region_valid = False, vmxon_region = 0, msr_bitmaps_page_valid = False, msr_bitmaps_page = 0,
     vm_manager_arena = 0, vm_manager_vm_list = [], vm_manager_current_vm = 0,
     vmd_device_arena = 0, dev_heap = Map.empty, uart_heap = Map.empty,
     vmx_msr_host_backup = \<lparr>ia32_efer = 0, ia32_fs_base = 0, ia32_gs_base = 0, ia32_misc_enable = 0,
       ia32_bios_sign_id = 0, ia32_xss = 0, ia32_kernel_gs_base = 0\<rparr>,
     xsave_host_xcr0 = 1, xsave_area_size = 576, gdt_heap = Map.empty, idt_heap = Map.empty,
     cpu = demo_cpu, console = []\<rparr>"

abbreviation demo_mmap :: "chainload_mmap_desc_t list" where
  "demo_mmap \<equiv> efi_mmap_usable demo_chainload"

lemma demo_mmap_230 [simp]: "demo_mmap ! 230 = demo_desc"
  by (simp add: demo_chainload_def nth_append)

lemma demo_shape [simp]: "chainload_shape demo_chainload"
  by (simp add: chainload_shape_def demo_chainload_def hv_const)

lemma demo_sane [simp]: "efi_mmap_sane demo_chainload"
  by (auto simp: efi_mmap_sane_def demo_chainload_def demo_desc_def usable_desc_def page_aligned_def)

lemma no_attachments: "attachment_type a = 0 \<Longrightarrow> \<not> mm_page_in_attachments (replicate n a) p"
  by (cases n) (simp_all add: CHAINLOAD_ATTACHMENT_END_def)

lemma demo_chainload_pages [simp]:
  "mm_chainload_page s = demo_chainload \<Longrightarrow>
   mm_page_used_by_chainload s a = (a AND PAGE_MASK = 0x1000)"
  by (simp add: mm_page_used_by_chainload_def demo_chainload_def list_ex_iff Let_def hv_const no_attachments)

lemma demo_scan_down: "mm_scan_down demo_mmap 230 = Inr (230, 255)"
  by (subst mm_scan_down.simps) (simp add: mmap_at_def hv_const demo_desc_def)

lemma demo_boot_ok: "hv_ok demo_boot []"
  by (simp add: hv_ok_def hv_inv_def demo_boot_def mm_ok_def mm_position_ok_def arena_ok_def vms_ok_def
      owned_def get_vm_def)

text \<open>
  The states that the operations below reach: the arena of the machines on the last page of the
  region, \<open>used\<close> bytes of it taken, and the search for a free page at page \<open>k\<close> of the region.
\<close>

definition demo_arena :: u64 where "demo_arena = 0x100001ff000"
definition demo_vp :: u64 where "demo_vp = 0x100001ff020"

definition demo_st :: "u64 \<Rightarrow> u64 \<Rightarrow> phys_mem \<Rightarrow> (u64 \<times> vm_t) list \<Rightarrow> hv_state" where
  "demo_st used k m vms = demo_boot\<lparr>phys := m, last_returned_region_index := 230, last_returned_page_index := k,
     arena_head := demo_arena,
     arena_heap := [demo_arena \<mapsto> \<lparr>arena_prev = 0, arena_next = 0, arena_subarenas = 0, arena_used_size = used\<rparr>],
     vm_manager_arena := demo_arena, vm_manager_vm_list := vms\<rparr>"

definition demo_machine :: "u64 \<Rightarrow> vm_page_list_t list \<Rightarrow> vm_t" where
  "demo_machine n l = vm_zero\<lparr>guest_physical_pages := n, vm_name := ''vm'', permanent_xcr0 := 1, tracked_pages := l\<rparr>"

definition demo_vm :: hv_state where
  "demo_vm = demo_st 272 255 (\<lambda>_. 0) [(demo_vp, demo_machine 0 [])]"

lemma demo_st_simps [simp]:
  "mm_chainload_page (demo_st used k m vms) = demo_chainload"
  "phys (demo_st used k m vms) = m"
  "last_returned_region_index (demo_st used k m vms) = 230"
  "last_returned_page_index (demo_st used k m vms) = k"
  "arena_head (demo_st used k m vms) = demo_arena"
  "arena_heap (demo_st used k m vms) =
     [demo_arena \<mapsto> \<lparr>arena_prev = 0, arena_next = 0, arena_subarenas = 0, arena_used_size = used\<rparr>]"
  "vm_manager_arena (demo_st used k m vms) = demo_arena"
  "vm_manager_vm_list (demo_st used k m vms) = vms"
  "vmxon_region_valid (demo_st used k m vms) = False"
  "msr_bitmaps_page_valid (demo_st used k m vms) = False"
  "(demo_st used k m vms)\<lparr>vm_manager_arena := demo_arena\<rparr> = demo_st used k m vms"
  "(demo_st used k m vms)\<lparr>vm_manager_vm_list := vms'\<rparr> = demo_st used k m vms'"
  "(demo_st used k m vms)\<lparr>phys := m'\<rparr> = demo_st used k m' vms"
  "(demo_st used k m vms)\<lparr>last_returned_region_index := 230, last_returned_page_index := k'\<rparr> = demo_st used k' m vms"
  by (simp_all add: demo_st_def demo_boot_def)

lemma demo_arena_ok: "unat used + 32 \<le> 4096 \<Longrightarrow> arena_ok (demo_st used k m vms) [demo_arena]"
  by (simp add: arena_ok_def arena_node_ok_def phys_page_def page_aligned_def demo_arena_def
      V2P_IDENTITY_MAP_def hv_const)

lemma mm_search_second:
  assumes "mmap_at c r = Inr d" "is_free (mm_page_at d p) = Inr False" "r \<noteq> -1" "p \<noteq> -1" "p \<noteq> 0"
    and "p - 1 < ucast (mmap_pages d)" "is_free (mm_page_at d (p - 1)) = Inr True"
  shows "mm_search is_free c r p (-1) (-1) = Some (Inr (mm_page_at d (p - 1), r, p - 1))"
proof -
  have "p - 1 \<noteq> p" by simp
  moreover have "mm_next_position c d r p = Inr (r, p - 1)"
    using assms(6) by (simp add: mm_next_position_def Let_def not_le [symmetric])
  ultimately show ?thesis
    using assms by (subst mm_search.simps, simp, subst mm_search.simps, simp)
qed

lemma demo_take:
  assumes "unat used + 32 \<le> 4096" "k \<noteq> 0" "k \<le> 255"
    and "page_in_use (demo_st used k m vms) [demo_arena] (0x100000 + k * 0x1000)"
    and "\<not> page_in_use (demo_st used k m vms) [demo_arena] (0x100000 + (k - 1) * 0x1000)"
  shows "mm_get_free_page (demo_st used k m vms) = Inr (0x100000 + (k - 1) * 0x1000, demo_st used (k - 1) m vms)"
proof -
  let ?s = "demo_st used k m vms"
  have at: "mmap_at demo_mmap 230 = Inr demo_desc" by (simp add: mmap_at_def hv_const)
  have pg: "mm_page_at demo_desc i = 0x100000 + i * 0x1000" for i
    by (simp add: mm_page_at_def demo_desc_def hv_const)
  have k: "k \<noteq> -1"
  proof
    assume "k = -1"
    with assms(3) have "(-1 :: u64) \<le> 255" by simp
    then show False by (simp add: word_le_nat_alt)
  qed
  have le: "k - 1 < ucast (mmap_pages demo_desc)"
    using assms(2,3) by (simp add: demo_desc_def) unat_arith
  have "mm_search (mm_page_is_free ?s) demo_mmap 230 k (-1) (-1) =
      Some (Inr (mm_page_at demo_desc (k - 1), 230, k - 1))"
    by (rule mm_search_second [OF at]) (use assms(2,4,5) k le in \<open>simp_all add: mm_page_is_free_ok [OF demo_arena_ok [OF assms(1)]] pg\<close>)
  then show ?thesis
    using k by (simp add: mm_get_free_page_def mm_start_position_def pg)
qed

lemma demo_first_page: "mm_get_free_page demo_boot =
  Inr (0x1ff000, demo_boot\<lparr>last_returned_region_index := 230, last_returned_page_index := 255\<rparr>)"
proof -
  have at: "mmap_at demo_mmap 230 = Inr demo_desc" by (simp add: mmap_at_def hv_const)
  have "arena_ok demo_boot []" using demo_boot_ok by (simp add: hv_ok_def hv_inv_def mm_ok_def)
  then have "mm_page_is_free demo_boot 0x1ff000 = Inr True"
    by (simp add: mm_page_is_free_ok page_in_use_def)
       (simp add: demo_boot_def mm_page_used_by_vmx_def mm_page_used_by_vm_manager_def hv_const)
  moreover have "mm_page_at demo_desc 255 = 0x1ff000" by (simp add: mm_page_at_def demo_desc_def hv_const)
  ultimately have "mm_search (mm_page_is_free demo_boot) demo_mmap 230 255 (-1) (-1) = Some (Inr (0x1ff000, 230, 255))"
    using mm_search_first [OF at, of "mm_page_is_free demo_boot" 255] by simp
  then show ?thesis
    by (simp add: mm_get_free_page_def mm_start_position_def demo_boot_def RKHV_MAX_EFI_MMAP_DESCRIPTORS_def
      demo_scan_down [simplified])
qed

section \<open>One machine\<close>

lemma demo_create: "vm_manager_create_vmx_machine ''vm'' demo_boot = Inr (demo_vp, demo_vm)"
proof -
  have "arena_create demo_boot = Inr (demo_arena, (demo_st 0 255 (\<lambda>_. 0) [])\<lparr>vm_manager_arena := 0\<rparr>)"
    by (simp add: arena_create_def demo_first_page Let_def arena_put_def)
       (simp add: demo_boot_def demo_st_def demo_arena_def P2V_IDENTITY_MAP_def hv_const)
  moreover have "vm_manager_arena demo_boot = 0" by (simp add: demo_boot_def)
  moreover have "demo_machine 0 [] = vm_zero\<lparr>vm_name := ''vm'', permanent_xcr0 := 1\<rparr>"
    by (simp add: demo_machine_def vm_zero_def)
  moreover have "arena_allocate demo_arena 272 (demo_st 0 255 (\<lambda>_. 0) []) =
      Inr (demo_vp, demo_st 272 255 (\<lambda>_. 0) [])"
    by (simp add: arena_allocate_def arena_at_def arena_put_def hv_const demo_arena_def demo_vp_def)
       (simp add: demo_st_def demo_arena_def)
  ultimately show ?thesis by (simp add: vm_manager_create_vmx_machine_def sizeof_vm_t_def demo_vm_def)
qed

lemma demo_vm_get [simp]: "get_vm (demo_st used k m [(demo_vp, v)]) vp = (if vp = demo_vp then Inr v else Inl (Fault ''vm_t''))"
  by (simp add: get_vm_def)

lemma demo_put_vm [simp]: "put_vm demo_vp v' (demo_st used k m [(demo_vp, v)]) = demo_st used k m [(demo_vp, v')]"
  by (simp add: put_vm_def demo_st_def)

lemma demo_arena_end: "arena_end (demo_st used k m vms) demo_arena = 32 + unat used"
  by (simp add: arena_end_def)

lemma demo_machine_mem_ok: "vm_mem_ok m (demo_machine 0 [])"
  by (simp add: vm_mem_ok_def demo_machine_def vm_zero_def)

lemma demo_vm_ok: "hv_ok demo_vm [demo_arena]"
proof -
  have "mm_valid demo_mmap 230 255" by (simp add: mm_valid_def hv_const demo_desc_def)
  then have "mm_ok demo_vm [demo_arena]"
    by (simp add: demo_vm_def mm_ok_def mm_position_ok_def demo_arena_ok)
  moreover have "vms_ok demo_vm [demo_arena]"
    by (simp add: demo_vm_def vms_ok_def demo_arena_end demo_machine_def vm_zero_def demo_vp_def demo_arena_def)
       (simp add: arena_end_def demo_arena_def)
  moreover have "owned demo_vm [demo_arena] = {#0x1ff000#}"
    by (simp add: demo_vm_def owned_def vm_owned_def demo_machine_def vm_zero_def demo_arena_def
      V2P_IDENTITY_MAP_def hv_const)
  ultimately have "hv_inv demo_vm [demo_arena]"
    by (simp add: hv_inv_def phys_page_def page_aligned_def demo_chainload_pages demo_vm_def hv_const)
  then show ?thesis using demo_machine_mem_ok by (auto simp: hv_ok_def demo_vm_def split: if_splits)
qed

section \<open>An allocation of one page\<close>

text \<open>
  The state of the machine of \<open>demo_vm\<close> while it is given one page: \<open>used\<close> bytes of the arena, the
  search at page \<open>k\<close>, the blocks \<open>l\<close>.
\<close>

lemma memset_zero [simp]: "memset p 0 n (\<lambda>_. 0) = (\<lambda>_. 0)"
  by (induction n arbitrary: p) (simp_all add: fun_eq_iff)

abbreviation (input) blk :: "u64 \<Rightarrow> 56 word \<Rightarrow> vm_page_type_t \<Rightarrow> bool \<Rightarrow> vm_page_list_t" where
  "blk p n ty r \<equiv> \<lparr>pl_physical_address = p, pl_pages = n, pl_page_type = ty, pl_reserved_pool = r\<rparr>"

lemmas demo_use_defs = page_in_use_def mm_page_used_by_vmx_def mm_page_used_by_vm_manager_def
  mm_page_used_by_vm_def page_in_block_def P2V_IDENTITY_MAP_def demo_arena_def demo_machine_def vm_zero_def hv_const

lemmas demo_track_defs = vm_manager_track_page_def arena_allocate_def arena_at_def arena_put_def
  demo_machine_def sizeof_vm_page_list_t_def sizeof_arena_header_t_def PAGE_SIZE_def

definition demo_alloc :: "u64 \<Rightarrow> u64 \<Rightarrow> vm_page_list_t list \<Rightarrow> hv_state" where
  "demo_alloc used k l = demo_st used k (\<lambda>_. 0) [(demo_vp, demo_machine 1 l)]"

lemma demo_take_alloc:
  assumes "unat used + 32 \<le> 4096" "k \<noteq> 0" "k \<le> 255"
    and "page_in_use (demo_alloc used k l) [demo_arena] (0x100000 + k * 0x1000)"
    and "\<not> page_in_use (demo_alloc used k l) [demo_arena] (0x100000 + (k - 1) * 0x1000)"
  shows "mm_get_free_page (demo_alloc used k l) = Inr (0x100000 + (k - 1) * 0x1000, demo_alloc used (k - 1) l)"
  using demo_take assms unfolding demo_alloc_def by blast

lemma demo_arena_put:
  "(demo_st used k m vms)\<lparr>arena_heap := [demo_arena \<mapsto>
     \<lparr>arena_prev = 0, arena_next = 0, arena_subarenas = 0, arena_used_size = used'\<rparr>]\<rparr> = demo_st used' k m vms"
  by (simp add: demo_st_def)

lemma demo_reserve_first: "vm_reserve_ept_page demo_vp (demo_alloc 272 255 []) =
  Inr (0x1fe000, demo_alloc 296 254 [blk 0x1fe000 1 VM_PAGE_TYPE_EPT True])"
  using demo_take_alloc [of 272 255 "[]"]
  by (simp add: demo_use_defs vm_reserve_ept_page_def vmx_get_free_ept_page_def demo_alloc_def)
    (simp add: demo_track_defs demo_arena_put)

lemma demo_reserve_next:
  "vm_reserve_ept_page demo_vp (demo_alloc 296 254 [blk 0x1fe000 1 VM_PAGE_TYPE_EPT True]) =
   Inr (0x1fd000, demo_alloc 296 253 [blk 0x1fd000 2 VM_PAGE_TYPE_EPT True])"
  "vm_reserve_ept_page demo_vp (demo_alloc 296 253 [blk 0x1fd000 2 VM_PAGE_TYPE_EPT True]) =
   Inr (0x1fc000, demo_alloc 296 252 [blk 0x1fc000 3 VM_PAGE_TYPE_EPT True])"
  "vm_reserve_ept_page demo_vp (demo_alloc 296 252 [blk 0x1fc000 3 VM_PAGE_TYPE_EPT True]) =
   Inr (0x1fb000, demo_alloc 296 251 [blk 0x1fb000 4 VM_PAGE_TYPE_EPT True])"
  using demo_take_alloc [of 296 254 "[blk 0x1fe000 1 VM_PAGE_TYPE_EPT True]"]
    demo_take_alloc [of 296 253 "[blk 0x1fd000 2 VM_PAGE_TYPE_EPT True]"]
    demo_take_alloc [of 296 252 "[blk 0x1fc000 3 VM_PAGE_TYPE_EPT True]"]
  by (simp_all add: demo_use_defs vm_reserve_ept_page_def vmx_get_free_ept_page_def demo_alloc_def)
    (simp_all add: demo_track_defs demo_arena_put)

lemma demo_take_guest: "vm_take_guest_page demo_vp (demo_alloc 296 251 [blk 0x1fb000 4 VM_PAGE_TYPE_EPT True]) =
   Inr (0x1fa000, demo_alloc 320 250
     [blk 0x1fa000 1 VM_PAGE_TYPE_GUEST_PHYSICAL False, blk 0x1fb000 4 VM_PAGE_TYPE_EPT True])"
  using demo_take_alloc [of 296 251 "[blk 0x1fb000 4 VM_PAGE_TYPE_EPT True]"]
  by (simp add: demo_use_defs vm_take_guest_page_def vm_manager_get_free_guest_physical_page_def demo_alloc_def)
    (simp add: demo_track_defs demo_arena_put)

definition demo_with_root :: "u64 \<Rightarrow> u64 \<Rightarrow> phys_mem \<Rightarrow> vm_page_list_t list \<Rightarrow> hv_state" where
  "demo_with_root used k m l = demo_st used k m [(demo_vp, vm_with_ept (demo_machine 1 []) 0x1fe000 l)]"

lemma demo_map_root: "ept_map_root demo_vp (demo_alloc 320 250
     [blk 0x1fa000 1 VM_PAGE_TYPE_GUEST_PHYSICAL False, blk 0x1fb000 4 VM_PAGE_TYPE_EPT True]) =
   Inr (0x1fe000, demo_with_root 344 250 (\<lambda>_. 0) [blk 0x1fe000 1 VM_PAGE_TYPE_EPT False,
     blk 0x1fa000 1 VM_PAGE_TYPE_GUEST_PHYSICAL False, blk 0x1fb000 3 VM_PAGE_TYPE_EPT True])"
  by (simp add: ept_map_root_def ept_take_page_def vm_manager_untrack_ept_page_from_reserved_pool_def
      vm_manager_untrack_page_from_reserved_pool_def vm_manager_track_ept_page_def demo_alloc_def
      demo_with_root_def demo_track_defs demo_arena_put vm_zero_def vm_with_ept_def Let_def)

lemma read64_zero [simp]: "read64 (\<lambda>_. 0) a = 0"
  unfolding read64_def by (rule read_le_zero) simp

lemma demo_map_next:
  assumes "read64 m (entry t 0) = 0"
  shows "ept_map_next demo_vp chk t 0 (demo_with_root 344 250 m [blk 0x1fe000 1 VM_PAGE_TYPE_EPT False,
      blk 0x1fa000 1 VM_PAGE_TYPE_GUEST_PHYSICAL False, blk 0x1fb000 3 VM_PAGE_TYPE_EPT True]) =
    Inr (0x1fd000, demo_with_root 344 250 (write64 m (entry t 0) (ept_entry 0x1fd000)) [blk 0x1fd000 2 VM_PAGE_TYPE_EPT False,
      blk 0x1fa000 1 VM_PAGE_TYPE_GUEST_PHYSICAL False, blk 0x1fb000 2 VM_PAGE_TYPE_EPT True])"
  and "ept_map_next demo_vp chk t 0 (demo_with_root 344 250 m [blk 0x1fd000 2 VM_PAGE_TYPE_EPT False,
      blk 0x1fa000 1 VM_PAGE_TYPE_GUEST_PHYSICAL False, blk 0x1fb000 2 VM_PAGE_TYPE_EPT True]) =
    Inr (0x1fc000, demo_with_root 344 250 (write64 m (entry t 0) (ept_entry 0x1fc000)) [blk 0x1fc000 3 VM_PAGE_TYPE_EPT False,
      blk 0x1fa000 1 VM_PAGE_TYPE_GUEST_PHYSICAL False, blk 0x1fb000 1 VM_PAGE_TYPE_EPT True])"
  and "ept_map_next demo_vp chk t 0 (demo_with_root 344 250 m [blk 0x1fc000 3 VM_PAGE_TYPE_EPT False,
      blk 0x1fa000 1 VM_PAGE_TYPE_GUEST_PHYSICAL False, blk 0x1fb000 1 VM_PAGE_TYPE_EPT True]) =
    Inr (0x1fb000, demo_with_root 344 250 (write64 m (entry t 0) (ept_entry 0x1fb000)) [blk 0x1fb000 4 VM_PAGE_TYPE_EPT False,
      blk 0x1fa000 1 VM_PAGE_TYPE_GUEST_PHYSICAL False, blk 0x1fb000 0 VM_PAGE_TYPE_EPT True])"
  using assms
  by (simp_all add: ept_map_next_def ept_take_page_def vm_manager_untrack_ept_page_from_reserved_pool_def
      vm_manager_untrack_page_from_reserved_pool_def vm_manager_track_ept_page_def
      demo_with_root_def demo_track_defs demo_arena_put vm_zero_def vm_with_ept_def Let_def)

text \<open>The tables that the mapping of guest page 0 to \<open>0x1fa000\<close> writes.\<close>

definition demo_tables :: phys_mem where
  "demo_tables = write64s (\<lambda>_. 0) [(entry 0x1fe000 0, ept_entry 0x1fd000), (entry 0x1fd000 0, ept_entry 0x1fc000),
     (entry 0x1fc000 0, ept_entry 0x1fb000), (entry 0x1fb000 0, ept_entry 0x1fa000)]"

definition demo_mapped :: hv_state where
  "demo_mapped = demo_with_root 344 250 demo_tables [blk 0x1fb000 4 VM_PAGE_TYPE_EPT False,
     blk 0x1fa000 1 VM_PAGE_TYPE_GUEST_PHYSICAL False, blk 0x1fb000 0 VM_PAGE_TYPE_EPT True]"

lemma demo_entry: "entry p 0 = p"
  by (simp add: entry_def)

lemma demo_index_0:
  "LINEAR_ADDRESS_GET_PML4 0 = 0" "LINEAR_ADDRESS_GET_DIRECTORY_PTR 0 = 0"
  "LINEAR_ADDRESS_GET_DIRECTORY 0 = 0" "LINEAR_ADDRESS_GET_TABLE 0 = 0"
  by (simp_all add: index_as_take_bit)

lemma demo_map: "vmx_ept_map_page demo_vp 0 0x1fa000 (demo_alloc 320 250
     [blk 0x1fa000 1 VM_PAGE_TYPE_GUEST_PHYSICAL False, blk 0x1fb000 4 VM_PAGE_TYPE_EPT True]) = Inr demo_mapped"
  by (simp add: vmx_ept_map_page_def demo_map_root demo_map_next demo_index_0 demo_entry mem64.rd_wr entry_ok_def Let_def)
    (simp add: demo_with_root_def demo_mapped_def demo_tables_def write64s_def demo_entry mem64.rd_wr entry_ok_def)

lemma demo_allocate: "vm_manager_allocate_guest_physical_memory demo_vp 1 demo_vm = Inr demo_mapped"
proof -
  have put: "put_vm demo_vp (demo_machine 0 []\<lparr>guest_physical_pages := 1\<rparr>) demo_vm = demo_alloc 272 255 []"
    by (simp add: demo_vm_def demo_alloc_def demo_machine_def vm_zero_def)
  have n: "unat (ept_pages_for 1) = 4"
    by (simp add: ept_pages_for_def CEIL_DIV_def PAGE_TABLE_ENTRIES_def)
  have g: "get_vm demo_vm demo_vp = Inr (demo_machine 0 [])" by (simp add: demo_vm_def)
  have z: "guest_physical_pages (demo_machine 0 []) = 0" by (simp add: demo_machine_def)
  have loop: "for_loop (\<lambda>i s. bnd (vm_reserve_ept_page demo_vp s) (\<lambda>(_, s). Inr s)) 0 4 (demo_alloc 272 255 []) =
      Inr (demo_alloc 296 251 [blk 0x1fb000 4 VM_PAGE_TYPE_EPT True])"
    by (simp add: eval_nat_numeral demo_reserve_first demo_reserve_next)
  show ?thesis
    by (simp add: vm_manager_allocate_guest_physical_memory_def g z put n loop demo_take_guest demo_map PAGE_SIZE_def)
qed

lemma demo_vm_machine:
  "get_vm demo_vm demo_vp = Inr (demo_machine 0 [])" "guest_memory_is (phys demo_vm) (demo_machine 0 []) []"
  by (simp_all add: demo_vm_def demo_machine_def vm_zero_def guest_memory_is_def vm_walk_def)

lemma demo_mapped_facts:
  obtains v ps h where "get_vm demo_mapped demo_vp = Inr v" "guest_mapped (phys demo_mapped) v ps"
    "vmx_ept_get_host_physical_address demo_mapped demo_vp 0 = Inr (Some h)" "hv_ok demo_mapped [demo_arena]"
proof -
  obtain v ps where v: "hv_ok demo_mapped [demo_arena]" "get_vm demo_mapped demo_vp = Inr v"
    "guest_memory_is (phys demo_mapped) v ps" "length ps = unat (1 :: u64)"
    using vm_manager_allocate_guest_physical_memory_ok [OF demo_allocate demo_vm_ok demo_vm_machine] by auto
  moreover have "guest_pfn 0 = 0" by (simp add: guest_pfn_def)
  ultimately show ?thesis
    using guest_memory_is_mapped [OF v(3)]
    by (intro that [of v ps "ps ! 0"]) (simp_all add: vmx_ept_get_host_physical_address_walk guest_memory_is_def)
qed

text \<open>The state before the mapping satisfies the invariant, like each state of the loops.\<close>

definition demo_premap :: hv_state where
  "demo_premap = demo_alloc 320 250
     [blk 0x1fa000 1 VM_PAGE_TYPE_GUEST_PHYSICAL False, blk 0x1fb000 4 VM_PAGE_TYPE_EPT True]"

lemma demo_step_ok:
  assumes "hv_ok s as"
  shows "vm_reserve_ept_page vp s = Inr (n, s') \<Longrightarrow> hv_ok s' as"
    and "vm_take_guest_page vp s = Inr (n, s') \<Longrightarrow> hv_ok s' as"
  using vm_reserve_ept_page_ok [OF _ assms] vm_take_guest_page_ok [OF _ assms] unfolding vm_gained_def by blast+

lemma demo_first_ok: "hv_ok (demo_alloc 272 255 []) [demo_arena]"
proof -
  have "hv_inv (put_vm demo_vp (demo_machine 1 []) (demo_vm\<lparr>arena_heap := arena_heap demo_vm\<rparr>)) [demo_arena]"
    by (rule hv_inv_change_vm(1) [OF hv_ok_inv [OF demo_vm_ok] demo_vm_machine(1)
        arena_grows_refl [OF hv_ok_inv [OF demo_vm_ok]], of _ "owned demo_vm [demo_arena]"])
      (use hv_ok_inv [OF demo_vm_ok] in \<open>auto simp: demo_machine_def vm_zero_def vm_owned_def hv_inv_def\<close>)
  then have "hv_ok (put_vm demo_vp (demo_machine 1 []) (demo_vm\<lparr>arena_heap := arena_heap demo_vm\<rparr>)) [demo_arena]"
    by (rule hv_ok_put_vm [OF demo_vm_ok demo_vm_machine(1)])
      (simp add: vm_mem_ok_def demo_machine_def vm_zero_def)
  then show ?thesis by (simp add: demo_vm_def demo_alloc_def demo_arena_put)
qed

lemma demo_premap_ok: "hv_ok demo_premap [demo_arena]"
proof -
  note demo_step_ok(1) [OF demo_first_ok demo_reserve_first]
  note demo_step_ok(1) [OF this demo_reserve_next(1)]
  note demo_step_ok(1) [OF this demo_reserve_next(2)]
  note demo_step_ok(1) [OF this demo_reserve_next(3)]
  from demo_step_ok(2) [OF this demo_take_guest] show ?thesis by (simp only: demo_premap_def)
qed

lemma demo_premap_map: "vmx_ept_map_page demo_vp 0 0x1fa000 demo_premap = Inr demo_mapped"
  by (simp only: demo_premap_def demo_map)

lemma demo_premap_machine: "\<exists>v. get_vm demo_premap demo_vp = Inr v"
  by (simp add: demo_premap_def demo_alloc_def)

end
