(* ===== verification/Rkhv_String.thy ===== *)
theory Rkhv_String
  imports Rkhv_Prelude
begin

text \<open>
  hv/src/string.c and the printing functions of hv/src/stdio.c.  A C string is a list of characters
  without its terminator, a character buffer is a list with one, and a pointer into a buffer is an
  index.  The lemmas show that the digit loops of \<open>str_itoh\<close> and \<open>str_utoa\<close> compute the usual digits of
  a number, and what \<open>str_printf_core\<close> makes of each conversion; reading past the terminator of the
  format, a null string and a missing argument are faults.
\<close>

section \<open>Numbers\<close>

definition digit_char :: "nat \<Rightarrow> char" where
  "digit_char d = (if d < 10 then char_of (48 + d) else char_of (97 + d - 10))"

text \<open>
  The loop of \<open>str_itoh\<close>, counting down: \<open>index\<close> is one more than in the code.  The second component
  is \<open>trimmed_start\<close>, \<open>None\<close> for \<open>NULL\<close>.
\<close>

primrec itoh_loop :: "nat \<Rightarrow> u64 \<Rightarrow> nat option \<Rightarrow> string \<Rightarrow> string \<times> nat option" where
  "itoh_loop 0 value trimmed_start out = (out, trimmed_start)"
| "itoh_loop (Suc index) value trimmed_start out =
     (let nibble = value AND 0xf;
          out = out[index := digit_char (unat nibble)];
          value = drop_bit 4 value;
          trimmed_start = (if value = 0 \<and> trimmed_start = None then Some index else trimmed_start)
      in itoh_loop index value trimmed_start out)"

definition str_itoh :: "string \<Rightarrow> u64 \<Rightarrow> nat \<Rightarrow> string \<times> nat option" where
  "str_itoh out_string value sz = itoh_loop sz value None out_string"

primrec utoa_loop :: "nat \<Rightarrow> u64 \<Rightarrow> string \<Rightarrow> nat \<times> string" where
  "utoa_loop 0 value buffer = (0, buffer[0 := digit_char (unat (value mod 10))])"
| "utoa_loop (Suc index) value buffer =
     (let buffer = buffer[Suc index := digit_char (unat (value mod 10))]; value = value div 10
      in if value \<noteq> 0 then utoa_loop index value buffer else (Suc index, buffer))"

text \<open>The result is the index of the first digit and the buffer.\<close>

definition str_utoa :: "string \<Rightarrow> u64 \<Rightarrow> nat \<Rightarrow> nat \<times> string" where
  "str_utoa buffer value buffer_size = utoa_loop (buffer_size - 1) value buffer"

section \<open>Formatted output\<close>

abbreviation NUL :: char where "NUL \<equiv> CHR 0x00"

definition c_string :: "string \<Rightarrow> string" where
  "c_string s = takeWhile (\<lambda>c. c \<noteq> NUL) s"

definition str_strlen :: "string \<Rightarrow> nat" where
  "str_strlen s = length (c_string s)"

text \<open>The arguments of a call: a string pointer, maybe null, or an integer.\<close>

datatype printf_arg = Arg_str "string option" | Arg_int u64

text \<open>The calls of the two handlers, in order.\<close>

datatype printf_event = Char_handler char | String_handler "string option"

definition va_arg_str :: "printf_arg list \<Rightarrow> (string option \<times> printf_arg list) res" where
  "va_arg_str args = (case args of Arg_str p # r \<Rightarrow> Inr (p, r) | _ \<Rightarrow> Inl (Fault ''va_arg''))"

definition va_arg_int :: "printf_arg list \<Rightarrow> (u64 \<times> printf_arg list) res" where
  "va_arg_int args = (case args of Arg_int v # r \<Rightarrow> Inr (v, r) | _ \<Rightarrow> Inl (Fault ''va_arg''))"

definition printf_buffer :: string where
  "printf_buffer = ''0x????????????????'' @ [NUL]"

definition printf_p :: "u64 \<Rightarrow> string option" where
  "printf_p value = Some (take 2 printf_buffer @ fst (str_itoh (drop 2 printf_buffer) value 16))"

definition printf_u :: "u64 \<Rightarrow> string option" where
  "printf_u value = (case str_utoa (replicate 32 NUL) value 31 of (start, buffer) \<Rightarrow>
     Some (drop start (buffer[31 := NUL])))"

definition printf_len :: "char \<Rightarrow> nat" where
  "printf_len len_char = (if len_char = CHR ''b'' then 2 else if len_char = CHR ''w'' then 4
     else if len_char = CHR ''d'' then 8 else if len_char = CHR ''q'' then 16 else 16)"

definition printf_x :: "char \<Rightarrow> char \<Rightarrow> u64 \<Rightarrow> string option" where
  "printf_x prefixed_char len_char value =
     (let len = printf_len len_char;
          buffer = printf_buffer[len + 2 := NUL];
          (out, trimmed_start) = str_itoh (drop 2 buffer) value len;
          buffer = take 2 buffer @ out
      in if prefixed_char = CHR ''t'' then map_option (\<lambda>i. drop (2 + i) buffer) trimmed_start
         else if prefixed_char = CHR ''p'' then Some buffer else Some (drop 2 buffer))"

text \<open>
  One conversion, from the character after the \<open>%\<close>: the events, what is left of the format and of the
  arguments, and \<open>read_z\<close>.  The character at the end of the list is the terminator; to go past it is
  a fault when it is read next, and the loop reads at once.
\<close>

definition printf_conversion :: "string \<Rightarrow> printf_arg list \<Rightarrow>
    (printf_event list \<times> string \<times> printf_arg list \<times> bool) res" where
  "printf_conversion fmt args = (case fmt of [] \<Rightarrow> Inl (Fault ''fmt'') | type # fmt \<Rightarrow>
     if type = CHR ''s'' then
       bnd (va_arg_str args) (\<lambda>(substr, args). Inr ([String_handler (map_option c_string substr)], fmt, args, False))
     else if type = CHR ''p'' then
       bnd (va_arg_int args) (\<lambda>(value, args). Inr ([String_handler (map_option c_string (printf_p value))], fmt, args, False))
     else if type = CHR ''u'' then
       bnd (va_arg_int args) (\<lambda>(value, args). Inr ([String_handler (map_option c_string (printf_u value))], fmt, args, False))
     else if type = CHR ''x'' then
       bnd (va_arg_int args) (\<lambda>(value, args). case fmt of
         prefixed_char # len_char # fmt \<Rightarrow>
           Inr ([String_handler (map_option c_string (printf_x prefixed_char len_char value))], fmt, args, False)
       | _ \<Rightarrow> Inl (Fault ''fmt''))
     else if type = CHR ''z'' then Inr ([], fmt, args, True)
     else Inr ([Char_handler type], fmt, args, False))"

lemma printf_conversion_shorter:
  "printf_conversion fmt args = Inr (es, fmt', args', z) \<Longrightarrow> length fmt' < length fmt"
  by (cases fmt; cases "tl fmt"; cases "tl (tl fmt)")
    (auto simp: printf_conversion_def bnd_Inr_iff split: if_splits)

function printf_loop :: "bool \<Rightarrow> string \<Rightarrow> printf_arg list \<Rightarrow> printf_event list res" where
  "printf_loop read_z fmt args = (case fmt of [] \<Rightarrow> Inr [] | c # rest \<Rightarrow>
     if c \<noteq> CHR ''%'' \<and> \<not> read_z then
       bnd (printf_loop read_z rest args) (\<lambda>es. Inr (Char_handler c # es))
     else bnd (printf_conversion (if read_z then fmt else rest) args) (\<lambda>r.
       bnd (printf_loop (snd (snd (snd r))) (fst (snd r)) (fst (snd (snd r)))) (\<lambda>es. Inr (fst r @ es))))"
  by pat_completeness auto
termination
  by (relation "measure (\<lambda>(z, fmt, args). length fmt)")
    (auto dest!: printf_conversion_shorter split: if_splits)

declare printf_loop.simps [simp del]

definition str_printf_core :: "string \<Rightarrow> printf_arg list \<Rightarrow> printf_event list res" where
  "str_printf_core fmt args = printf_loop False fmt args"

text \<open>\<open>stdio_printf\<close>: the handlers are \<open>stdio_putc\<close> and \<open>stdio_puts\<close>; the result is what they print.\<close>

primrec stdio_events :: "printf_event list \<Rightarrow> string res" where
  "stdio_events [] = Inr []"
| "stdio_events (e # es) =
     bnd (case e of Char_handler c \<Rightarrow> Inr [c]
          | String_handler s \<Rightarrow> (case s of None \<Rightarrow> Inl (Fault ''stdio_puts'') | Some t \<Rightarrow> Inr t))
       (\<lambda>o1. bnd (stdio_events es) (\<lambda>o2. Inr (o1 @ o2)))"

definition stdio_printf :: "string \<Rightarrow> printf_arg list \<Rightarrow> string res" where
  "stdio_printf fmt args = bnd (str_printf_core fmt args) stdio_events"

section \<open>Digits\<close>

text \<open>The reference: the \<open>n\<close> low digits of a number, and all of them.\<close>

primrec digits :: "nat \<Rightarrow> nat \<Rightarrow> nat \<Rightarrow> string" where
  "digits b 0 v = []"
| "digits b (Suc n) v = digits b n (v div b) @ [digit_char (v mod b)]"

fun show_base :: "nat \<Rightarrow> nat \<Rightarrow> string" where
  "show_base b v = (if v < b \<or> b < 2 then [digit_char v] else show_base b (v div b) @ [digit_char (v mod b)])"

declare show_base.simps [simp del]

text \<open>And the value that a string of digits stands for.\<close>

definition char_digit :: "char \<Rightarrow> nat" where
  "char_digit c = (let n = of_char c in if n < 58 then n - 48 else n - 87)"

definition read_base :: "nat \<Rightarrow> string \<Rightarrow> nat" where
  "read_base b s = foldl (\<lambda>v c. b * v + char_digit c) 0 s"

lemma char_digit_digit_char: "d < 16 \<Longrightarrow> char_digit (digit_char d) = d"
  by (auto simp: char_digit_def digit_char_def)

lemma digit_char_not_NUL [simp]: "d < 16 \<Longrightarrow> digit_char d \<noteq> NUL"
proof
  assume "d < 16" "digit_char d = NUL"
  then have "of_char (digit_char d) = (0 :: nat)" by simp
  with \<open>d < 16\<close> show False by (auto simp: digit_char_def split: if_splits)
qed

lemma length_digits [simp]: "length (digits b n v) = n"
  by (induction n arbitrary: v) simp_all

lemma read_base_digits: "0 < b \<Longrightarrow> b \<le> 16 \<Longrightarrow> read_base b (digits b n v) = v mod b ^ n"
proof (induction n arbitrary: v)
  case 0
  then show ?case by (simp add: read_base_def)
next
  case (Suc n)
  have "v mod b < 16" using Suc.prems mod_less_divisor [of b v] by linarith
  then have "read_base b (digits b (Suc n) v) = b * (v div b mod b ^ n) + v mod b"
    using Suc by (simp add: read_base_def char_digit_digit_char)
  also have "\<dots> = v mod b ^ Suc n" using mod_mult2_eq [of v b "b ^ n"] by simp
  finally show ?case .
qed

lemma read_base_show_base: "2 \<le> b \<Longrightarrow> b \<le> 16 \<Longrightarrow> read_base b (show_base b v) = v"
proof (induction b v rule: show_base.induct)
  case (1 b v)
  then have m: "v mod b < 16" "v < b \<Longrightarrow> v < 16" using mod_less_divisor [of b v] by linarith+
  show ?case
  proof (cases "v < b")
    case True
    then show ?thesis using m by (subst show_base.simps) (simp add: read_base_def char_digit_digit_char)
  next
    case False
    then have "read_base b (show_base b (v div b)) = v div b" using 1 by simp
    then show ?thesis
      using False 1(2) m by (subst show_base.simps) (simp add: read_base_def char_digit_digit_char)
  qed
qed

lemma digits_show_base:
  assumes "2 \<le> b" "v < b ^ Suc n"
  shows "digits b (Suc n) v = replicate (Suc n - length (show_base b v)) (digit_char 0) @ show_base b v \<and>
    length (show_base b v) \<le> Suc n"
  using assms
proof (induction n arbitrary: v)
  case 0
  then show ?case by (simp add: show_base.simps)
next
  case (Suc n)
  show ?case
  proof (cases "v < b")
    case True
    have z: "digits b k 0 = replicate k (digit_char 0)" for k
      by (induction k) (simp_all add: replicate_append_same)
    show ?thesis using True z [of "Suc n"] by (subst (1 2 3) show_base.simps) simp
  next
    case False
    have "v div b < b ^ Suc n" using Suc.prems by (simp add: less_mult_imp_div_less mult.commute)
    from Suc.IH [OF Suc.prems(1) this] False Suc.prems(1) show ?thesis
      by (subst (1 2 3) show_base.simps) (simp add: Suc_diff_le)
  qed
qed

section \<open>The digit loops\<close>

lemma unat_nibble: "unat (v AND 0xf :: u64) = unat v mod 16"
proof -
  have "v AND 0xf = take_bit 4 v" by (simp add: take_bit_eq_mask mask_eq_exp_minus_1)
  then show ?thesis by (simp add: take_bit_eq_mod unat_mod)
qed

lemma unat_shift4: "unat (drop_bit 4 v :: u64) = unat v div 16"
  by (simp add: drop_bit_eq_div unat_div)

lemma drop_update_same: "n < length xs \<Longrightarrow> drop n (xs[n := x]) = x # drop (Suc n) xs"
  by (metis Cons_nth_drop_Suc drop_update_cancel length_list_update lessI nth_list_update_eq)

lemma itoh_loop_digits:
  "n \<le> length out \<Longrightarrow> fst (itoh_loop n v t out) = digits 16 n (unat v) @ drop n out"
  by (induction n arbitrary: v t out) (simp_all add: Let_def unat_nibble unat_shift4 drop_update_same)

lemma length_show_base_step: "2 \<le> b \<Longrightarrow> b \<le> v \<Longrightarrow> length (show_base b v) = Suc (length (show_base b (v div b)))"
  by (subst show_base.simps) simp

lemma show_base_small: "v < b \<Longrightarrow> show_base b v = [digit_char v]"
  by (subst show_base.simps) simp

lemma show_base_step: "2 \<le> b \<Longrightarrow> b \<le> v \<Longrightarrow> show_base b v = show_base b (v div b) @ [digit_char (v mod b)]"
  by (subst show_base.simps) simp

lemma drop_bit_eq_0: "(drop_bit 4 v :: u64) = 0 \<longleftrightarrow> unat v < 16"
proof -
  have "(drop_bit 4 v = 0) = (unat (drop_bit 4 v) = 0)" by (simp add: unsigned_eq_0_iff)
  also have "\<dots> = (unat v < 16)" by (simp add: unat_shift4 div_eq_0_iff)
  finally show ?thesis .
qed

lemma itoh_loop_trimmed:
  "snd (itoh_loop n v t out) = (if t \<noteq> None then t
     else if 0 < n \<and> unat v < 16 ^ n then Some (n - length (show_base 16 (unat v))) else None)"
proof (induction n arbitrary: v t out)
  case 0
  then show ?case by simp
next
  case (Suc n)
  have step: "snd (itoh_loop (Suc n) v t out) = snd (itoh_loop n (drop_bit 4 v)
      (if unat v < 16 \<and> t = None then Some n else t) (out[n := digit_char (unat (v AND 0xf))]))"
    by (simp add: Let_def drop_bit_eq_0)
  show ?case
  proof (cases "unat v < 16")
    case True
    have "16 \<le> (16 :: nat) ^ Suc n" by simp
    with True have "unat v < 16 ^ Suc n" by linarith
    with True show ?thesis unfolding step Suc by (cases t) (simp_all add: show_base_small del: power_Suc)
  next
    case False
    have "unat v div 16 < 16 ^ n \<longleftrightarrow> unat v < 16 ^ Suc n"
      by (simp add: div_less_iff_less_mult mult.commute)
    moreover have "0 < n" if "unat v < 16 ^ Suc n" using that False by (cases n) auto
    ultimately show ?thesis using False unfolding step Suc
      by (cases t) (auto simp: unat_shift4 length_show_base_step simp del: power_Suc)
  qed
qed

lemma utoa_loop_show:
  assumes "index < length buffer" "unat v < 10 ^ Suc index"
  shows "utoa_loop index v buffer =
    (Suc index - length (show_base 10 (unat v)),
     take (Suc index - length (show_base 10 (unat v))) buffer @ show_base 10 (unat v) @ drop (Suc index) buffer)"
  using assms
proof (induction index arbitrary: v buffer)
  case 0
  then have "unat v < 10" by simp
  with 0 show ?case
    by (cases buffer) (simp_all add: show_base_small unat_mod)
next
  case (Suc index)
  define b where "b = buffer[Suc index := digit_char (unat (v mod 10))]"
  show ?case
  proof (cases "unat v < 10")
    case True
    then have "v div 10 = 0" by (intro word_unat_eqI) (simp add: unat_div)
    moreover have "b = take (Suc index) buffer @ digit_char (unat v mod 10) # drop (Suc (Suc index)) buffer"
      using Suc.prems by (simp add: b_def upd_conv_take_nth_drop unat_mod)
    ultimately show ?thesis using True by (simp add: show_base_small b_def Let_def)
  next
    case False
    then have nz: "v div 10 \<noteq> 0" using unat_div [of v 10] by auto
    have d: "unat (v div 10) = unat v div 10" by (simp add: unat_div)
    have lt: "unat (v div 10) < 10 ^ Suc index" unfolding d
      using Suc.prems(2) by (simp add: less_mult_imp_div_less mult.commute)
    have len: "length (show_base 10 (unat v)) = Suc (length (show_base 10 (unat v div 10)))"
      using False by (simp add: length_show_base_step)
    have "drop (Suc index) b = digit_char (unat v mod 10) # drop (Suc (Suc index)) buffer"
      using Suc.prems by (simp add: b_def drop_update_same unat_mod)
    moreover have "take (Suc index - k) b = take (Suc index - k) buffer" for k
      by (simp add: b_def)
    moreover have "utoa_loop index (v div 10) b =
      (Suc index - length (show_base 10 (unat v div 10)),
       take (Suc index - length (show_base 10 (unat v div 10))) b @ show_base 10 (unat v div 10) @ drop (Suc index) b)"
      using Suc.IH [OF _ lt, of b] Suc.prems(1) by (simp add: b_def d)
    ultimately show ?thesis using nz False by (simp add: Let_def b_def [symmetric] len show_base_step)
  qed
qed

section \<open>Conversions\<close>

lemma set_digits: "0 < b \<Longrightarrow> b \<le> 16 \<Longrightarrow> NUL \<notin> set (digits b n v)"
proof (induction n arbitrary: v)
  case (Suc n)
  then have "v mod b < 16" using mod_less_divisor [of b v] by linarith
  from digit_char_not_NUL [OF this] Suc show ?case by auto
qed simp

lemma set_show_base: "2 \<le> b \<Longrightarrow> b \<le> 16 \<Longrightarrow> NUL \<notin> set (show_base b v)"
proof (induction b v rule: show_base.induct)
  case (1 b v)
  then have "v mod b < 16" "v < b \<Longrightarrow> v < 16" using mod_less_divisor [of b v] by linarith+
  then have "digit_char (v mod b) \<noteq> NUL" "v < b \<Longrightarrow> digit_char v \<noteq> NUL" by simp_all
  with 1 show ?case by (cases "v < b") (auto simp: show_base_small show_base_step not_less eq_commute [of NUL])
qed

lemma c_string_terminated: "NUL \<notin> set t \<Longrightarrow> c_string (t @ NUL # r) = t"
  by (simp add: c_string_def takeWhile_append2 takeWhile_tail) (metis (mono_tags) takeWhile_eq_all_conv takeWhile_tail)

lemma printf_u_show: "map_option c_string (printf_u v) = Some (show_base 10 (unat v))"
proof -
  let ?d = "show_base 10 (unat v)"
  have lt: "unat v < 10 ^ Suc 30" by (rule less_trans [OF unat_lt_2_64]) simp
  have len: "length ?d \<le> 31" using digits_show_base [OF _ lt] by simp
  have "str_utoa (replicate 32 NUL) v 31 = (31 - length ?d, replicate (31 - length ?d) NUL @ ?d @ [NUL])"
    unfolding str_utoa_def using utoa_loop_show [OF _ lt, of "replicate 32 NUL"] by simp
  moreover have "(replicate (31 - length ?d) NUL @ ?d @ [NUL])[31 := NUL] = replicate (31 - length ?d) NUL @ ?d @ [NUL]"
    using len by (simp add: list_update_append)
  ultimately have "printf_u v = Some (?d @ [NUL])" by (simp add: printf_u_def)
  then show ?thesis by (simp add: c_string_terminated set_show_base)
qed

lemma digits_terminated: "c_string (digits 16 n v @ NUL # r) = digits 16 n v"
  by (rule c_string_terminated) (simp add: set_digits)

lemma printf_p_digits: "map_option c_string (printf_p v) = Some (''0x'' @ digits 16 16 (unat v))"
proof -
  have "fst (str_itoh (drop 2 printf_buffer) v 16) = digits 16 16 (unat v) @ [NUL]"
    unfolding str_itoh_def by (subst itoh_loop_digits) (simp_all add: printf_buffer_def)
  then have "printf_p v = Some ((''0x'' @ digits 16 16 (unat v)) @ [NUL])"
    by (simp add: printf_p_def) (simp add: printf_buffer_def)
  then show ?thesis using c_string_terminated [of "''0x'' @ digits 16 16 (unat v)" "[]"] set_digits [of 16 16 "unat v"]
    by simp
qed

lemma printf_len_cases: "printf_len l \<in> {2, 4, 8, 16}"
  by (simp add: printf_len_def)

lemma printf_x_buffer:
  assumes "len \<in> {2, 4, 8, 16}"
  obtains r where "fst (str_itoh (drop 2 (printf_buffer[len + 2 := NUL])) v len) = digits 16 len (unat v) @ NUL # r"
    "take 2 (printf_buffer[len + 2 := NUL]) = ''0x''"
proof -
  let ?x = "drop 2 (printf_buffer[len + 2 := NUL])"
  have l: "len < 17" using assms by auto
  have "length printf_buffer = 19" by (simp add: printf_buffer_def)
  then have x: "length ?x = 17" "?x ! len = NUL" using l by simp_all
  have e: "?x = take len ?x @ NUL # drop (Suc len) ?x"
    using id_take_nth_drop [of len ?x] l x by simp
  then have "drop len ?x = NUL # drop (Suc len) ?x" using Cons_nth_drop_Suc [of len ?x] l x by simp
  then have "fst (str_itoh ?x v len) = digits 16 len (unat v) @ NUL # drop (Suc len) ?x"
    using l x(1) by (simp add: str_itoh_def itoh_loop_digits)
  moreover have "take 2 (printf_buffer[len + 2 := NUL]) = ''0x''" by (simp add: printf_buffer_def)
  ultimately show ?thesis by (rule that)
qed

lemma printf_x_spec:
  assumes "len = printf_len l"
  shows "map_option c_string (printf_x pf l v) =
    (if pf = CHR ''t'' then if unat v < 16 ^ len then Some (show_base 16 (unat v)) else None
     else if pf = CHR ''p'' then Some (''0x'' @ digits 16 len (unat v)) else Some (digits 16 len (unat v)))"
proof -
  have l: "len \<in> {2, 4, 8, 16}" using printf_len_cases assms by blast
  then have "0 < len" by fastforce
  obtain r where r: "fst (str_itoh (drop 2 (printf_buffer[len + 2 := NUL])) v len) = digits 16 len (unat v) @ NUL # r"
    "take 2 (printf_buffer[len + 2 := NUL]) = ''0x''"
    by (rule printf_x_buffer [OF l])
  have "snd (str_itoh (drop 2 (printf_buffer[len + 2 := NUL])) v len) =
      (if unat v < 16 ^ len then Some (len - length (show_base 16 (unat v))) else None)"
    using \<open>0 < len\<close> by (simp add: str_itoh_def itoh_loop_trimmed)
  with r obtain ts where i: "str_itoh (drop 2 (printf_buffer[len + 2 := NUL])) v len =
      (digits 16 len (unat v) @ NUL # r, ts)"
    "ts = (if unat v < 16 ^ len then Some (len - length (show_base 16 (unat v))) else None)"
    by (metis prod.collapse)
  have x: "printf_x pf l v = (let buffer = ''0x'' @ digits 16 len (unat v) @ NUL # r in
      if pf = CHR ''t'' then map_option (\<lambda>i. drop (2 + i) buffer) ts
      else if pf = CHR ''p'' then Some buffer else Some (drop 2 buffer))"
    unfolding printf_x_def assms [symmetric] Let_def i(1) r(2) by simp
  have p: "c_string (''0x'' @ digits 16 len (unat v) @ NUL # r) = ''0x'' @ digits 16 len (unat v)"
    using c_string_terminated [of "''0x'' @ digits 16 len (unat v)" r] set_digits [of 16 len "unat v"] by simp
  have t: "c_string (drop (len - length (show_base 16 (unat v))) (digits 16 len (unat v) @ NUL # r)) =
      show_base 16 (unat v)" if "unat v < 16 ^ len"
  proof -
    from \<open>0 < len\<close> obtain n where n: "len = Suc n" by (cases len) simp_all
    have "digits 16 len (unat v) = replicate (len - length (show_base 16 (unat v))) (digit_char 0) @ show_base 16 (unat v)"
      using digits_show_base [of 16 "unat v" n] that unfolding n by simp
    then have "drop (len - length (show_base 16 (unat v))) (digits 16 len (unat v) @ NUL # r) =
        show_base 16 (unat v) @ NUL # r" by simp
    then show ?thesis by (simp add: c_string_terminated set_show_base)
  qed
  show ?thesis unfolding x i(2) using p t by (simp add: digits_terminated)
qed

section \<open>The conversion loop\<close>

named_theorems printf_simps \<open>symbolic execution of a format\<close>

lemma printf_loop_Nil [printf_simps]: "printf_loop z [] args = Inr []"
  by (subst printf_loop.simps) simp

lemma printf_loop_char [printf_simps]:
  "c \<noteq> CHR ''%'' \<Longrightarrow> printf_loop False (c # fmt) args = bnd (printf_loop False fmt args) (\<lambda>es. Inr (Char_handler c # es))"
  by (subst printf_loop.simps) simp

lemma printf_loop_percent:
  "printf_loop False (CHR ''%'' # fmt) args = bnd (printf_conversion fmt args) (\<lambda>r.
     bnd (printf_loop (snd (snd (snd r))) (fst (snd r)) (fst (snd (snd r)))) (\<lambda>es. Inr (fst r @ es)))"
  by (subst printf_loop.simps) simp

lemma printf_loop_conversions [printf_simps]:
  "printf_loop False (CHR ''%'' # CHR ''s'' # fmt) (Arg_str p # args) =
     bnd (printf_loop False fmt args) (\<lambda>es. Inr (String_handler (map_option c_string p) # es))"
  "printf_loop False (CHR ''%'' # CHR ''p'' # fmt) (Arg_int v # args) =
     bnd (printf_loop False fmt args) (\<lambda>es. Inr (String_handler (Some (''0x'' @ digits 16 16 (unat v))) # es))"
  "printf_loop False (CHR ''%'' # CHR ''u'' # fmt) (Arg_int v # args) =
     bnd (printf_loop False fmt args) (\<lambda>es. Inr (String_handler (Some (show_base 10 (unat v))) # es))"
  "printf_loop False (CHR ''%'' # CHR ''%'' # fmt) args =
     bnd (printf_loop False fmt args) (\<lambda>es. Inr (Char_handler (CHR ''%'') # es))"
  by (simp_all add: printf_loop_percent printf_conversion_def va_arg_str_def va_arg_int_def
      printf_u_show printf_p_digits)

lemma printf_loop_x:
  "printf_loop False (CHR ''%'' # CHR ''x'' # pf # l # fmt) (Arg_int v # args) =
     bnd (printf_loop False fmt args) (\<lambda>es. Inr (String_handler (map_option c_string (printf_x pf l v)) # es))"
  by (simp add: printf_loop_percent printf_conversion_def va_arg_int_def)

lemma printf_loop_xp [printf_simps]:
  "printf_loop False (CHR ''%'' # CHR ''x'' # CHR ''p'' # l # fmt) (Arg_int v # args) =
     bnd (printf_loop False fmt args) (\<lambda>es. Inr (String_handler (Some (''0x'' @ digits 16 (printf_len l) (unat v))) # es))"
  by (simp add: printf_loop_x printf_x_spec)

lemma bnd_Inr_right: "bnd r Inr = r"
  by (cases r) simp_all

lemma printf_loop_z [printf_simps]:
  "printf_loop False (CHR ''%'' # CHR ''z'' # CHR ''x'' # fmt) args = printf_loop False (CHR ''%'' # CHR ''x'' # fmt) args"
  by (simp add: printf_loop_percent printf_conversion_def)
    (subst printf_loop.simps, simp add: printf_conversion_def bnd_Inr_right)

text \<open>A format without \<open>%\<close> prints itself.\<close>

lemma printf_loop_text:
  "CHR ''%'' \<notin> set t \<Longrightarrow> printf_loop False (t @ fmt) args =
     bnd (printf_loop False fmt args) (\<lambda>es. Inr (map Char_handler t @ es))"
proof (induction t)
  case Nil
  then show ?case by (cases "printf_loop False fmt args") simp_all
next
  case (Cons c t)
  then show ?case by (auto simp: printf_loop_char bnd_assoc)
qed

lemma stdio_events_append:
  "stdio_events (es @ fs) = bnd (stdio_events es) (\<lambda>o1. bnd (stdio_events fs) (\<lambda>o2. Inr (o1 @ o2)))"
proof (induction es)
  case Nil
  then show ?case by (cases "stdio_events fs") simp_all
next
  case (Cons e es)
  then show ?case by (cases "stdio_events es"; cases "stdio_events fs")
    (auto simp: bnd_assoc split: printf_event.splits option.splits)
qed

lemma stdio_events_chars [simp]: "stdio_events (map Char_handler t) = Inr t"
  by (induction t) simp_all

lemma stdio_printf_text: "CHR ''%'' \<notin> set t \<Longrightarrow> stdio_printf t args = Inr t"
  using printf_loop_text [of t "[]" args]
  by (simp add: stdio_printf_def str_printf_core_def printf_loop_Nil)

end
