(* ===== verification/Hv_Console.thy ===== *)
theory Hv_Console
  imports Rkhv_String Hv_State
begin

text \<open>
  What the hypervisor prints: \<open>stdio_printf\<close> and the macro \<open>LOG\<close> of hv/include/rkhv/stdio.h, as the
  text that hv/src/serial.c sends to the first serial port, the field \<open>console\<close> of the state.  The
  messages on the path of a guest's exits are modelled; those that only report the progress of the
  hypervisor's own start are not.
\<close>

definition hv_printf :: "string \<Rightarrow> printf_arg list \<Rightarrow> hv_state \<Rightarrow> hv_state res" where
  "hv_printf fmt args s = bnd (stdio_printf fmt args) (\<lambda>t. Inr (s\<lparr>console := console s @ t\<rparr>))"

abbreviation ESC :: char where "ESC \<equiv> CHR 0x1B"
abbreviation LF :: char where "LF \<equiv> CHR 0x0A"
abbreviation DQUOTE :: char where "DQUOTE \<equiv> CHR 0x22"

text \<open>The character of a byte; a buffer of bytes is printed as characters.\<close>

definition byte_char :: "u8 \<Rightarrow> char" where
  "byte_char b = char_of (unat b)"

lemma byte_char_eq_iff [simp]: "byte_char b = byte_char c \<longleftrightarrow> b = c"
proof
  assume "byte_char b = byte_char c"
  then have "(of_char (byte_char b) :: nat) = of_char (byte_char c)" by simp
  moreover have "unat b < 256" "unat c < 256" using unsigned_less [of b] unsigned_less [of c] by simp_all
  ultimately have "unat b = unat c" by (simp add: byte_char_def)
  then show "b = c" by (rule word_unat_eqI)
qed simp

lemma byte_char_0 [simp]: "byte_char 0 = NUL"
  using char_of_char [of NUL, where 'a = nat] by (simp add: byte_char_def del: char_of_char)

lemma byte_char_LF [simp]: "byte_char 10 = LF"
  using char_of_char [of LF, where 'a = nat] by (simp add: byte_char_def del: char_of_char)


definition LOG :: "string \<Rightarrow> string \<Rightarrow> printf_arg list \<Rightarrow> hv_state \<Rightarrow> hv_state res" where
  "LOG category fmt args s =
     hv_printf (ESC # ''[33;1m'' @ category @ '':'' @ ESC # ''[0m '' @ fmt @ [LF]) args s"

lemma hv_printf_Inr [simp]: "stdio_printf fmt args = Inr t \<Longrightarrow> hv_printf fmt args s = Inr (s\<lparr>console := console s @ t\<rparr>)"
  by (simp add: hv_printf_def)

text \<open>A message is sent whole or the machine has stopped: nothing else of the state changes.\<close>

lemma hv_printf_frame: "hv_printf fmt args s = Inr s' \<Longrightarrow> \<exists>t. s' = s\<lparr>console := console s @ t\<rparr>"
  by (auto simp: hv_printf_def)

lemma LOG_frame: "LOG category fmt args s = Inr s' \<Longrightarrow> \<exists>t. s' = s\<lparr>console := console s @ t\<rparr>"
  unfolding LOG_def by (rule hv_printf_frame)

text \<open>The prefix of a message has no conversion, so a message is its prefix followed by what its format gives.\<close>

lemma LOG_text:
  assumes "CHR ''%'' \<notin> set category" "stdio_printf (fmt @ [LF]) args = Inr t"
  shows "LOG category fmt args s =
    Inr (s\<lparr>console := console s @ ESC # ''[33;1m'' @ category @ '':'' @ ESC # ''[0m '' @ t\<rparr>)"
proof -
  let ?p = "ESC # ''[33;1m'' @ category @ '':'' @ ESC # ''[0m ''"
  have "CHR ''%'' \<notin> set ?p" using assms(1) by simp
  from printf_loop_text [OF this, of "fmt @ [LF]" args] assms(2)
  have "stdio_printf (?p @ fmt @ [LF]) args = Inr (?p @ t)"
    by (auto simp: stdio_printf_def str_printf_core_def bnd_Inr_iff stdio_events_append)
  then have "hv_printf (?p @ fmt @ [LF]) args s = Inr (s\<lparr>console := console s @ ?p @ t\<rparr>)" by simp
  then show ?thesis by (simp add: LOG_def)
qed

end
