(* ===== verification/Host_Setup.thy ===== *)
theory Host_Setup
  imports Hv_Console Vmx_Pages
begin

text \<open>
  What the hypervisor sets up on its own processor before it creates a machine: the descriptor tables
  (hv/src/segments.c, interrupts.c), the extended state (xsave.c) and VMX operation (vmm/vmx\_init.c,
  vmx\_instructions.c), with the handler of its own interrupts.  The addresses of static objects and
  the table of interrupt stubs, which the linker and an assembly file give, are parameters.
\<close>

section \<open>Segments\<close>

definition RKHV_DS :: u16 where [hv_const]: "RKHV_DS = 0x08"
definition RKHV_CS :: u16 where [hv_const]: "RKHV_CS = 0x10"
definition GDT_SEGMENT_DESCRIPTOR_ACCESS_RW :: u8 where [hv_const]: "GDT_SEGMENT_DESCRIPTOR_ACCESS_RW = 0x02"
definition GDT_SEGMENT_DESCRIPTOR_ACCESS_EXEC :: u8 where [hv_const]: "GDT_SEGMENT_DESCRIPTOR_ACCESS_EXEC = 0x08"
definition GDT_SEGMENT_DESCRIPTOR_ACCESS_SYSTEM :: u8 where [hv_const]: "GDT_SEGMENT_DESCRIPTOR_ACCESS_SYSTEM = 0x00"
definition GDT_SEGMENT_DESCRIPTOR_ACCESS_NOT_SYSTEM :: u8 where
  [hv_const]: "GDT_SEGMENT_DESCRIPTOR_ACCESS_NOT_SYSTEM = 0x10"
definition GDT_SEGMENT_DESCRIPTOR_ACCESS_DPL :: "u8 \<Rightarrow> u8" where
  [hv_const]: "GDT_SEGMENT_DESCRIPTOR_ACCESS_DPL x = push_bit 5 (x AND 3)"
definition GDT_SEGMENT_DESCRIPTOR_ACCESS_PRESENT :: u8 where
  [hv_const]: "GDT_SEGMENT_DESCRIPTOR_ACCESS_PRESENT = 0x80"
definition GDT_SEGMENT_DESCRIPTOR_FLAGS_GRANULARITY_PAGES :: u8 where
  [hv_const]: "GDT_SEGMENT_DESCRIPTOR_FLAGS_GRANULARITY_PAGES = 0x80"
definition GDT_SEGMENT_DESCRIPTOR_FLAGS_SIZE_32BITS :: u8 where
  [hv_const]: "GDT_SEGMENT_DESCRIPTOR_FLAGS_SIZE_32BITS = 0x40"
definition GDT_SEGMENT_DESCRIPTOR_FLAGS_LONG_MODE_CODE :: u8 where
  [hv_const]: "GDT_SEGMENT_DESCRIPTOR_FLAGS_LONG_MODE_CODE = 0x20"
definition GDT_SEGMENT_DESCRIPTOR_FLAGS_LIMIT_HIGH :: "u8 \<Rightarrow> u8" where
  [hv_const]: "GDT_SEGMENT_DESCRIPTOR_FLAGS_LIMIT_HIGH x = x AND 0xf"
definition GDT_SEGMENT_DESCRIPTOR_SYSTEM_TYPE_TSS_BUSY :: u8 where
  [hv_const]: "GDT_SEGMENT_DESCRIPTOR_SYSTEM_TYPE_TSS_BUSY = 0xb"

definition segments_GDT :: "gdt_segment_descriptor_t list" where
  "segments_GDT =
    [\<lparr>segment_limit_low = 0, base_address_low = 0, base_address_mid = 0, access = 0, flags = 0, base_address_high = 0\<rparr>,
     \<lparr>segment_limit_low = 0xffff, base_address_low = 0, base_address_mid = 0,
      access = GDT_SEGMENT_DESCRIPTOR_ACCESS_RW OR GDT_SEGMENT_DESCRIPTOR_ACCESS_NOT_SYSTEM OR
        GDT_SEGMENT_DESCRIPTOR_ACCESS_DPL 0 OR GDT_SEGMENT_DESCRIPTOR_ACCESS_PRESENT,
      flags = GDT_SEGMENT_DESCRIPTOR_FLAGS_GRANULARITY_PAGES OR GDT_SEGMENT_DESCRIPTOR_FLAGS_SIZE_32BITS OR
        GDT_SEGMENT_DESCRIPTOR_FLAGS_LIMIT_HIGH 0xf, base_address_high = 0\<rparr>,
     \<lparr>segment_limit_low = 0xffff, base_address_low = 0, base_address_mid = 0,
      access = GDT_SEGMENT_DESCRIPTOR_ACCESS_RW OR GDT_SEGMENT_DESCRIPTOR_ACCESS_EXEC OR
        GDT_SEGMENT_DESCRIPTOR_ACCESS_NOT_SYSTEM OR GDT_SEGMENT_DESCRIPTOR_ACCESS_DPL 0 OR
        GDT_SEGMENT_DESCRIPTOR_ACCESS_PRESENT,
      flags = GDT_SEGMENT_DESCRIPTOR_FLAGS_GRANULARITY_PAGES OR GDT_SEGMENT_DESCRIPTOR_FLAGS_LONG_MODE_CODE OR
        GDT_SEGMENT_DESCRIPTOR_FLAGS_LIMIT_HIGH 0xf, base_address_high = 0\<rparr>]"

text \<open>The static array is at the address \<open>GDT\<close>; loading the segment registers is left to assembly.\<close>

definition segments_setup :: "u64 \<Rightarrow> hv_state \<Rightarrow> hv_state" where
  "segments_setup GDT s = s\<lparr>gdt_heap := (gdt_heap s)(GDT \<mapsto> segments_GDT),
     cpu := (cpu s)\<lparr>cpu_gdtr := \<lparr>gdtr_size = of_nat (8 * length segments_GDT - 1), gdtr_offset = GDT\<rparr>\<rparr>\<rparr>"

definition segments_sgdt :: "hv_state \<Rightarrow> gdtr_t" where
  "segments_sgdt s = cpu_gdtr (cpu s)"

section \<open>Interrupts\<close>

definition IDT_LEN :: nat where [hv_const]: "IDT_LEN = 256"
definition IDT_GATE_DESCRIPTOR_BITFIELD_PRESENT :: u8 where
  [hv_const]: "IDT_GATE_DESCRIPTOR_BITFIELD_PRESENT = 0x80"
definition IDT_GATE_DESCRIPTOR_BITFIELD_DPL :: "u8 \<Rightarrow> u8" where
  [hv_const]: "IDT_GATE_DESCRIPTOR_BITFIELD_DPL x = push_bit 5 (x AND 3)"
definition IDT_GATE_DESCRIPTOR_BITFIELD_GATE_TRAP :: u8 where
  [hv_const]: "IDT_GATE_DESCRIPTOR_BITFIELD_GATE_TRAP = 0x0F"

definition idt_gate_zero :: idt_gate_descriptor_t where
  "idt_gate_zero = \<lparr>offset_low = 0, segment_selector = 0, ist = 0, bitfield = 0, offset_mid = 0,
     offset_high = 0, reserved = 0\<rparr>"

definition interrupts_gate :: "u64 \<Rightarrow> idt_gate_descriptor_t \<Rightarrow> idt_gate_descriptor_t" where
  "interrupts_gate isr_stub d = d\<lparr>offset_low := ucast (isr_stub AND 0xffff),
     offset_mid := ucast (drop_bit 16 isr_stub AND 0xffff),
     offset_high := ucast (drop_bit 32 isr_stub AND 0xffffffff),
     segment_selector := RKHV_CS, ist := 0,
     bitfield := IDT_GATE_DESCRIPTOR_BITFIELD_PRESENT OR IDT_GATE_DESCRIPTOR_BITFIELD_GATE_TRAP OR
       IDT_GATE_DESCRIPTOR_BITFIELD_DPL 0\<rparr>"

text \<open>The static array is at the address \<open>IDT\<close>, all zero at first.\<close>

definition interrupts_setup :: "u64 \<Rightarrow> (nat \<Rightarrow> u64) \<Rightarrow> hv_state \<Rightarrow> hv_state res" where
  "interrupts_setup IDT isr_stub_table s =
     bnd (for_loop (\<lambda>idt_index idt.
            if idt_index < length idt then Inr (idt[idt_index := interrupts_gate (isr_stub_table idt_index) (idt ! idt_index)])
            else Inl (Fault ''IDT'')) 0 IDT_LEN (replicate IDT_LEN idt_gate_zero))
       (\<lambda>idt. Inr (s\<lparr>idt_heap := (idt_heap s)(IDT \<mapsto> idt),
         cpu := (cpu s)\<lparr>cpu_idtr := \<lparr>idtr_size = of_nat (16 * IDT_LEN - 1), idtr_offset = IDT\<rparr>\<rparr>\<rparr>))"

definition interrupts_sidt :: "hv_state \<Rightarrow> idtr_t" where
  "interrupts_sidt s = cpu_idtr (cpu s)"

text \<open>
  The registers and the words that the processor pushed: the union starts with the error code when
  there is one, and with \<open>rip\<close> otherwise.
\<close>

record interrupt_state_t =
  int_regs :: vmx_gpr_state_t
  int_frame :: "nat \<Rightarrow> u64"

definition INTERRUPTS_EXCEPTIONS_MAX :: u64 where [hv_const]: "INTERRUPTS_EXCEPTIONS_MAX = 32"

definition INTERRUPTS_EXCEPTIONS_DETAILS :: "(string \<times> bool) list" where
  "INTERRUPTS_EXCEPTIONS_DETAILS =
    [(''#DE Divide Error'', False), (''#DB Debug Exception'', False), (''    NMI Interrupt'', False),
     (''#BP Breakpoint'', False), (''#OF Overflow'', False), (''#BR BOUND Range Exceeded'', False),
     (''#UD Invalid Opcode'', False), (''#NM Device Not Available'', False), (''#DF Double Fault'', True),
     (''    Coprocessor Segment Overrun'', False), (''#TS Invalid TSS'', True), (''#NP Segment Not Present'', True),
     (''#SS Stack-Segment Fault'', True), (''#GP General Protection'', True), (''#PF Page Fault'', True),
     (''    Reserved'', False), (''#MF x87 FPU Floating-Point Error'', False), (''#AC Alignment Check'', True),
     (''#MC Machine Check'', False), (''#XM SIMD Floating-Point Exception'', False),
     (''#VE Virtualization Exception'', False), (''#CP Control Protection Exception'', True)]"

definition interrupts_exception :: "u64 \<Rightarrow> string \<times> bool" where
  "interrupts_exception interrupt = (if unat interrupt < length INTERRUPTS_EXCEPTIONS_DETAILS
     then INTERRUPTS_EXCEPTIONS_DETAILS ! unat interrupt else (''Reserved'', False))"

text \<open>The messages of an exception; the handler then halts for ever.\<close>

definition interrupts_report :: "u64 \<Rightarrow> interrupt_state_t \<Rightarrow> hv_state \<Rightarrow> hv_state res" where
  "interrupts_report interrupt st s =
     (let f = int_frame st; log = LOG ''interrupts'' in
      bnd (log ''fault : %s, halting'' [Arg_str (Some (fst (interrupts_exception interrupt)))] s) (\<lambda>s.
      if snd (interrupts_exception interrupt) then
        bnd (log ''ERR: %p RIP: %p'' [Arg_int (f 0), Arg_int (f 1)] s) (\<lambda>s.
        bnd (log ''CS:  %p FLG: %p'' [Arg_int (f 2), Arg_int (f 3)] s)
            (log ''RSP: %p SS:  %p'' [Arg_int (f 4), Arg_int (f 5)]))
      else
        bnd (log ''RIP: %p'' [Arg_int (f 0)] s) (\<lambda>s.
        bnd (log ''CS:  %p FLG: %p'' [Arg_int (f 1), Arg_int (f 2)] s)
            (log ''RSP: %p SS:  %p'' [Arg_int (f 3), Arg_int (f 4)]))))"

definition interrupts_handler :: "u64 \<Rightarrow> interrupt_state_t \<Rightarrow> hv_state \<Rightarrow> hv_state res" where
  "interrupts_handler interrupt st s =
     (if interrupt < INTERRUPTS_EXCEPTIONS_MAX
      then bnd (interrupts_report interrupt st s) (\<lambda>s. Inl Diverges)
      else LOG ''interrupts'' ''unknown interrupt : int %xpb, ignored'' [Arg_int interrupt] s)"

section \<open>The extended state\<close>

definition CR4_OSFXSR :: u64 where [hv_const]: "CR4_OSFXSR = 0x200"
definition CR4_OSXSAVE :: u64 where [hv_const]: "CR4_OSXSAVE = 0x40000"
definition CPUID_XSAVE_LEAF :: u32 where [hv_const]: "CPUID_XSAVE_LEAF = 0x0D"

definition cr4_write :: "u64 \<Rightarrow> hv_state \<Rightarrow> hv_state" where
  "cr4_write v s = s\<lparr>cpu := (cpu s)\<lparr>cpu_cr4 := v\<rparr>\<rparr>"

definition cpuid :: "hv_state \<Rightarrow> u32 \<Rightarrow> u32 \<Rightarrow> u32 \<times> u32 \<times> u32 \<times> u32" where
  "cpuid s input_eax input_ecx = cpu_cpuid (cpu s) (cpu_xcr0 (cpu s)) input_eax input_ecx"

definition xsetbv :: "u64 \<Rightarrow> hv_state \<Rightarrow> hv_state" where
  "xsetbv xcr0 s = s\<lparr>cpu := (cpu s)\<lparr>cpu_xcr0 := xcr0\<rparr>\<rparr>"

definition xsave_setup :: "hv_state \<Rightarrow> hv_state res" where
  "xsave_setup s =
     (let s = cr4_write (cpu_cr4 (cpu s) OR (CR4_OSFXSR OR CR4_OSXSAVE)) s in
      case cpuid s CPUID_XSAVE_LEAF 0 of (accepted_xcr0_low, _, maximum_xsave_area_size, accepted_xcr0_high) \<Rightarrow>
      let host_xcr0 = push_bit 32 (ucast accepted_xcr0_high) OR ucast accepted_xcr0_low;
          s = xsetbv host_xcr0 (s\<lparr>xsave_host_xcr0 := host_xcr0\<rparr>)
      in case cpuid s CPUID_XSAVE_LEAF 0 of (_, current_xsave_area_size, _, _) \<Rightarrow>
      if maximum_xsave_area_size \<noteq> current_xsave_area_size
      then Inl (Panic ''Unexpected value for CPUID.(EAX=0DH,ECX=0).EBX after setting XCR0'')
      else Inr (s\<lparr>xsave_area_size := ucast maximum_xsave_area_size\<rparr>))"

section \<open>VMX operation\<close>

definition IA32_VMX_EPT_VPID_CAP :: u32 where [hv_const]: "IA32_VMX_EPT_VPID_CAP = 0x48C"
definition IA32_VMX_EPT_VPID_CAP_PAGE_WALK_LENGTH_4 :: u64 where
  [hv_const]: "IA32_VMX_EPT_VPID_CAP_PAGE_WALK_LENGTH_4 = 0x40"
definition IA32_VMX_EPT_VPID_CAP_WRITE_BACK :: u64 where
  [hv_const]: "IA32_VMX_EPT_VPID_CAP_WRITE_BACK = 0x4000"

definition vmx_setup :: "hv_state \<Rightarrow> hv_state res" where
  "vmx_setup s =
     (let s = cr4_write (cpu_cr4 (cpu s) OR CR4_VMXE) s in
      if drop_bit 32 (rdmsr s IA32_VMX_BASIC) AND 0x1fff > PAGE_SIZE
      then Inl (Panic ''Invalid VMCS region size in IA32_VMX_BASIC'')
      else let cap = rdmsr s IA32_VMX_EPT_VPID_CAP in
      if cap AND IA32_VMX_EPT_VPID_CAP_PAGE_WALK_LENGTH_4 = 0
      then Inl (Panic ''EPT Page-walk length of 4 unsupported'')
      else if cap AND IA32_VMX_EPT_VPID_CAP_WRITE_BACK = 0
      then Inl (Panic ''EPT paging-structure of memory type write-back unsupported'')
      else bnd (vmx_get_vmxon_region s) (\<lambda>(vmxon, s).
        bnd (VMX_ASSERT s Vmxon vmxon) (\<lambda>_. Inr s)))"

text \<open>What \<open>VMX_ASSERT\<close> prints before the panic; a null pointer of the table is an empty string here.\<close>

definition VMX_ERRORS :: "string list" where
  "VMX_ERRORS =
    ['''', ''VMCALL executed in VMX root operation'', ''VMCLEAR with invalid physical address'',
     ''VMCLEAR with VMXON pointer'', ''VMLAUNCH with non-clear VMCS'', ''VMRESUME with non-launched VMCS'',
     ''VMRESUME after VMXOFF (VMXOFF and VMXON between VMLAUNCH and VMRESUME)'',
     ''VM entry with invalid control field(s)'', ''VM entry with invalid host-state field(s)'',
     ''VMPTRLD with invalid physical address'', ''VMPTRLD with VMXON pointer'',
     ''VMPTRLD with incorrect VMCS revision identifier'',
     ''VMREAD/VMWRITE from/to unsupported VMCS component'', ''VMWRITE to read-only VMCS component'', '''',
     ''VMXON executed in VMX root operation'', ''VM entry with invalid executive-VMCS pointer'',
     ''VM entry with non-launched executive VMCS'',
     ''VM entry with executive-VMCS pointer not VMXON pointer (when attempting to deactivate the dual-monitor treatment of SMIs and SMM)'',
     ''VMCALL with non-clear VMCS (when attempting to activate the dual-monitor treatment of SMIs and SMM)'',
     ''VMCALL with invalid VM-exit control fields'', '''',
     ''VMCALL with incorrect MSEG revision identifier (when attempting to activate the dual-monitor treatment of SMIs and SMM)'',
     ''VMXOFF under dual-monitor treatment of SMIs and SMM'',
     ''VMCALL with invalid SMM-monitor features (when attempting to activate the dual-monitor treatment of SMIs and SMM)'',
     ''VM entry with invalid VM-execution control fields in executive VMCS (when attempting to return from SMM)'',
     ''VM entry with events blocked by MOV SS'', '''', ''Invalid operand to INVEPT/INVVPID'']"

definition VM_FAIL_INVALID :: u32 where [hv_const]: "VM_FAIL_INVALID = -1"

definition vmx_perror :: "string \<Rightarrow> u32 \<Rightarrow> hv_state \<Rightarrow> hv_state res" where
  "vmx_perror message error s =
     (if error = 0 then LOG ''vmx'' ''%s : VMsucceed'' [Arg_str (Some message)] s
      else if error = VM_FAIL_INVALID then LOG ''vmx'' ''%s : VMfailInvalid'' [Arg_str (Some message)] s
      else
        let error_message = (if unat error < length VMX_ERRORS then VMX_ERRORS ! unat error else '''') in
        if error_message \<noteq> '''' then
          LOG ''vmx'' ''%s : VMfailValid(%u) : %s''
            [Arg_str (Some message), Arg_int (ucast error), Arg_str (Some error_message)] s
        else LOG ''vmx'' ''%s : VMfailValid(%u)'' [Arg_str (Some message), Arg_int (ucast error)] s)"

section \<open>The descriptor table and the handler of interrupts\<close>

text \<open>The address of the handler as the processor assembles it from a gate.\<close>

definition gate_offset :: "idt_gate_descriptor_t \<Rightarrow> u64" where
  "gate_offset d = push_bit 32 (ucast (offset_high d)) OR push_bit 16 (ucast (offset_mid d)) OR ucast (offset_low d)"

lemma gate_offset_interrupts_gate [simp]: "gate_offset (interrupts_gate a d) = a"
proof (rule bit_word_eqI)
  fix n assume n: "n < LENGTH(64)"
  have m: "(0xffff :: u64) = mask 16" "(0xffffffff :: u64) = mask 32" by (simp_all add: mask_eq_exp_minus_1)
  show "bit (gate_offset (interrupts_gate a d)) n = bit a n"
    using n unfolding gate_offset_def interrupts_gate_def m
    by (cases "n < 16"; cases "n < 32") (auto simp: bit_simps)
qed

lemma interrupts_setup_idt:
  "\<exists>idt. interrupts_setup IDT isr_stub_table s = Inr (s\<lparr>idt_heap := (idt_heap s)(IDT \<mapsto> idt),
      cpu := (cpu s)\<lparr>cpu_idtr := \<lparr>idtr_size = 0xfff, idtr_offset = IDT\<rparr>\<rparr>\<rparr>) \<and>
    length idt = 256 \<and> (\<forall>i < 256. idt ! i = interrupts_gate (isr_stub_table i) idt_gate_zero)"
proof -
  let ?I = "\<lambda>j t. length t = 256 \<and> (\<forall>k < 256. t ! k = (if k < j then interrupts_gate (isr_stub_table k) idt_gate_zero
      else idt_gate_zero))"
  have "\<exists>t. for_loop (\<lambda>idt_index idt.
            if idt_index < length idt then Inr (idt[idt_index := interrupts_gate (isr_stub_table idt_index) (idt ! idt_index)])
            else Inl (Fault ''IDT'')) 0 IDT_LEN (replicate IDT_LEN idt_gate_zero) = Inr t \<and> ?I (0 + IDT_LEN) t"
    by (rule for_loop_total) (auto simp: IDT_LEN_def nth_list_update less_Suc_eq)
  then show ?thesis by (auto simp: interrupts_setup_def IDT_LEN_def)
qed

lemma LOG_prints:
  assumes "CHR ''%'' \<notin> set category" "\<exists>t. stdio_printf (fmt @ [LF]) args = Inr t"
  shows "\<exists>t. LOG category fmt args s = Inr (s\<lparr>console := console s @ t\<rparr>)"
  using LOG_text [OF assms(1)] assms(2) by blast

lemma interrupts_logs:
  "\<exists>t. LOG ''interrupts'' ''fault : %s, halting'' [Arg_str (Some n)] s = Inr (s\<lparr>console := console s @ t\<rparr>)"
  "\<exists>t. LOG ''interrupts'' ''ERR: %p RIP: %p'' [Arg_int a, Arg_int b] s = Inr (s\<lparr>console := console s @ t\<rparr>)"
  "\<exists>t. LOG ''interrupts'' ''CS:  %p FLG: %p'' [Arg_int a, Arg_int b] s = Inr (s\<lparr>console := console s @ t\<rparr>)"
  "\<exists>t. LOG ''interrupts'' ''RSP: %p SS:  %p'' [Arg_int a, Arg_int b] s = Inr (s\<lparr>console := console s @ t\<rparr>)"
  "\<exists>t. LOG ''interrupts'' ''RIP: %p'' [Arg_int a] s = Inr (s\<lparr>console := console s @ t\<rparr>)"
  "\<exists>t. LOG ''interrupts'' ''unknown interrupt : int %xpb, ignored'' [Arg_int a] s = Inr (s\<lparr>console := console s @ t\<rparr>)"
  by (rule LOG_prints; simp add: stdio_printf_def str_printf_core_def printf_simps)+

text \<open>Both shapes of the processor's frame are reported on the console, and nothing else changes.\<close>

lemma console_append: "\<exists>t'. (s\<lparr>console := x\<rparr>)\<lparr>console := console (s\<lparr>console := x\<rparr>) @ t\<rparr> = s\<lparr>console := x @ t'\<rparr>"
  by auto

lemma interrupts_report_prints:
  "\<exists>t. interrupts_report interrupt st s = Inr (s\<lparr>console := console s @ t\<rparr>)"
proof -
  obtain t1 where 1: "LOG ''interrupts'' ''fault : %s, halting'' [Arg_str (Some (fst (interrupts_exception interrupt)))] s =
      Inr (s\<lparr>console := console s @ t1\<rparr>)" using interrupts_logs(1) by blast
  have chain: "\<exists>t. bnd (r :: hv_state res) f = Inr (s\<lparr>console := console s @ t\<rparr>)"
    if "\<exists>t. r = Inr (s\<lparr>console := console s @ t\<rparr>)" "\<And>s'. \<exists>t. f s' = Inr (s'\<lparr>console := console s' @ t\<rparr>)" for r f s
  proof -
    from that(1) obtain t where t: "r = Inr (s\<lparr>console := console s @ t\<rparr>)" by blast
    with that(2) [of "s\<lparr>console := console s @ t\<rparr>"] show ?thesis by auto
  qed
  show ?thesis unfolding interrupts_report_def Let_def
    by (intro chain interrupts_logs) (auto split: if_split intro!: chain interrupts_logs)
qed

lemma interrupts_handler_outcome:
  "if interrupt < INTERRUPTS_EXCEPTIONS_MAX
   then interrupts_handler interrupt st s = Inl Diverges
   else \<exists>t. interrupts_handler interrupt st s = Inr (s\<lparr>console := console s @ t\<rparr>)"
  using interrupts_report_prints [of interrupt st s] interrupts_logs(6)
  by (auto simp: interrupts_handler_def)

end
