(* ===== verification/Guest_Paging.thy ===== *)
theory Guest_Paging
  imports Vm_Memory
begin

text \<open>
  hv/src/vmm/vm\_guest\_paging.c: the identity page tables the hypervisor builds at the end of guest
  memory, and the walk of a guest's own page tables, each table of which is itself reached through
  the extended page tables.  The main lemmas: the setup succeeds on every machine with at least 514
  pages of memory, stops the machine on a smaller one, and makes every linear address below
  \<open>2 ^ 39\<close> translate to itself; and the pointer the exit handlers get to guest data lies in one guest
  page of the machine.
\<close>

section \<open>The operations\<close>

definition EPT_GET_HOSTVA :: "u64 \<Rightarrow> u64 \<Rightarrow> hv_state \<Rightarrow> u64 res" where
  "EPT_GET_HOSTVA vp guestpa s = bnd (vmx_ept_get_host_physical_address s vp guestpa) (\<lambda>r. case r of
     None \<Rightarrow> Inl (Panic ''Unable to walk EPT to get host physical address from guest physical address during guest identity paging setup'')
   | Some hostpa \<Rightarrow> Inr hostpa)"

text \<open>\<open>vm->guest_physical_pages_used_by_initial_setup += n\<close>.\<close>

definition vm_use_pages :: "u64 \<Rightarrow> u64 \<Rightarrow> hv_state \<Rightarrow> hv_state res" where
  "vm_use_pages vp n s = bnd (get_vm s vp) (\<lambda>v. Inr (put_vm vp (v\<lparr>guest_physical_pages_used_by_initial_setup :=
     guest_physical_pages_used_by_initial_setup v + n\<rparr>) s))"

definition identity_pde :: "nat \<Rightarrow> nat \<Rightarrow> u64" where
  "identity_pde pdpt_index pd_index = PTE_PRESENT OR PTE_READ_WRITE OR PDE_PAGE_SIZE OR
     (push_bit 21 (of_nat pdpt_index * PAGE_TABLE_ENTRIES + of_nat pd_index) AND PDE_PHYSICAL_ADDRESS_PAGE)"

definition guest_table_entry :: "u64 \<Rightarrow> u64" where
  "guest_table_entry pa = PTE_PRESENT OR PTE_READ_WRITE OR (pa AND PTE_PHYSICAL_ADDRESS_PAGE)"

text \<open>The body of the loop over the entries of the PDPT.\<close>

definition identity_pd :: "u64 \<Rightarrow> u64 \<Rightarrow> u64 \<Rightarrow> nat \<Rightarrow> hv_state \<Rightarrow> hv_state res" where
  "identity_pd vp pdpt_guestpa pdpt_hostva pdpt_index s =
     (let pd_guestpa = pdpt_guestpa - (of_nat pdpt_index + 1) * PAGE_SIZE in
      bnd (vm_use_pages vp 1 s) (\<lambda>s.
      bnd (EPT_GET_HOSTVA vp pd_guestpa s) (\<lambda>pd_hostva.
        let m = fill_table (phys s) pd_hostva (identity_pde pdpt_index)
        in Inr (s\<lparr>phys := write64 m (entry pdpt_hostva (of_nat pdpt_index)) (guest_table_entry pd_guestpa)\<rparr>))))"

definition vm_guest_paging_setup_identity :: "u64 \<Rightarrow> hv_state \<Rightarrow> (u64 \<times> hv_state) res" where
  "vm_guest_paging_setup_identity vp s = bnd (get_vm s vp) (\<lambda>v.
     if guest_physical_pages v = 0
     then Inl (Panic ''Unable to setup guest identity paging on a VM without guest physical pages allocated'')
     else if guest_physical_pages_used_by_initial_setup v \<noteq> 0
     then Inl (Panic ''Guest identity paging should be setup before any other steps allocating memory'')
     else
       let pml4_guestpa = (guest_physical_pages v - 1) * PAGE_SIZE in
       bnd (vm_use_pages vp 1 s) (\<lambda>s.
       bnd (EPT_GET_HOSTVA vp pml4_guestpa s) (\<lambda>pml4_hostva.
       let pdpt_guestpa = pml4_guestpa - PAGE_SIZE in
       bnd (vm_use_pages vp 1 s) (\<lambda>s.
       bnd (EPT_GET_HOSTVA vp pdpt_guestpa s) (\<lambda>pdpt_hostva.
       bnd (for_loop (identity_pd vp pdpt_guestpa pdpt_hostva) 0 (unat PAGE_TABLE_ENTRIES) s) (\<lambda>s.
       let m = memset pml4_hostva 0 (unat PAGE_SIZE) (phys s) in
       Inr (pml4_guestpa, s\<lparr>phys :=
         write64 m (entry pml4_hostva (LINEAR_ADDRESS_GET_PML4 0)) (guest_table_entry pdpt_guestpa)\<rparr>)))))))"

text \<open>
  The walk, \<open>None\<close> when the code returns \<open>false\<close>: a table that is not mapped by the extended page
  tables or an entry that is not present.
\<close>

definition pte_present :: "u64 \<Rightarrow> bool" where
  "pte_present e \<longleftrightarrow> e AND PTE_PRESENT \<noteq> 0"

definition pde_large :: "u64 \<Rightarrow> bool" where
  "pde_large e \<longleftrightarrow> e AND PDE_PAGE_SIZE \<noteq> 0"

definition guest_entry :: "phys_mem \<Rightarrow> vm_t \<Rightarrow> u64 \<Rightarrow> u64 \<Rightarrow> u64 option" where
  "guest_entry m v table_guestpa index = (case vm_walk m v table_guestpa of None \<Rightarrow> None
   | Some table_hostva \<Rightarrow>
       (let e = read64 m (entry table_hostva index) in if pte_present e then Some e else None))"

definition guest_walk :: "phys_mem \<Rightarrow> vm_t \<Rightarrow> u64 \<Rightarrow> u64 \<Rightarrow> u64 option" where
  "guest_walk m v gcr3 la =
     (case guest_entry m v (gcr3 AND PAGE_MASK) (LINEAR_ADDRESS_GET_PML4 la) of None \<Rightarrow> None | Some pml4e \<Rightarrow>
      case guest_entry m v (pml4e AND PTE_PHYSICAL_ADDRESS_PAGE) (LINEAR_ADDRESS_GET_DIRECTORY_PTR la) of None \<Rightarrow> None
      | Some pdpte \<Rightarrow>
      if pde_large pdpte then
        Some ((pdpte AND PDPTE_PHYSICAL_ADDRESS_PAGE) OR
          (la AND (LINEAR_ADDRESS_D_MASK OR LINEAR_ADDRESS_TABLE_MASK OR LINEAR_ADDRESS_OFFSET_MASK)))
      else
      case guest_entry m v (pdpte AND PTE_PHYSICAL_ADDRESS_PAGE) (LINEAR_ADDRESS_GET_DIRECTORY la) of None \<Rightarrow> None
      | Some pde \<Rightarrow>
      if pde_large pde then
        Some ((pde AND PDE_PHYSICAL_ADDRESS_PAGE) OR (la AND (LINEAR_ADDRESS_TABLE_MASK OR LINEAR_ADDRESS_OFFSET_MASK)))
      else
      case guest_entry m v (pde AND PTE_PHYSICAL_ADDRESS_PAGE) (LINEAR_ADDRESS_GET_TABLE la) of None \<Rightarrow> None
      | Some pte \<Rightarrow> Some ((pte AND PTE_PHYSICAL_ADDRESS_PAGE) OR LINEAR_ADDRESS_GET_OFFSET la))"

definition vm_guest_paging_get_guest_physical_address :: "hv_state \<Rightarrow> u64 \<Rightarrow> u64 \<Rightarrow> u64 \<Rightarrow> u64 option res" where
  "vm_guest_paging_get_guest_physical_address s vp gcr3 la =
     bnd (get_vm s vp) (\<lambda>v. Inr (guest_walk (phys s) v gcr3 la))"

text \<open>\<open>CR0_PG\<close> is the int \<open>1 << 31\<close>, sign-extended when it meets a 64-bit operand.\<close>

definition CR0_PG :: u64 where [hv_const]: "CR0_PG = 0xffffffff80000000"
definition CR4_PAE :: u64 where [hv_const]: "CR4_PAE = 0x20"
definition CR4_LA57 :: u64 where [hv_const]: "CR4_LA57 = 0x1000"
definition IA32_EFER_LME :: u64 where [hv_const]: "IA32_EFER_LME = 0x100"

definition long_mode_4_levels :: "vmx_vmexit_state_t \<Rightarrow> bool" where
  "long_mode_4_levels vs \<longleftrightarrow> \<not> (cr0 vs AND CR0_PG = 0 \<or> cr4 vs AND CR4_PAE = 0 \<or> cr4 vs AND CR4_LA57 \<noteq> 0 \<or>
     ia32_efer (msrs vs) AND IA32_EFER_LME = 0)"

text \<open>The result is the pointer into the identity map.\<close>

definition vm_guest_paging_get_host_virtual_address_during_vmexit ::
    "vmx_vmexit_state_t \<Rightarrow> u64 \<Rightarrow> u64 \<Rightarrow> hv_state \<Rightarrow> u64 res" where
  "vm_guest_paging_get_host_virtual_address_during_vmexit vs guest_virtual_address guest_data_size s =
     (if \<not> long_mode_4_levels vs
      then Inl (Panic ''Resolving guest virtual address in an unsupported configuration (not long mode with 4-level paging)'')
      else bnd (vm_guest_paging_get_guest_physical_address s (st_vm vs) (cr3 vs) guest_virtual_address) (\<lambda>r. case r of
        None \<Rightarrow> Inl (Panic ''Unable to walk guest page table to resolve guest linear address in VM-Exit handler'')
      | Some gpa \<Rightarrow> bnd (vmx_ept_get_host_physical_address s (st_vm vs) gpa) (\<lambda>r. case r of
          None \<Rightarrow> Inl (Panic ''Unable to walk EPT to resolve guest physical address in VM-Exit handler'')
        | Some hpa \<Rightarrow>
            (let host_virtual_address = P2V_IDENTITY_MAP hpa;
                 hostva_start_page = host_virtual_address AND PAGE_MASK;
                 hostva_end_page = (host_virtual_address + (guest_data_size - 1)) AND PAGE_MASK
             in if hostva_start_page \<noteq> hostva_end_page
                then Inl (Panic ''Resolving guest virtual address across page boudaries in VM-Exit handler'')
                else Inr host_virtual_address))))"

section \<open>Entries\<close>

lemma pte_present_bit: "pte_present e \<longleftrightarrow> bit e 0"
  using bit_iff_and_push_bit_not_eq_0 [of e 0] by (simp add: pte_present_def hv_const)

lemma pde_large_bit: "pde_large e \<longleftrightarrow> bit e 7"
  using bit_iff_and_push_bit_not_eq_0 [of e 7] by (simp add: pde_large_def hv_const)

lemma guest_table_entry_facts:
  assumes "phys_page p"
  shows "pte_present (guest_table_entry p)" "\<not> pde_large (guest_table_entry p)"
    "guest_table_entry p AND PTE_PHYSICAL_ADDRESS_PAGE = p"
proof -
  show "pte_present (guest_table_entry p)" "\<not> pde_large (guest_table_entry p)"
    by (simp_all add: pte_present_bit pde_large_bit guest_table_entry_def hv_const bit_simps)
  show "guest_table_entry p AND PTE_PHYSICAL_ADDRESS_PAGE = p"
    using entry_address [OF assms, of "PTE_PRESENT OR PTE_READ_WRITE"]
    unfolding guest_table_entry_def or.assoc [symmetric] by (simp add: hv_const)
qed

text \<open>The 2 MiB entry that \<open>la\<close> reaches maps the 2 MiB that hold \<open>la\<close>.\<close>

lemma identity_pde_facts:
  assumes "unat la < 549755813888"
  defines "e \<equiv> identity_pde (unat (LINEAR_ADDRESS_GET_DIRECTORY_PTR la)) (unat (LINEAR_ADDRESS_GET_DIRECTORY la))"
  shows "pte_present e" "pde_large e"
    "(e AND PDE_PHYSICAL_ADDRESS_PAGE) OR (la AND (LINEAR_ADDRESS_TABLE_MASK OR LINEAR_ADDRESS_OFFSET_MASK)) = la"
proof -
  show "pte_present e" "pde_large e"
    by (simp_all add: pte_present_bit pde_large_bit e_def identity_pde_def hv_const bit_simps)
  have i: "unat (LINEAR_ADDRESS_GET_DIRECTORY_PTR la) = unat la div 2 ^ 30 mod 512"
    "unat (LINEAR_ADDRESS_GET_DIRECTORY la) = unat la div 2 ^ 21 mod 512"
    by (simp_all add: index_as_take_bit unsigned_take_bit_eq take_bit_eq_mod unsigned_drop_bit_eq drop_bit_eq_div
      unat_mod unat_div)
  have w: "LINEAR_ADDRESS_GET_DIRECTORY_PTR la * PAGE_TABLE_ENTRIES + LINEAR_ADDRESS_GET_DIRECTORY la = drop_bit 21 la"
  proof (rule word_unat_eqI)
    have u: "unat (LINEAR_ADDRESS_GET_DIRECTORY_PTR la * PAGE_TABLE_ENTRIES) = unat (LINEAR_ADDRESS_GET_DIRECTORY_PTR la) * 512"
      using less_trans [OF index_bounds(2) [of la], of 36028797018963968]
      by (subst unat_mult_64_no_wrap) (simp_all add: hv_const)
    have "unat (LINEAR_ADDRESS_GET_DIRECTORY_PTR la * PAGE_TABLE_ENTRIES + LINEAR_ADDRESS_GET_DIRECTORY la) =
        unat la div 2 ^ 30 mod 512 * 512 + unat la div 2 ^ 21 mod 512"
      unfolding i [symmetric] u [symmetric]
    proof (rule unat_plus_64_no_wrap)
      show "unat (LINEAR_ADDRESS_GET_DIRECTORY_PTR la * PAGE_TABLE_ENTRIES) + unat (LINEAR_ADDRESS_GET_DIRECTORY la)
        < 18446744073709551616"
        using u index_bounds(2,3) [of la] by linarith
    qed
    also have "\<dots> = unat la div 2 ^ 21"
    proof -
      have "unat la div 2 ^ 30 = unat la div 2 ^ 21 div 512" by (simp add: div_mult2_eq [symmetric])
      moreover have "unat la div 2 ^ 30 mod 512 = unat la div 2 ^ 30" using assms(1) by (simp add: less_mult_imp_div_less)
      ultimately show ?thesis by simp
    qed
    also have "\<dots> = unat (drop_bit 21 la)" by (simp add: unsigned_drop_bit_eq drop_bit_eq_div unat_div)
    finally show "unat (LINEAR_ADDRESS_GET_DIRECTORY_PTR la * PAGE_TABLE_ENTRIES + LINEAR_ADDRESS_GET_DIRECTORY la)
      = unat (drop_bit 21 la)" .
  qed
  have hi: "\<not> bit la n" if "39 \<le> n" for n
  proof -
    have "take_bit 39 la = la"
      using assms(1) by (intro word_unat_eqI) (simp add: unsigned_take_bit_eq take_bit_nat_eq_self)
    then show ?thesis using that by (metis bit_take_bit_iff leD)
  qed
  have e: "e = PTE_PRESENT OR PTE_READ_WRITE OR PDE_PAGE_SIZE OR (push_bit 21 (drop_bit 21 la) AND PDE_PHYSICAL_ADDRESS_PAGE)"
    unfolding e_def identity_pde_def using w by simp
  have low: "PTE_PRESENT AND PDE_PHYSICAL_ADDRESS_PAGE = 0" "PTE_READ_WRITE AND PDE_PHYSICAL_ADDRESS_PAGE = 0"
    "PDE_PAGE_SIZE AND PDE_PHYSICAL_ADDRESS_PAGE = 0"
    by (simp_all add: hv_const)
  have "e AND PDE_PHYSICAL_ADDRESS_PAGE = push_bit 21 (drop_bit 21 la) AND PDE_PHYSICAL_ADDRESS_PAGE"
    unfolding e bit.conj_disj_distrib2 low by (simp add: and.assoc)
  moreover have "push_bit 21 (drop_bit 21 la) AND PDE_PHYSICAL_ADDRESS_PAGE OR
      (la AND (LINEAR_ADDRESS_TABLE_MASK OR LINEAR_ADDRESS_OFFSET_MASK)) = la"
  proof (rule bit_word_eqI)
    fix n assume "n < LENGTH(64)"
    show "bit (push_bit 21 (drop_bit 21 la) AND PDE_PHYSICAL_ADDRESS_PAGE OR
      (la AND (LINEAR_ADDRESS_TABLE_MASK OR LINEAR_ADDRESS_OFFSET_MASK))) n = bit la n"
      using hi [of n] \<open>n < LENGTH(64)\<close> unfolding hv_const masks_as_slices
      by (cases "n < 21"; cases "39 \<le> n") (auto simp: bit_simps)
  qed
  ultimately show "(e AND PDE_PHYSICAL_ADDRESS_PAGE) OR (la AND (LINEAR_ADDRESS_TABLE_MASK OR LINEAR_ADDRESS_OFFSET_MASK)) = la"
    by simp
qed

section \<open>The states of the setup\<close>

text \<open>A machine that owns \<open>ps\<close> as its memory, with room for the first two tables.\<close>

definition paging_ready :: "hv_state \<Rightarrow> u64 list \<Rightarrow> u64 \<Rightarrow> vm_t \<Rightarrow> u64 list \<Rightarrow> bool" where
  "paging_ready s as vp v ps \<longleftrightarrow> hv_ok s as \<and> get_vm s vp = Inr v \<and> guest_mapped (phys s) v ps \<and>
     2 \<le> length ps \<and> length ps \<le> 68719476736 \<and> guest_physical_pages v = of_nat (length ps)"

text \<open>Its states during the setup: \<open>u\<close> pages used and the memory \<open>m\<close>.\<close>

definition setup_st :: "hv_state \<Rightarrow> u64 \<Rightarrow> vm_t \<Rightarrow> u64 \<Rightarrow> phys_mem \<Rightarrow> hv_state" where
  "setup_st s vp v u m = put_vm vp (v\<lparr>guest_physical_pages_used_by_initial_setup := u\<rparr>) (s\<lparr>phys := m\<rparr>)"

lemma put_vm_put_vm [simp]: "put_vm vp a (put_vm vp b s) = put_vm vp a s"
  by (simp add: put_vm_def case_prod_unfold comp_def)

lemma setup_st_simps:
  assumes "get_vm s vp = Inr v"
  shows "phys (setup_st s vp v u m) = m"
    "get_vm (setup_st s vp v u m) vp = Inr (v\<lparr>guest_physical_pages_used_by_initial_setup := u\<rparr>)"
    "(setup_st s vp v u m)\<lparr>phys := m'\<rparr> = setup_st s vp v u m'"
    "vm_use_pages vp n (setup_st s vp v u m) = Inr (setup_st s vp v (u + n) m)"
proof -
  have g: "get_vm (s\<lparr>phys := m\<rparr>) vp = Inr v" using assms by simp
  show p: "phys (setup_st s vp v u m) = m" by (simp add: setup_st_def)
  show t: "get_vm (setup_st s vp v u m) vp = Inr (v\<lparr>guest_physical_pages_used_by_initial_setup := u\<rparr>)"
    unfolding setup_st_def get_put_vm [OF g] by simp
  show "(setup_st s vp v u m)\<lparr>phys := m'\<rparr> = setup_st s vp v u m'" by (simp add: setup_st_def put_vm_def)
  show "vm_use_pages vp n (setup_st s vp v u m) = Inr (setup_st s vp v (u + n) m)"
    using t by (simp add: vm_use_pages_def) (simp add: setup_st_def)
qed

text \<open>The guest physical address of page \<open>k\<close>.\<close>

abbreviation guest_frame :: "nat \<Rightarrow> u64" where
  "guest_frame k \<equiv> of_nat k * PAGE_SIZE"

lemma guest_frame_page:
  assumes "k < 68719476736"
  shows "phys_page (guest_frame k)"
proof -
  have "unat (guest_frame k) = k * 4096"
    using assms by (simp add: hv_const unat_mult_64_no_wrap unat_of_nat_64)
  then show ?thesis using assms by (simp add: phys_page_def page_aligned_iff)
qed

lemma guest_mapped_frame:
  assumes "guest_mapped m v ps" "k < length ps" "length ps \<le> 68719476736"
  shows "vm_walk m v (guest_frame k) = Some (ps ! k)"
proof -
  have "guest_pfn (guest_frame k) = k" by (rule guest_pfn_page) (use assms in linarith)
  moreover have "guest_frame k AND 0xfff = 0"
    using guest_frame_page [of k] assms(2,3) by (simp add: phys_page_def page_aligned_def)
  ultimately show ?thesis using assms(1,2) by (simp add: guest_mapped_def)
qed

lemma vm_walk_used [simp]: "vm_walk m (v\<lparr>guest_physical_pages_used_by_initial_setup := u\<rparr>) x = vm_walk m v x"
  by (simp add: vm_walk_def)

lemma guest_mapped_write:
  assumes "hv_ok s as" "get_vm s vp = Inr v" "guest_mapped (phys s) v ps" "guest_write v (phys s) m"
  shows "guest_mapped m v ps"
  using assms(3) guest_write_ok(2) [OF assms(1,2,4) assms(2)] by (simp add: guest_mapped_def)

lemma setup_hostva:
  assumes "paging_ready s as vp v ps" "guest_write v (phys s) m" "k < length ps"
  shows "EPT_GET_HOSTVA vp (guest_frame k) (setup_st s vp v u m) = Inr (ps ! k)"
proof -
  have r: "hv_ok s as" "get_vm s vp = Inr v" "guest_mapped (phys s) v ps" "length ps \<le> 68719476736"
    using assms(1) by (simp_all add: paging_ready_def)
  have "vm_walk m v (guest_frame k) = Some (ps ! k)"
    by (rule guest_mapped_frame [OF guest_mapped_write [OF r(1,2,3) assms(2)] assms(3) r(4)])
  then show ?thesis
    using setup_st_simps [OF r(2)] by (simp add: EPT_GET_HOSTVA_def vmx_ept_get_host_physical_address_walk)
qed

lemma ready_page:
  assumes "paging_ready s as vp v ps" "k < length ps"
  shows "ps ! k \<in># guest_pages v" "page_aligned (ps ! k)"
proof -
  show g: "ps ! k \<in># guest_pages v" using assms by (simp add: paging_ready_def guest_mapped_def)
  show "page_aligned (ps ! k)"
    using owned_page_aligned [OF _ _ kind_in_pages [OF g]] assms(1) by (auto simp: paging_ready_def)
qed

lemma ready_distinct: "paging_ready s as vp v ps \<Longrightarrow> distinct ps"
  using guest_pages_distinct [of s as vp v ps] by (simp add: paging_ready_def guest_mapped_def)

section \<open>The loop over the entries of the PDPT\<close>

text \<open>After \<open>j\<close> iterations: the first \<open>j\<close> page directories are full, and linked in the PDPT.\<close>

definition identity_tables :: "phys_mem \<Rightarrow> u64 list \<Rightarrow> nat \<Rightarrow> bool" where
  "identity_tables m ps j \<longleftrightarrow> (\<forall>i < j.
     read64 m (entry (ps ! (length ps - 2)) (of_nat i)) = guest_table_entry (guest_frame (length ps - 3 - i)) \<and>
     (\<forall>k. unat k < 512 \<longrightarrow> read64 m (entry (ps ! (length ps - 3 - i)) k) = identity_pde i (unat k)))"

definition identity_pd_mem :: "u64 list \<Rightarrow> nat \<Rightarrow> phys_mem \<Rightarrow> phys_mem" where
  "identity_pd_mem ps j m = write64 (fill_table m (ps ! (length ps - 3 - j)) (identity_pde j))
     (entry (ps ! (length ps - 2)) (of_nat j)) (guest_table_entry (guest_frame (length ps - 3 - j)))"

lemma guest_frame_minus: "j \<le> k \<Longrightarrow> guest_frame k - of_nat j * PAGE_SIZE = guest_frame (k - j)"
  by (simp add: of_nat_diff left_diff_distrib)

lemma identity_pd_step:
  assumes "paging_ready s as vp v ps" "guest_write v (phys s) m" "j < 512" "j + 2 < length ps"
  shows "identity_pd vp (guest_frame (length ps - 2)) (ps ! (length ps - 2)) j (setup_st s vp v u m) =
    Inr (setup_st s vp v (u + 1) (identity_pd_mem ps j m))"
proof -
  have n: "2 \<le> length ps" and g: "get_vm s vp = Inr v" using assms(1) by (simp_all add: paging_ready_def)
  have "guest_frame (length ps - 2) - (of_nat j + 1) * PAGE_SIZE = guest_frame (length ps - 3 - j)"
    using guest_frame_minus [of "Suc j" "length ps - 2"] n assms(3,4) by (simp add: add.commute)
  moreover have "length ps - 3 - j < length ps" using n assms(3,4) by linarith
  ultimately show ?thesis
    using setup_hostva [OF assms(1,2)] setup_st_simps [OF g]
    by (simp add: identity_pd_def Let_def identity_pd_mem_def)
qed

lemma identity_pd_mem_write:
  assumes "paging_ready s as vp v ps" "j < 512" "j + 2 < length ps"
  shows "guest_write v m (identity_pd_mem ps j m)"
proof -
  have n: "2 \<le> length ps" using assms(1) by (simp add: paging_ready_def)
  then have "length ps - 3 - j < length ps" "length ps - 2 < length ps" using assms(3) by auto
  note p = ready_page [OF assms(1) this(1)] ready_page [OF assms(1) this(2)]
  have "unat (of_nat j :: u64) < 512" using assms(2) by (simp add: unat_of_nat_64)
  from guest_write_trans [OF guest_write_page(2) [OF p(1,2)] guest_write_page(3) [OF p(3,4) this]]
  show ?thesis by (simp add: identity_pd_mem_def)
qed

lemma identity_pd_mem_tables:
  assumes "paging_ready s as vp v ps" "j < 512" "identity_tables m ps j" "j + 2 < length ps"
  shows "identity_tables (identity_pd_mem ps j m) ps (Suc j)"
proof -
  let ?n = "length ps"
  have n: "j + 2 < ?n" by (rule assms(4))
  have al: "page_aligned (ps ! k)" if "k < ?n" for k using ready_page(2) [OF assms(1) that] .
  have ne: "ps ! k = ps ! l \<longleftrightarrow> k = l" if "k < ?n" "l < ?n" for k l
    using nth_eq_iff_index_eq [OF ready_distinct [OF assms(1)] that] .
  have u: "unat (of_nat i :: u64) = i" if "i < 512" for i using that by (simp add: unat_of_nat_64)
  have w: "(of_nat i :: u64) = of_nat j \<longleftrightarrow> i = j" if "i < 512" for i using u that assms(2) by metis
  have rd: "read64 (identity_pd_mem ps j m) (entry (ps ! k) i) =
      (if k = ?n - 2 \<and> i = of_nat j then guest_table_entry (guest_frame (?n - 3 - j))
       else if k = ?n - 3 - j then identity_pde j (unat i) else read64 m (entry (ps ! k) i))"
    if "k < ?n" "unat i < 512" for k i
  proof -
    have b: "?n - 2 < ?n" "?n - 3 - j < ?n" using n by auto
    note eq = ne [OF b(1) that(1)] ne [OF that(1) b(2)]
    note al = al [OF that(1)] al [OF b(1)] al [OF b(2)]
    have "unat (of_nat j :: u64) < 512" using u [OF assms(2)] assms(2) by simp
    from read64_write64_entry [OF al(2,1) this that(2)] read64_fill_table [OF al(3,1) that(2)]
    show ?thesis unfolding identity_pd_mem_def eq by (simp only: eq_commute [of k] eq_commute [of i])
  qed
  show ?thesis
    unfolding identity_tables_def
  proof (intro allI impI conjI)
    fix i assume i: "i < Suc j"
    have k: "?n - 3 - i < ?n" "?n - 2 < ?n" "i < 512" "?n - 2 \<noteq> ?n - 3 - j" "?n - 3 - i \<noteq> ?n - 2"
      "?n - 3 - i = ?n - 3 - j \<longleftrightarrow> i = j"
      using i n assms(2) by auto
    show "read64 (identity_pd_mem ps j m) (entry (ps ! (?n - 2)) (of_nat i)) =
        guest_table_entry (guest_frame (?n - 3 - i))"
      using rd [OF k(2), of "of_nat i"] u [OF k(3)] w [OF k(3)] k assms(3) i
      by (auto simp: identity_tables_def less_Suc_eq simp del: diff_diff_left)
    fix x :: u64 assume x: "unat x < 512"
    show "read64 (identity_pd_mem ps j m) (entry (ps ! (?n - 3 - i)) x) = identity_pde i (unat x)"
      using rd [OF k(1) x] k x assms(3) i by (auto simp: identity_tables_def less_Suc_eq simp del: diff_diff_left)
  qed
qed

lemma identity_pd_loop:
  assumes "paging_ready s as vp v ps" "guest_write v (phys s) m0" "N \<le> 512" "N + 2 \<le> length ps"
  obtains m where "for_loop (identity_pd vp (guest_frame (length ps - 2)) (ps ! (length ps - 2))) 0 N (setup_st s vp v u m0)
      = Inr (setup_st s vp v (u + of_nat N) m)" "guest_write v (phys s) m" "identity_tables m ps N"
proof -
  let ?I = "\<lambda>j t. \<exists>m. t = setup_st s vp v (u + of_nat j) m \<and> guest_write v (phys s) m \<and> identity_tables m ps j"
  have "\<exists>t. for_loop (identity_pd vp (guest_frame (length ps - 2)) (ps ! (length ps - 2))) 0 N (setup_st s vp v u m0)
      = Inr t \<and> ?I (0 + N) t"
  proof (rule for_loop_total)
    show "?I 0 (setup_st s vp v u m0)" using assms(2) by (intro exI [of _ m0]) (simp add: identity_tables_def)
    fix j t assume j: "0 \<le> j" "j < 0 + N" and "?I j t"
    then obtain m where m: "t = setup_st s vp v (u + of_nat j) m" "guest_write v (phys s) m" "identity_tables m ps j"
      by blast
    have j: "j < 512" "j + 2 < length ps" using j assms(3,4) by simp_all
    show "\<exists>t'. identity_pd vp (guest_frame (length ps - 2)) (ps ! (length ps - 2)) j t = Inr t' \<and> ?I (Suc j) t'"
      unfolding m(1) identity_pd_step [OF assms(1) m(2) j]
      using guest_write_trans [OF m(2) identity_pd_mem_write [OF assms(1) j]] identity_pd_mem_tables [OF assms(1) j(1) m(3) j(2)]
      by (intro exI conjI refl) (simp_all add: ac_simps)
  qed
  with that show ?thesis by auto
qed

section \<open>The identity mapping\<close>

definition identity_mapped :: "phys_mem \<Rightarrow> u64 list \<Rightarrow> bool" where
  "identity_mapped m ps \<longleftrightarrow> identity_tables m ps 512 \<and>
     read64 m (entry (ps ! (length ps - 1)) 0) = guest_table_entry (guest_frame (length ps - 2))"

lemma guest_entry_frame:
  assumes "guest_mapped m v ps" "k < length ps" "length ps \<le> 68719476736"
    and "read64 m (entry (ps ! k) i) = e" "pte_present e"
  shows "guest_entry m v (guest_frame k) i = Some e"
  using guest_mapped_frame [OF assms(1-3)] assms(4,5) by (simp add: guest_entry_def)

lemma identity_mapped_walk:
  assumes "guest_mapped m v ps" "514 \<le> length ps" "length ps \<le> 68719476736" "identity_mapped m ps"
    and "unat la < 549755813888"
  shows "guest_walk m v (guest_frame (length ps - 1)) la = Some la"
proof -
  let ?n = "length ps" and ?i = "LINEAR_ADDRESS_GET_DIRECTORY_PTR la" and ?k = "LINEAR_ADDRESS_GET_DIRECTORY la"
  have lt: "?n - 1 < ?n" "?n - 2 < ?n" "?n - 3 - unat ?i < ?n" using assms(2) by auto
  have pg: "phys_page (guest_frame k)" if "k < ?n" for k using guest_frame_page [of k] that assms(3) by simp
  note f2 = guest_table_entry_facts [OF pg [OF lt(2)]] and f3 = guest_table_entry_facts [OF pg [OF lt(3)]]
  have cr3: "guest_frame (?n - 1) AND PAGE_MASK = guest_frame (?n - 1)"
    using pg [OF lt(1)] by (simp add: PAGE_MASK_def)
  have idx: "LINEAR_ADDRESS_GET_PML4 la = 0"
    using assms(5) by (intro word_unat_eqI) (simp add: index_as_take_bit unsigned_take_bit_eq
      unsigned_drop_bit_eq drop_bit_eq_div unat_div)
  have t: "read64 m (entry (ps ! (?n - 2)) ?i) = guest_table_entry (guest_frame (?n - 3 - unat ?i))"
    "read64 m (entry (ps ! (?n - 3 - unat ?i)) ?k) = identity_pde (unat ?i) (unat ?k)"
    using assms(4)[unfolded identity_mapped_def identity_tables_def, THEN conjunct1, rule_format,
      OF index_bounds(2) [of la]] index_bounds(3) [of la] by (simp_all del: diff_diff_left)
  have r: "read64 m (entry (ps ! (?n - 1)) 0) = guest_table_entry (guest_frame (?n - 2))"
    using assms(4) by (simp add: identity_mapped_def)
  note e = guest_entry_frame [OF assms(1) _ assms(3)]
  note p = identity_pde_facts [OF assms(5)]
  show ?thesis
    by (simp only: guest_walk_def cr3 idx e [OF lt(1) r f2(1)] option.case f2 e [OF lt(2) t(1) f3(1)] f3
      e [OF lt(3) t(2) p(1)] p if_False if_True)
qed

lemma identity_tables_frame:
  assumes "paging_ready s as vp v ps" "514 \<le> length ps" "identity_tables m ps 512"
    and "\<And>p. page_aligned p \<Longrightarrow> p \<noteq> ps ! (length ps - 1) \<Longrightarrow> page_eq m' m p"
  shows "identity_tables m' ps 512"
  unfolding identity_tables_def
proof (intro allI impI)
  let ?n = "length ps"
  fix i assume i: "i < (512 :: nat)"
  note n = assms(2)
  have eq: "read64 m' (entry (ps ! k) x) = read64 m (entry (ps ! k) x)" if "k < ?n - 1" "unat x < 512" for k x
  proof (rule page_eq_read64 [OF assms(4) that(2)])
    show "page_aligned (ps ! k)" using ready_page(2) [OF assms(1), of k] that by simp
    show "ps ! k \<noteq> ps ! (?n - 1)"
      using nth_eq_iff_index_eq [OF ready_distinct [OF assms(1)], of k "?n - 1"] that by simp
  qed
  have b: "?n - 2 < ?n - 1" "?n - 3 - i < ?n - 1" using n by auto
  have u: "unat (of_nat i :: u64) < 512" using i by (simp add: unat_of_nat_64)
  show "read64 m' (entry (ps ! (?n - 2)) (of_nat i)) = guest_table_entry (guest_frame (?n - 3 - i)) \<and>
    (\<forall>k. unat k < 512 \<longrightarrow> read64 m' (entry (ps ! (?n - 3 - i)) k) = identity_pde i (unat k))"
    using assms(3) i eq [OF b(1) u] eq [OF b(2)] by (simp add: identity_tables_def del: diff_diff_left)
qed

lemma vm_guest_paging_setup_identity_ok:
  assumes "paging_ready s as vp v ps" "514 \<le> length ps" "guest_physical_pages_used_by_initial_setup v = 0"
  obtains m where "vm_guest_paging_setup_identity vp s = Inr (guest_frame (length ps - 1), setup_st s vp v 514 m)"
    "guest_write v (phys s) m" "identity_mapped m ps"
proof -
  let ?n = "length ps" and ?r = "ps ! (length ps - 1)"
  have n: "514 \<le> ?n" "?n \<le> 68719476736" and g: "get_vm s vp = Inr v" and gpp: "guest_physical_pages v = of_nat ?n"
    using assms(1,2) by (simp_all add: paging_ready_def)
  have lt: "?n - 1 < ?n" "?n - 2 < ?n" using n by auto
  obtain m where loop: "for_loop (identity_pd vp (guest_frame (?n - 2)) (ps ! (?n - 2))) 0 512 (setup_st s vp v 2 (phys s))
      = Inr (setup_st s vp v 514 m)" and m: "guest_write v (phys s) m" "identity_tables m ps 512"
    by (rule identity_pd_loop [OF assms(1) guest_write_refl, of 512 2]) (use n in simp_all)
  let ?m = "write64 (memset ?r 0 4096 m) (entry ?r 0) (guest_table_entry (guest_frame (?n - 2)))"
  note r = ready_page [OF assms(1) lt(1)]
  have first: "vm_use_pages vp 1 s = Inr (setup_st s vp v 1 (phys s))"
    using assms(3) g by (simp add: vm_use_pages_def setup_st_def)
  have second: "vm_use_pages vp 1 (setup_st s vp v 1 (phys s)) = Inr (setup_st s vp v 2 (phys s))"
    by (simp add: setup_st_simps [OF g])
  have sizes: "unat PAGE_TABLE_ENTRIES = 512" "unat PAGE_SIZE = 4096" "LINEAR_ADDRESS_GET_PML4 0 = 0"
    by (simp_all add: PAGE_SIZE_def PAGE_TABLE_ENTRIES_def index_as_take_bit)
  have nz: "guest_physical_pages v \<noteq> 0"
    unfolding gpp using unat_of_nat_64 [of ?n] n by (auto simp: unat_eq_0)
  have a1: "(guest_physical_pages v - 1) * PAGE_SIZE = guest_frame (?n - 1)"
    using n by (simp add: gpp of_nat_diff)
  have a2: "guest_frame (?n - 1) - PAGE_SIZE = guest_frame (?n - 2)"
    using guest_frame_minus [of 1 "?n - 1"] n by (simp add: numeral_2_eq_2)
  have result: "vm_guest_paging_setup_identity vp s = Inr (guest_frame (?n - 1), setup_st s vp v 514 ?m)"
    by (simp only: vm_guest_paging_setup_identity_def g bnd_simps Let_def nz assms(3) simp_thms if_True if_False
      first second one_add_one a1 a2 setup_hostva [OF assms(1) guest_write_refl lt(1)]
      setup_hostva [OF assms(1) guest_write_refl lt(2)] setup_st_simps [OF g] sizes loop prod.case)
  show ?thesis
  proof (rule that [OF result])
    have "guest_write v (memset ?r 0 4096 m) ?m" by (rule guest_write_page(3) [OF r]) simp
    from guest_write_trans [OF guest_write_page(1) [OF r] this] show "guest_write v (phys s) ?m"
      by (rule guest_write_trans [OF m(1)])
    have "page_eq ?m m p" if "page_aligned p" "p \<noteq> ?r" for p
      using page_eq_trans [OF page_eq_write64_entry [OF r(2) that(1), of 0] page_eq_memset [OF r(2) that(1)]] that(2)
      by simp
    then have "identity_tables ?m ps 512" by (rule identity_tables_frame [OF assms(1,2) m(2)])
    then show "identity_mapped ?m ps" by (simp add: identity_mapped_def)
  qed
qed

lemma vm_guest_paging_setup_identity_effect:
  assumes "paging_ready s as vp v ps" "514 \<le> length ps" "guest_physical_pages_used_by_initial_setup v = 0"
  shows "\<exists>s' v'. vm_guest_paging_setup_identity vp s = Inr (guest_frame (length ps - 1), s') \<and> hv_ok s' as \<and>
    get_vm s' vp = Inr v' \<and> guest_physical_pages_used_by_initial_setup v' = 514 \<and>
    guest_mapped (phys s') v' ps \<and> vm_others vp s s' \<and>
    (\<forall>la. unat la < 549755813888 \<longrightarrow>
      vm_guest_paging_get_guest_physical_address s' vp (guest_frame (length ps - 1)) la = Inr (Some la))"
proof -
  obtain m where m: "vm_guest_paging_setup_identity vp s = Inr (guest_frame (length ps - 1), setup_st s vp v 514 m)"
    "guest_write v (phys s) m" "identity_mapped m ps"
    by (rule vm_guest_paging_setup_identity_ok [OF assms])
  have r: "hv_ok s as" "get_vm s vp = Inr v" "guest_mapped (phys s) v ps" "length ps \<le> 68719476736"
    using assms(1) by (simp_all add: paging_ready_def)
  let ?v = "v\<lparr>guest_physical_pages_used_by_initial_setup := 514\<rparr>" and ?s = "setup_st s vp v 514 m"
  note w = guest_write_ok [OF r(1,2) m(2)]
  have g: "get_vm (s\<lparr>phys := m\<rparr>) vp = Inr v" using r(2) by simp
  have ok: "hv_ok ?s as" unfolding setup_st_def by (rule hv_ok_put_same [OF w(1) g]) simp_all
  have "vm_others vp (s\<lparr>phys := m\<rparr>) ?s"
    unfolding vm_others_def setup_st_def get_put_vm [OF g] by simp
  then have others: "vm_others vp s ?s" by (rule vm_others_trans [OF w(3)])
  have gm: "guest_mapped m v ps" by (rule guest_mapped_write [OF r(1-3) m(2)])
  then have gm': "guest_mapped m ?v ps" by (simp add: guest_mapped_def)
  note st = setup_st_simps(1,2) [OF r(2), of 514 m]
  show ?thesis
    using m(1) ok st(2) gm' others identity_mapped_walk [OF gm' assms(2) r(4) m(3)]
    by (intro exI [of _ ?s] exI [of _ ?v]) (simp add: vm_guest_paging_get_guest_physical_address_def st(1))
qed

text \<open>With less than 514 pages the setup stops at the first table that has no page.\<close>

lemma hostva_below_memory:
  assumes "paging_ready s as vp v ps" "guest_write v (phys s) m" "length ps < 514"
  shows "EPT_GET_HOSTVA vp (- PAGE_SIZE) (setup_st s vp v u m) = Inl (Panic ''Unable to walk EPT to get host physical address from guest physical address during guest identity paging setup'')"
proof -
  have r: "hv_ok s as" "get_vm s vp = Inr v" "guest_mapped (phys s) v ps"
    using assms(1) by (simp_all add: paging_ready_def)
  have "guest_pfn (- PAGE_SIZE) = 68719476735" by (simp add: guest_pfn_def PAGE_SIZE_def)
  then have "vm_walk m v (- PAGE_SIZE) = None"
    using guest_mapped_write [OF r assms(2)] assms(3) by (simp add: guest_mapped_def)
  then show ?thesis
    using setup_st_simps [OF r(2)] by (simp add: EPT_GET_HOSTVA_def vmx_ept_get_host_physical_address_walk)
qed

lemma vm_guest_paging_setup_identity_too_small:
  assumes "paging_ready s as vp v ps" "length ps < 514" "guest_physical_pages_used_by_initial_setup v = 0"
  shows "vm_guest_paging_setup_identity vp s = Inl (Panic ''Unable to walk EPT to get host physical address from guest physical address during guest identity paging setup'')"
proof -
  let ?n = "length ps"
  have n: "2 \<le> ?n" and g: "get_vm s vp = Inr v" and gpp: "guest_physical_pages v = of_nat ?n"
    using assms(1) by (simp_all add: paging_ready_def)
  have lt: "?n - 1 < ?n" "?n - 2 < ?n" using n by auto
  have "?n - 2 \<le> 512" "?n - 2 + 2 \<le> ?n" using n assms(2) by auto
  from identity_pd_loop [OF assms(1) guest_write_refl this, of 2] obtain m where
    loop: "for_loop (identity_pd vp (guest_frame (?n - 2)) (ps ! (?n - 2))) 0 (?n - 2) (setup_st s vp v 2 (phys s))
      = Inr (setup_st s vp v (2 + of_nat (?n - 2)) m)" and m: "guest_write v (phys s) m" by blast
  have "guest_frame (?n - 2) - (of_nat (?n - 2) + 1) * PAGE_SIZE = - PAGE_SIZE" by (simp add: distrib_right)
  then have stuck: "identity_pd vp (guest_frame (?n - 2)) (ps ! (?n - 2)) (?n - 2) (setup_st s vp v u m) =
      Inl (Panic ''Unable to walk EPT to get host physical address from guest physical address during guest identity paging setup'')" for u
    using hostva_below_memory [OF assms(1) m assms(2)] setup_st_simps(4) [OF g]
    by (simp add: identity_pd_def Let_def)
  have e: "512 = (?n - 2) + Suc (513 - ?n)" using n assms(2) by simp
  have all: "for_loop (identity_pd vp (guest_frame (?n - 2)) (ps ! (?n - 2))) 0 512 (setup_st s vp v 2 (phys s)) =
      Inl (Panic ''Unable to walk EPT to get host physical address from guest physical address during guest identity paging setup'')"
    by (subst e) (simp only: for_loop_append loop bnd_simps for_loop.simps stuck add_0)
  have first: "vm_use_pages vp 1 s = Inr (setup_st s vp v 1 (phys s))"
    using assms(3) g by (simp add: vm_use_pages_def setup_st_def)
  have second: "vm_use_pages vp 1 (setup_st s vp v 1 (phys s)) = Inr (setup_st s vp v 2 (phys s))"
    by (simp add: setup_st_simps [OF g])
  have nz: "guest_physical_pages v \<noteq> 0"
    unfolding gpp using unat_of_nat_64 [of ?n] n assms(2) by (auto simp: unat_eq_0)
  have a1: "(guest_physical_pages v - 1) * PAGE_SIZE = guest_frame (?n - 1)"
    using n by (simp add: gpp of_nat_diff)
  have a2: "guest_frame (?n - 1) - PAGE_SIZE = guest_frame (?n - 2)"
    using guest_frame_minus [of 1 "?n - 1"] n by (simp add: numeral_2_eq_2)
  have sizes: "unat PAGE_TABLE_ENTRIES = 512" by (simp add: PAGE_TABLE_ENTRIES_def)
  show ?thesis
    by (simp only: vm_guest_paging_setup_identity_def g bnd_simps Let_def nz assms(3) simp_thms if_True if_False
      first second one_add_one a1 a2 setup_hostva [OF assms(1) guest_write_refl lt(1)]
      setup_hostva [OF assms(1) guest_write_refl lt(2)] sizes all)
qed

lemma vm_guest_paging_setup_identity_one:
  assumes "get_vm s vp = Inr v" "guest_mapped (phys s) v ps" "length ps = 1" "guest_physical_pages v = 1"
    and "guest_physical_pages_used_by_initial_setup v = 0"
  shows "vm_guest_paging_setup_identity vp s = Inl (Panic ''Unable to walk EPT to get host physical address from guest physical address during guest identity paging setup'')"
proof -
  have pfn: "guest_pfn 0 = 0" "guest_pfn (- PAGE_SIZE) = 68719476735"
    by (simp_all add: guest_pfn_def PAGE_SIZE_def)
  have "vm_walk (phys s) v 0 = Some (ps ! 0 + (0 AND 0xfff))"
    using assms(2,3) pfn(1) unfolding guest_mapped_def by simp
  moreover have "vm_walk (phys s) v (- PAGE_SIZE) = None"
    using assms(2,3) pfn(2) unfolding guest_mapped_def by simp
  moreover have "vm_use_pages vp 1 s = Inr (setup_st s vp v 1 (phys s))"
    using assms(1,5) by (simp add: vm_use_pages_def setup_st_def)
  ultimately show ?thesis
    by (simp add: vm_guest_paging_setup_identity_def assms setup_st_simps [OF assms(1)] EPT_GET_HOSTVA_def
      vmx_ept_get_host_physical_address_walk Let_def)
qed

section \<open>Guest data in the exit handlers\<close>

text \<open>The bytes at the returned pointer are in one page of the guest memory of the machine.\<close>

lemma host_virtual_address_in_guest:
  assumes "vm_guest_paging_get_host_virtual_address_during_vmexit vs gva sz s = Inr p"
    and "hv_ok s as" "get_vm s (st_vm vs) = Inr v" "guest_mapped (phys s) v ps" "0 < unat sz" "unat sz \<le> 4096"
    and "k < unat sz"
  shows "(V2P_IDENTITY_MAP p + of_nat k) AND PAGE_MASK = V2P_IDENTITY_MAP p AND PAGE_MASK \<and>
    V2P_IDENTITY_MAP p AND PAGE_MASK \<in># guest_pages v"
proof -
  obtain gpa hpa where w: "vm_walk (phys s) v gpa = Some hpa" and p: "p = P2V_IDENTITY_MAP hpa"
    and eq: "p AND PAGE_MASK = (p + (sz - 1)) AND PAGE_MASK"
    using assms(1,3) by (auto simp: vm_guest_paging_get_host_virtual_address_during_vmexit_def Let_def bnd_Inr_iff
      vmx_ept_get_host_physical_address_def split: if_splits option.splits)
  have g: "hpa AND PAGE_MASK \<in># guest_pages v" using guest_isolation(1) [OF assms(2-4) w] .
  let ?b = "p AND PAGE_MASK"
  have al: "page_aligned ?b" by (simp add: PAGE_MASK_def)
  have off: "unat (p AND 0xfff) + (unat sz - 1) < 4096"
  proof (rule ccontr)
    assume ge: "\<not> unat (p AND 0xfff) + (unat sz - 1) < 4096"
    have sz1: "unat (sz - 1) = unat sz - 1" by (rule unat_minus_one) (use assms(5) in auto)
    let ?o = "p AND 0xfff" and ?o' = "(p + (sz - 1)) AND 0xfff"
    have "?b + ?o = p" using page_split [of p] by (simp only: PAGE_MASK_def)
    moreover have "?b + ?o' = p + (sz - 1)"
      using page_split [of "p + (sz - 1)"] eq [unfolded PAGE_MASK_def] by (simp only: PAGE_MASK_def)
    ultimately have "?b + ?o' = ?b + (?o + (sz - 1))" by (simp only: add.assoc [symmetric])
    then have "?o' = ?o + (sz - 1)" by (rule add_left_imp_eq)
    then have "unat ?o' = unat (?o + (sz - 1))" by (rule arg_cong)
    also have "\<dots> = unat ?o + (unat sz - 1)"
      using unat_page_offset [of p] assms(6) by (subst unat_plus_64_no_wrap) (simp_all add: sz1)
    finally show False using ge unat_page_offset [of "p + (sz - 1)"] by simp
  qed
  have hpa: "hpa AND PAGE_MASK = hpa - (p AND 0xfff)" "hpa AND 0xfff = p AND 0xfff"
  proof -
    have "p = (hpa AND PAGE_MASK) + RKHV_PHYSICAL_MEMORY_BASE + (hpa AND 0xfff)"
      using page_split [of hpa] by (simp add: p P2V_IDENTITY_MAP_def PAGE_MASK_def algebra_simps)
    moreover have "page_aligned ((hpa AND PAGE_MASK) + RKHV_PHYSICAL_MEMORY_BASE)"
      by (rule page_aligned_plus, simp add: PAGE_MASK_def, simp add: RKHV_PHYSICAL_MEMORY_BASE_def page_aligned_def)
    ultimately show o: "hpa AND 0xfff = p AND 0xfff"
      using page_base_plus(2) [OF _ unat_page_offset, of _ hpa] by metis
    show "hpa AND PAGE_MASK = hpa - (p AND 0xfff)"
      using page_split [of hpa] unfolding o [symmetric] PAGE_MASK_def by (metis add_diff_cancel_right')
  qed
  have "(hpa + of_nat k) AND PAGE_MASK = hpa AND PAGE_MASK"
  proof -
    have k: "unat (of_nat k :: u64) = k" using assms(6,7) by (simp add: unat_of_nat_64)
    have "unat ((p AND 0xfff) + of_nat k) < 4096"
      using off assms(7) k by (subst unat_plus_64_no_wrap) simp_all
    from page_base_plus(1) [OF _ this, of "hpa AND PAGE_MASK"]
    show ?thesis using hpa(1) by (simp add: PAGE_MASK_def algebra_simps)
  qed
  with g show ?thesis by (simp add: p)
qed

end
