(* ===== verification/Device_8250uart.thy ===== *)
theory Device_8250uart
  imports Hv_Console Vm_Manager
begin

text \<open>
  hv/src/vmm/devices/vmd.c and vmd\_8250uart.c: the emulated serial port.  The guest's output is kept
  in a buffer of 128 bytes and printed line by line; the other registers are plain storage.  The
  lemmas: the index into the buffer is always in range, so that no access of the handlers faults; the
  buffer refines the list of the characters of the current line; and what a guest transmits is
  printed as the lines of \<open>serial_lines\<close>.
\<close>

section \<open>Registers\<close>

definition COM_DATA_REG :: u16 where [hv_const]: "COM_DATA_REG = 0"
definition COM_INT_ENABLE_REG :: u16 where [hv_const]: "COM_INT_ENABLE_REG = 1"
definition COM_INT_ID_REG :: u16 where [hv_const]: "COM_INT_ID_REG = 2"
definition COM_FIFO_CONTROL_REG :: u16 where [hv_const]: "COM_FIFO_CONTROL_REG = 2"
definition COM_LINE_CONTROL_REG :: u16 where [hv_const]: "COM_LINE_CONTROL_REG = 3"
definition COM_MODEM_CONTROL_REG :: u16 where [hv_const]: "COM_MODEM_CONTROL_REG = 4"
definition COM_LINE_STATUS_REG :: u16 where [hv_const]: "COM_LINE_STATUS_REG = 5"
definition COM_MODEM_STATUS_REG :: u16 where [hv_const]: "COM_MODEM_STATUS_REG = 6"
definition COM_SCRATCH_REG :: u16 where [hv_const]: "COM_SCRATCH_REG = 7"
definition COM_PORTS_LEN :: nat where [hv_const]: "COM_PORTS_LEN = 8"

definition COM1 :: u16 where [hv_const]: "COM1 = 0x3F8"
definition COM2 :: u16 where [hv_const]: "COM2 = 0x2F8"
definition COM_BAUD_RATE_BASE :: u64 where [hv_const]: "COM_BAUD_RATE_BASE = 115200"

definition COM_INT_ENABLE_DATA_AVAILABLE :: u8 where [hv_const]: "COM_INT_ENABLE_DATA_AVAILABLE = 0x01"
definition COM_INT_ENABLE_TRANSMIT_EMPTY :: u8 where [hv_const]: "COM_INT_ENABLE_TRANSMIT_EMPTY = 0x02"
definition COM_INT_ENABLE_BREAK_OR_ERROR :: u8 where [hv_const]: "COM_INT_ENABLE_BREAK_OR_ERROR = 0x04"
definition COM_INT_ENABLE_STATUS_CHANGE :: u8 where [hv_const]: "COM_INT_ENABLE_STATUS_CHANGE = 0x08"
definition COM_FIFO_CONTROL_ENABLE :: u8 where [hv_const]: "COM_FIFO_CONTROL_ENABLE = 0x01"
definition COM_FIFO_CONTROL_CLEAR_RX_FIFO :: u8 where [hv_const]: "COM_FIFO_CONTROL_CLEAR_RX_FIFO = 0x02"
definition COM_FIFO_CONTROL_CLEAR_TX_FIFO :: u8 where [hv_const]: "COM_FIFO_CONTROL_CLEAR_TX_FIFO = 0x04"
definition COM_FIFO_CONTROL_DMA_MODE :: u8 where [hv_const]: "COM_FIFO_CONTROL_DMA_MODE = 0x08"
definition COM_FIFO_CONTROL_TL_MASK :: u8 where [hv_const]: "COM_FIFO_CONTROL_TL_MASK = 0xC0"
definition COM_LINE_CONTROL_DLAB :: u8 where [hv_const]: "COM_LINE_CONTROL_DLAB = 0x80"
definition COM_MODEM_CONTROL_DTR_PIN :: u8 where [hv_const]: "COM_MODEM_CONTROL_DTR_PIN = 0x01"
definition COM_MODEM_CONTROL_RTS_PIN :: u8 where [hv_const]: "COM_MODEM_CONTROL_RTS_PIN = 0x02"
definition COM_MODEM_CONTROL_IRQ :: u8 where [hv_const]: "COM_MODEM_CONTROL_IRQ = 0x08"
definition COM_MODEM_CONTROL_LOOP :: u8 where [hv_const]: "COM_MODEM_CONTROL_LOOP = 0x10"
definition COM_LINE_STATUS_TRANSMITTER_HOLDING_REGISTER_EMPTY :: u8 where
  [hv_const]: "COM_LINE_STATUS_TRANSMITTER_HOLDING_REGISTER_EMPTY = 0x20"
definition COM_LINE_STATUS_TRANSMITTER_EMPTY :: u8 where [hv_const]: "COM_LINE_STATUS_TRANSMITTER_EMPTY = 0x40"

section \<open>The operations\<close>

definition vmd_get_device_arena :: "hv_state \<Rightarrow> (u64 \<times> hv_state) res" where
  "vmd_get_device_arena s =
     (if vmd_device_arena s = 0
      then bnd (arena_create s) (\<lambda>(a, s). Inr (a, s\<lparr>vmd_device_arena := a\<rparr>))
      else Inr (vmd_device_arena s, s))"

text \<open>Reading and storing a byte of an array: outside of it is a fault.\<close>

definition array_set :: "'a list \<Rightarrow> nat \<Rightarrow> 'a \<Rightarrow> 'a list res" where
  "array_set xs i x = (if i < length xs then Inr (xs[i := x]) else Inl (Fault ''array''))"

definition array_get :: "'a list \<Rightarrow> nat \<Rightarrow> 'a res" where
  "array_get xs i = (if i < length xs then Inr (xs ! i) else Inl (Fault ''array''))"

definition uart_at :: "hv_state \<Rightarrow> u64 \<Rightarrow> vmd_8250uart_t res" where
  "uart_at s up = (case uart_heap s up of None \<Rightarrow> Inl (Fault ''vmd_8250uart_t'') | Some u \<Rightarrow> Inr u)"

definition put_uart :: "u64 \<Rightarrow> vmd_8250uart_t \<Rightarrow> hv_state \<Rightarrow> hv_state" where
  "put_uart up u s = s\<lparr>uart_heap := (uart_heap s)(up \<mapsto> u)\<rparr>"

definition uart_line_format :: string where
  "uart_line_format = ESC # ''[34;1mvm '' @ DQUOTE # ''%s'' @ DQUOTE # ''(%s):'' @ ESC # ''[0m %s'' @ [LF]"

definition vmd_8250uart_putc :: "u64 \<Rightarrow> u64 \<Rightarrow> u8 \<Rightarrow> hv_state \<Rightarrow> hv_state res" where
  "vmd_8250uart_putc vp up read_byte s = bnd (uart_at s up) (\<lambda>u.
     let sizeof_output_buffer = of_nat VMD_8250UART_T_OUTPUT_BUFFER_CAPACITY;
         u = (if output_buffer_size u \<ge> sizeof_output_buffer - 1 then u\<lparr>output_buffer_size := 0\<rparr> else u) in
     bnd (array_set (output_buffer u) (unat (output_buffer_size u)) read_byte) (\<lambda>b.
     let u = u\<lparr>output_buffer := b, output_buffer_size := output_buffer_size u + 1\<rparr> in
     if read_byte = 0x0a \<or> output_buffer_size u \<ge> sizeof_output_buffer - 1 then
       bnd (if output_buffer_size u > 0
            then bnd (array_get b (unat (output_buffer_size u - 1))) (\<lambda>c. Inr (c = 0x0a)) else Inr False) (\<lambda>newline.
       bnd (if newline then array_set b (unat (output_buffer_size u - 1)) 0
            else array_set b (unat (output_buffer_size u)) 0) (\<lambda>b.
       bnd (get_vm s vp) (\<lambda>v.
       bnd (hv_printf uart_line_format [Arg_str (Some (vm_name v)), Arg_str (Some (port_name u)),
              Arg_str (Some (map byte_char b))] s) (\<lambda>s.
       Inr (put_uart up (u\<lparr>output_buffer := b, output_buffer_size := 0\<rparr>) s)))))
     else Inr (put_uart up u s)))"

definition uart_debug_format :: string where
  "uart_debug_format = DQUOTE # ''%s'' @ DQUOTE # ''(%s) : %ubps INT:%xpb FIFO:%xpb LINE:%xpb MODEM:%xpb''"

definition vmd_8250uart_debug_print_control_regs :: "u64 \<Rightarrow> u64 \<Rightarrow> hv_state \<Rightarrow> hv_state res" where
  "vmd_8250uart_debug_print_control_regs vp up s = bnd (get_vm s vp) (\<lambda>v. bnd (uart_at s up) (\<lambda>u.
     let baud_rate = (if baud_rate_divisor u = 0 then 0 else COM_BAUD_RATE_BASE div ucast (baud_rate_divisor u)) in
     LOG ''vmd_8250uart'' uart_debug_format
       [Arg_str (Some (vm_name v)), Arg_str (Some (port_name u)), Arg_int baud_rate,
        Arg_int (ucast (int_enable_reg u)), Arg_int (ucast (fifo_control_reg u)),
        Arg_int (ucast (line_control_reg u)), Arg_int (ucast (modem_control_reg u))] s))"

definition dlab :: "vmd_8250uart_t \<Rightarrow> bool" where
  "dlab u \<longleftrightarrow> line_control_reg u AND COM_LINE_CONTROL_DLAB \<noteq> 0"

text \<open>The switch of the handler of \<open>out\<close>; the boolean is \<open>print_debug\<close>.\<close>

definition vmd_8250uart_outb_switch ::
    "u64 \<Rightarrow> u64 \<Rightarrow> vmd_8250uart_t \<Rightarrow> u16 \<Rightarrow> u8 \<Rightarrow> hv_state \<Rightarrow> (bool \<times> hv_state) res" where
  "vmd_8250uart_outb_switch vp up u port_offset read_byte s =
     (if port_offset = COM_DATA_REG then
        if dlab u then
          Inr (True, put_uart up (u\<lparr>baud_rate_divisor := (baud_rate_divisor u AND 0xff00) OR ucast read_byte\<rparr>) s)
        else bnd (vmd_8250uart_putc vp up read_byte s) (\<lambda>s. Inr (False, s))
      else if port_offset = COM_INT_ENABLE_REG then
        if dlab u then
          Inr (True, put_uart up (u\<lparr>baud_rate_divisor :=
            (baud_rate_divisor u AND 0xff) OR push_bit 8 (ucast read_byte)\<rparr>) s)
        else Inr (True, put_uart up (u\<lparr>int_enable_reg := read_byte AND
            (COM_INT_ENABLE_DATA_AVAILABLE OR COM_INT_ENABLE_TRANSMIT_EMPTY OR
             COM_INT_ENABLE_BREAK_OR_ERROR OR COM_INT_ENABLE_STATUS_CHANGE)\<rparr>) s)
      else if port_offset = COM_FIFO_CONTROL_REG then
        Inr (True, put_uart up (u\<lparr>fifo_control_reg := read_byte AND
            (COM_FIFO_CONTROL_ENABLE OR COM_FIFO_CONTROL_CLEAR_RX_FIFO OR COM_FIFO_CONTROL_CLEAR_TX_FIFO OR
             COM_FIFO_CONTROL_DMA_MODE OR COM_FIFO_CONTROL_TL_MASK)\<rparr>) s)
      else if port_offset = COM_LINE_CONTROL_REG then
        Inr (True, put_uart up (u\<lparr>line_control_reg := read_byte\<rparr>) s)
      else if port_offset = COM_MODEM_CONTROL_REG then
        Inr (True, put_uart up (u\<lparr>modem_control_reg := read_byte AND
            (COM_MODEM_CONTROL_DTR_PIN OR COM_MODEM_CONTROL_RTS_PIN OR COM_MODEM_CONTROL_IRQ OR
             COM_MODEM_CONTROL_LOOP)\<rparr>) s)
      else if port_offset \<in> {COM_LINE_STATUS_REG, COM_MODEM_STATUS_REG, COM_SCRATCH_REG} then Inr (True, s)
      else Inl (Panic ''Reached 8250uart outb handler with unexpected port''))"

definition vmd_8250uart_outb_handler :: "u64 \<Rightarrow> u64 \<Rightarrow> u16 \<Rightarrow> u8 \<Rightarrow> hv_state \<Rightarrow> hv_state res" where
  "vmd_8250uart_outb_handler vp device_data port read_byte s = bnd (uart_at s device_data) (\<lambda>u.
     bnd (vmd_8250uart_outb_switch vp device_data u (port - port_base u) read_byte s) (\<lambda>(print_debug, s).
       if print_debug then vmd_8250uart_debug_print_control_regs vp device_data s else Inr s))"

definition vmd_8250uart_inb_handler :: "u64 \<Rightarrow> u16 \<Rightarrow> hv_state \<Rightarrow> u8 res" where
  "vmd_8250uart_inb_handler device_data port s = bnd (uart_at s device_data) (\<lambda>u.
     let port_offset = port - port_base u in
     if port_offset = COM_DATA_REG then
       Inr (if dlab u then ucast (baud_rate_divisor u AND 0xff) else 0)
     else if port_offset = COM_INT_ENABLE_REG then
       Inr (if dlab u then ucast (drop_bit 8 (baud_rate_divisor u)) else int_enable_reg u)
     else if port_offset = COM_INT_ID_REG then Inr 0
     else if port_offset = COM_LINE_CONTROL_REG then Inr (line_control_reg u)
     else if port_offset = COM_MODEM_CONTROL_REG then Inr (modem_control_reg u)
     else if port_offset = COM_LINE_STATUS_REG then
       Inr (COM_LINE_STATUS_TRANSMITTER_HOLDING_REGISTER_EMPTY OR COM_LINE_STATUS_TRANSMITTER_EMPTY)
     else if port_offset = COM_MODEM_STATUS_REG then Inr 0
     else if port_offset = COM_SCRATCH_REG then Inr 0
     else Inl (Panic ''Reached 8250uart inb handler with unexpected port''))"

definition vmd_8250uart_new :: "u16 \<Rightarrow> string \<Rightarrow> vmd_8250uart_t" where
  "vmd_8250uart_new base pname = \<lparr>output_buffer = replicate VMD_8250UART_T_OUTPUT_BUFFER_CAPACITY 0,
     output_buffer_size = 0, port_name = pname, port_base = base, baud_rate_divisor = 0,
     int_enable_reg = 0, fifo_control_reg = 0, line_control_reg = 0, modem_control_reg = 0\<rparr>"

definition vmd_8250uart_device :: "u16 \<Rightarrow> u64 \<Rightarrow> vm_device_t" where
  "vmd_8250uart_device base uart = \<lparr>dev_next = 0,
     dev_ports = map (\<lambda>i. base + of_nat i) [0..<COM_PORTS_LEN] @ replicate (VM_DEVICE_T_MAX_PORTS - COM_PORTS_LEN) 0,
     dev_ports_len = of_nat COM_PORTS_LEN, dev_device_data = uart,
     dev_outb_handler = Some Vmd_8250uart_outb_handler, dev_outw_handler = None, dev_outd_handler = None,
     dev_inb_handler = Some Vmd_8250uart_inb_handler, dev_inw_handler = None, dev_ind_handler = None\<rparr>"

definition vmd_8250uart_create :: "u16 \<Rightarrow> string \<Rightarrow> hv_state \<Rightarrow> (u64 \<times> hv_state) res" where
  "vmd_8250uart_create base pname s =
     bnd (vmd_get_device_arena s) (\<lambda>(arena, s).
     bnd (arena_allocate arena sizeof_vm_device_t s) (\<lambda>(device, s).
     bnd (vmd_get_device_arena s) (\<lambda>(arena, s).
     bnd (arena_allocate arena sizeof_vmd_8250uart_t s) (\<lambda>(uart, s).
     Inr (device, s\<lparr>uart_heap := (uart_heap s)(uart \<mapsto> vmd_8250uart_new base pname),
                   dev_heap := (dev_heap s)(device \<mapsto> vmd_8250uart_device base uart)\<rparr>)))))"

section \<open>The text that is printed\<close>

definition uart_line_text :: "string \<Rightarrow> string \<Rightarrow> string \<Rightarrow> string" where
  "uart_line_text vname pname l = ESC # ''[34;1mvm '' @ DQUOTE # c_string vname @ DQUOTE # ''('' @
     c_string pname @ ''):'' @ ESC # ''[0m '' @ c_string l @ [LF]"

lemma uart_line_printf:
  "stdio_printf uart_line_format [Arg_str (Some a), Arg_str (Some b), Arg_str (Some c)] = Inr (uart_line_text a b c)"
  by (simp add: uart_line_format_def stdio_printf_def str_printf_core_def printf_simps uart_line_text_def)

lemma category_uart: "CHR ''%'' \<notin> set ''vmd_8250uart''"
  by simp

lemma debug_print_regs:
  assumes "get_vm s vp = Inr v" "uart_at s up = Inr u"
  shows "\<exists>t. vmd_8250uart_debug_print_control_regs vp up s = Inr (s\<lparr>console := console s @ t\<rparr>)"
proof -
  have "\<exists>t. stdio_printf (uart_debug_format @ [LF])
      [Arg_str (Some n), Arg_str (Some p), Arg_int a, Arg_int b, Arg_int c, Arg_int d, Arg_int e] = Inr t"
    for n p a b c d e
    by (simp add: uart_debug_format_def stdio_printf_def str_printf_core_def printf_simps)
  from this [THEN exE] have "\<exists>t. LOG ''vmd_8250uart'' uart_debug_format
      [Arg_str (Some n), Arg_str (Some p), Arg_int a, Arg_int b, Arg_int c, Arg_int d, Arg_int e] s =
      Inr (s\<lparr>console := console s @ t\<rparr>)"
    for n p a b c d e
    by (metis LOG_text category_uart)
  then show ?thesis using assms
    by (simp add: vmd_8250uart_debug_print_control_regs_def Let_def)
qed

section \<open>The line buffer\<close>

text \<open>The specification: the bytes of the current line, and the line that is printed, if any.\<close>

definition line_putc :: "u8 list \<Rightarrow> u8 \<Rightarrow> u8 list \<times> u8 list option" where
  "line_putc pend c = (if c = 0x0a then ([], Some pend)
     else if length pend \<ge> 126 then ([], Some (pend @ [c])) else (pend @ [c], None))"

primrec serial_lines :: "u8 list \<Rightarrow> u8 list \<Rightarrow> u8 list list \<times> u8 list" where
  "serial_lines pend [] = ([], pend)"
| "serial_lines pend (c # cs) = (case line_putc pend c of (p, l) \<Rightarrow> case serial_lines p cs of (ls, q) \<Rightarrow>
     ((case l of None \<Rightarrow> ls | Some x \<Rightarrow> x # ls), q))"

text \<open>The abstraction and the invariant of the buffer.\<close>

definition pending :: "vmd_8250uart_t \<Rightarrow> u8 list" where
  "pending u = take (unat (output_buffer_size u)) (output_buffer u)"

definition uart_ok :: "vmd_8250uart_t \<Rightarrow> bool" where
  "uart_ok u \<longleftrightarrow> length (output_buffer u) = VMD_8250UART_T_OUTPUT_BUFFER_CAPACITY \<and>
     unat (output_buffer_size u) < VMD_8250UART_T_OUTPUT_BUFFER_CAPACITY - 1"

lemma uart_ok_new [simp]: "uart_ok (vmd_8250uart_new b n)" "pending (vmd_8250uart_new b n) = []"
  by (simp_all add: uart_ok_def pending_def vmd_8250uart_new_def hv_const)

lemma length_pending: "uart_ok u \<Longrightarrow> length (pending u) = unat (output_buffer_size u)"
  by (simp add: uart_ok_def pending_def hv_const)

lemma uart_ok_bounds:
  "uart_ok u \<Longrightarrow> unat (output_buffer_size u) \<le> 126 \<and> length (output_buffer u) = 128"
  by (simp add: uart_ok_def hv_const)

lemma c_string_append_NUL: "c_string (xs @ NUL # r) = c_string xs"
  by (induction xs) (simp_all add: c_string_def)

lemma c_string_at: "n < length b \<Longrightarrow> c_string (map byte_char (b[n := 0])) = c_string (map byte_char (take n b))"
proof -
  assume n: "n < length b"
  have "map byte_char (b[n := 0]) = map byte_char (take n b) @ NUL # map byte_char (drop (Suc n) b)"
    using n by (simp add: upd_conv_take_nth_drop)
  then show ?thesis by (simp add: c_string_append_NUL)
qed

lemma uart_at_put [simp]: "uart_at (put_uart up u s) q = (if q = up then Inr u else uart_at s q)"
  by (simp add: uart_at_def put_uart_def)

lemma get_vm_put_uart [simp]: "get_vm (put_uart up u s) = get_vm s"
  by (rule get_vm_cong) (simp add: put_uart_def)

lemma get_vm_console [simp]: "get_vm (s\<lparr>console := t\<rparr>) = get_vm s"
  by (rule get_vm_cong) simp

definition uart_emits :: "vm_t \<Rightarrow> vmd_8250uart_t \<Rightarrow> u8 list option \<Rightarrow> string" where
  "uart_emits v u l = (case l of None \<Rightarrow> [] | Some x \<Rightarrow> uart_line_text (vm_name v) (port_name u) (map byte_char x))"

text \<open>Two UARTs that differ in the buffer only.\<close>

definition same_regs :: "vmd_8250uart_t \<Rightarrow> vmd_8250uart_t \<Rightarrow> bool" where
  "same_regs u u' \<longleftrightarrow> u' = u\<lparr>output_buffer := output_buffer u', output_buffer_size := output_buffer_size u'\<rparr>"

lemma same_regsD:
  assumes "same_regs u u'"
  shows "port_name u' = port_name u" "port_base u' = port_base u" "line_control_reg u' = line_control_reg u"
    "baud_rate_divisor u' = baud_rate_divisor u" "int_enable_reg u' = int_enable_reg u"
    "fifo_control_reg u' = fifo_control_reg u" "modem_control_reg u' = modem_control_reg u"
  using assms by (metis (no_types, lifting) same_regs_def vmd_8250uart_t.select_convs
      vmd_8250uart_t.surjective vmd_8250uart_t.update_convs)+

lemma vmd_8250uart_putc_refines:
  assumes "uart_at s up = Inr u" "uart_ok u" "get_vm s vp = Inr v"
  obtains u' where "uart_ok u'" "pending u' = fst (line_putc (pending u) c)" "same_regs u u'"
    "vmd_8250uart_putc vp up c s =
       Inr (put_uart up u' (s\<lparr>console := console s @ uart_emits v u (snd (line_putc (pending u) c))\<rparr>))"
proof -
  define n where "n = unat (output_buffer_size u)"
  define b where "b = (output_buffer u)[n := c]"
  have n: "n \<le> 126" "length b = 128" "length (output_buffer u) = 128"
    using uart_ok_bounds [OF assms(2)] by (simp_all add: n_def b_def)
  have sz: "unat (output_buffer_size u + 1) = n + 1" "\<not> 127 \<le> output_buffer_size u"
    using n(1) by (simp_all add: n_def unat_plus_64_no_wrap word_le_nat_alt)
  have full: "127 \<le> output_buffer_size u + 1 \<longleftrightarrow> n = 126"
    using n(1) sz(1) by (auto simp: word_le_nat_alt)
  have pos: "0 < output_buffer_size u + 1" using sz(1) by (simp add: word_less_nat_alt)
  have take_b: "take n b = pending u" "take (Suc n) b = pending u @ [c]" "b ! n = c"
    using n by (simp_all add: b_def pending_def n_def take_Suc_conv_app_nth)
  have len: "length (pending u) = n" using length_pending [OF assms(2)] by (simp add: n_def)
  have uu: "unat (output_buffer_size u) = n" by (simp add: n_def)
  show ?thesis
  proof (cases "c = 0x0a \<or> n = 126")
    case False
    let ?u = "u\<lparr>output_buffer := b, output_buffer_size := output_buffer_size u + 1\<rparr>"
    have "vmd_8250uart_putc vp up c s = Inr (put_uart up ?u s)"
      using False assms(1) sz full n by (simp add: vmd_8250uart_putc_def hv_const array_set_def uu b_def)
    moreover have "uart_ok ?u" using n sz(1) False by (simp add: uart_ok_def hv_const)
    moreover have "pending ?u = pending u @ [c]" using sz(1) take_b(2) by (simp add: pending_def)
    ultimately show ?thesis using False len n(1)
      by (intro that [of ?u]) (simp_all add: line_putc_def uart_emits_def same_regs_def)
  next
    case True
    define k where "k = (if c = 0x0a then n else Suc n)"
    let ?u = "u\<lparr>output_buffer := b[k := 0], output_buffer_size := 0\<rparr>"
    have k: "k < length b" using n by (simp add: k_def)
    have l: "line_putc (pending u) c = ([], Some (take k b))"
      using True take_b len by (auto simp: line_putc_def k_def)
    have "vmd_8250uart_putc vp up c s = Inr (put_uart up ?u (s\<lparr>console := console s @
        uart_line_text (vm_name v) (port_name u) (map byte_char (b[k := 0]))\<rparr>))"
      using True assms(1,3) sz full n pos take_b(3)
      by (simp add: vmd_8250uart_putc_def hv_const array_set_def array_get_def uu b_def [symmetric]
        uart_line_printf k_def)
    moreover have "uart_line_text (vm_name v) (port_name u) (map byte_char (b[k := 0])) =
        uart_emits v u (snd (line_putc (pending u) c))"
      using c_string_at [OF k] by (simp add: l uart_emits_def uart_line_text_def)
    moreover have "uart_ok ?u" "pending ?u = []" using n by (simp_all add: uart_ok_def hv_const pending_def)
    ultimately show ?thesis by (intro that [of ?u]) (simp_all add: l same_regs_def)
  qed
qed

section \<open>The lines of a transmission\<close>

lemma serial_lines_line:
  assumes "0x0a \<notin> set l" "length pend + length l \<le> 126"
  shows "serial_lines pend (l @ 0x0a # cs) = ((pend @ l) # fst (serial_lines [] cs), snd (serial_lines [] cs))"
  using assms by (induction l arbitrary: pend) (auto simp: line_putc_def split: prod.splits)

text \<open>Lines of at most 126 characters come out as they went in.\<close>

lemma serial_lines_roundtrip:
  "\<forall>l \<in> set ls. 0x0a \<notin> set l \<and> length l \<le> 126 \<Longrightarrow>
   serial_lines [] (concat (map (\<lambda>l. l @ [0x0a]) ls)) = (ls, [])"
  by (induction ls) (simp_all add: serial_lines_line [of _ "[]", simplified])

text \<open>Nothing is lost or added, but the line feeds, whatever is transmitted.\<close>

lemma serial_lines_complete:
  "serial_lines pend cs = (ls, q) \<Longrightarrow> concat ls @ q = pend @ filter (\<lambda>c. c \<noteq> 0x0a) cs"
  by (induction cs arbitrary: pend ls q) (auto simp: line_putc_def split: prod.splits if_splits)

lemma serial_lines_bounds:
  "serial_lines pend cs = (ls, q) \<Longrightarrow> length pend \<le> 126 \<Longrightarrow> length q \<le> 126 \<and> (\<forall>l \<in> set ls. length l \<le> 127)"
  by (induction cs arbitrary: pend ls q) (fastforce simp: line_putc_def split: prod.splits if_splits)+

section \<open>The handlers\<close>

lemma uart_at_console [simp]: "uart_at (s\<lparr>console := t\<rparr>) = uart_at s"
  by (simp add: uart_at_def fun_eq_iff)

lemma put_uart_console [simp]: "(put_uart up u s)\<lparr>console := t\<rparr> = put_uart up u (s\<lparr>console := t\<rparr>)"
  by (simp add: put_uart_def)

lemma console_put_uart [simp]: "console (put_uart up u s) = console s"
  by (simp add: put_uart_def)

text \<open>Transmitting: the data register with the divisor latch closed.\<close>

lemma vmd_8250uart_transmit:
  assumes "uart_at s up = Inr u" "uart_ok u" "get_vm s vp = Inr v" "\<not> dlab u"
  obtains u' where "uart_ok u'" "pending u' = fst (line_putc (pending u) c)" "same_regs u u'"
    "vmd_8250uart_outb_handler vp up (port_base u) c s =
       Inr (put_uart up u' (s\<lparr>console := console s @ uart_emits v u (snd (line_putc (pending u) c))\<rparr>))"
  by (rule vmd_8250uart_putc_refines [OF assms(1-3), of c], rule that)
    (simp_all add: vmd_8250uart_outb_handler_def vmd_8250uart_outb_switch_def assms hv_const)

text \<open>Any access to one of the eight ports of the device succeeds, and changes nothing else.\<close>

lemma offset_cases:
  "(off :: u16) < 8 \<Longrightarrow> off = 0 \<or> off = 1 \<or> off = 2 \<or> off = 3 \<or> off = 4 \<or> off = 5 \<or> off = 6 \<or> off = 7"
proof -
  assume "off < 8"
  then have "unat off < 8" by (simp add: word_less_nat_alt)
  then have "unat off \<in> {0, 1, 2, 3, 4, 5, 6, 7}" by auto
  then have "(of_nat (unat off) :: u16) \<in> of_nat ` {0, 1, 2, 3, 4, 5, 6, 7}" by (rule imageI)
  then show ?thesis by simp
qed

lemma vmd_8250uart_outb_switch_ok:
  assumes "uart_at s up = Inr u" "uart_ok u" "get_vm s vp = Inr v" "off < 8"
  obtains d u' t where "vmd_8250uart_outb_switch vp up u off c s = Inr (d, put_uart up u' (s\<lparr>console := console s @ t\<rparr>))"
    "uart_ok u'" "port_base u' = port_base u"
proof (cases "off = COM_DATA_REG \<and> \<not> dlab u")
  case True
  obtain u' where u': "uart_ok u'" "same_regs u u'" "vmd_8250uart_putc vp up c s =
      Inr (put_uart up u' (s\<lparr>console := console s @ uart_emits v u (snd (line_putc (pending u) c))\<rparr>))"
    by (rule vmd_8250uart_putc_refines [OF assms(1-3), of c]) (rule that)
  have "vmd_8250uart_outb_switch vp up u off c s =
      Inr (False, put_uart up u' (s\<lparr>console := console s @ uart_emits v u (snd (line_putc (pending u) c))\<rparr>))"
    using True u'(3) by (simp add: vmd_8250uart_outb_switch_def)
  from that [OF this u'(1)] u'(2) show ?thesis by (simp add: same_regsD)
next
  case False
  have id: "put_uart up u (s\<lparr>console := console s @ []\<rparr>) = s" using assms(1)
    by (simp add: put_uart_def uart_at_def fun_upd_idem split: option.splits)
  have "\<exists>u'. vmd_8250uart_outb_switch vp up u off c s = Inr (True, put_uart up u' (s\<lparr>console := console s @ []\<rparr>)) \<and>
      uart_ok u' \<and> port_base u' = port_base u"
  proof (cases "off \<in> {COM_LINE_STATUS_REG, COM_MODEM_STATUS_REG, COM_SCRATCH_REG}")
    case True
    then have "vmd_8250uart_outb_switch vp up u off c s = Inr (True, s)"
      by (auto simp: vmd_8250uart_outb_switch_def hv_const)
    then show ?thesis using id assms(2) by metis
  next
    case nolog: False
    then show ?thesis using False assms(2) offset_cases [OF assms(4)]
      by (auto simp: vmd_8250uart_outb_switch_def uart_ok_def hv_const)
  qed
  with that show ?thesis by metis
qed

lemma vmd_8250uart_outb_handler_ok:
  assumes "uart_at s up = Inr u" "uart_ok u" "get_vm s vp = Inr v" "port - port_base u < 8"
  obtains u' t where "vmd_8250uart_outb_handler vp up port c s = Inr (put_uart up u' (s\<lparr>console := console s @ t\<rparr>))"
    "uart_ok u'" "port_base u' = port_base u"
proof -
  obtain d u' t where sw: "vmd_8250uart_outb_switch vp up u (port - port_base u) c s =
      Inr (d, put_uart up u' (s\<lparr>console := console s @ t\<rparr>))" "uart_ok u'" "port_base u' = port_base u"
    by (rule vmd_8250uart_outb_switch_ok [OF assms])
  show ?thesis
  proof (cases d)
    case False
    then show ?thesis using sw assms(1) by (intro that [of u' t]) (simp_all add: vmd_8250uart_outb_handler_def)
  next
    case True
    have "get_vm (put_uart up u' (s\<lparr>console := console s @ t\<rparr>)) vp = Inr v" using assms(3) by simp
    from debug_print_regs [OF this, of up u'] obtain t' where
      "vmd_8250uart_debug_print_control_regs vp up (put_uart up u' (s\<lparr>console := console s @ t\<rparr>)) =
         Inr (put_uart up u' (s\<lparr>console := console s @ t @ t'\<rparr>))" by auto
    then show ?thesis using sw assms(1) True
      by (intro that [of u' "t @ t'"]) (simp_all add: vmd_8250uart_outb_handler_def)
  qed
qed

lemma vmd_8250uart_inb_handler_ok:
  "uart_at s up = Inr u \<Longrightarrow> port - port_base u < 8 \<Longrightarrow> \<exists>b. vmd_8250uart_inb_handler up port s = Inr b"
  using offset_cases [of "port - port_base u"]
  by (auto simp: vmd_8250uart_inb_handler_def Let_def hv_const)

section \<open>The baud rate divisor\<close>

lemma vmd_8250uart_outb_divisor:
  assumes "uart_at s up = Inr u" "get_vm s vp = Inr v" "dlab u"
  shows "\<exists>t. vmd_8250uart_outb_handler vp up (port_base u) c s =
      Inr (put_uart up (u\<lparr>baud_rate_divisor := (baud_rate_divisor u AND 0xff00) OR ucast c\<rparr>) (s\<lparr>console := console s @ t\<rparr>))"
    and "\<exists>t. vmd_8250uart_outb_handler vp up (port_base u + 1) c s =
      Inr (put_uart up (u\<lparr>baud_rate_divisor := (baud_rate_divisor u AND 0xff) OR push_bit 8 (ucast c)\<rparr>)
        (s\<lparr>console := console s @ t\<rparr>))"
proof -
  have d: "\<exists>t. vmd_8250uart_debug_print_control_regs vp up (put_uart up w s) =
      Inr (put_uart up w (s\<lparr>console := console s @ t\<rparr>))" for w
    using debug_print_regs [of "put_uart up w s" vp v up w] assms(2) by simp
  from d [of "u\<lparr>baud_rate_divisor := (baud_rate_divisor u AND 0xff00) OR ucast c\<rparr>"] assms
  show "\<exists>t. vmd_8250uart_outb_handler vp up (port_base u) c s =
      Inr (put_uart up (u\<lparr>baud_rate_divisor := (baud_rate_divisor u AND 0xff00) OR ucast c\<rparr>) (s\<lparr>console := console s @ t\<rparr>))"
    by (simp add: vmd_8250uart_outb_handler_def vmd_8250uart_outb_switch_def COM_DATA_REG_def)
  from d [of "u\<lparr>baud_rate_divisor := (baud_rate_divisor u AND 0xff) OR push_bit 8 (ucast c)\<rparr>"] assms
  show "\<exists>t. vmd_8250uart_outb_handler vp up (port_base u + 1) c s =
      Inr (put_uart up (u\<lparr>baud_rate_divisor := (baud_rate_divisor u AND 0xff) OR push_bit 8 (ucast c)\<rparr>)
        (s\<lparr>console := console s @ t\<rparr>))"
    by (simp add: vmd_8250uart_outb_handler_def vmd_8250uart_outb_switch_def COM_DATA_REG_def COM_INT_ENABLE_REG_def)
qed

lemma divisor_bytes:
  fixes b :: u16 and lo hi :: u8
  defines "d \<equiv> (((b AND 0xff00) OR ucast lo) AND 0xff) OR push_bit 8 (ucast hi)"
  shows "ucast (d AND 0xff) = lo" "ucast (drop_bit 8 d) = hi"
proof -
  have m: "x AND 0xff = take_bit 8 x" for x :: u16 by (simp add: take_bit_eq_mask mask_eq_exp_minus_1)
  have h: "(0xff00 :: u16) = push_bit 8 (mask 8)" by (simp add: mask_eq_exp_minus_1)
  show "ucast (d AND 0xff) = lo" unfolding d_def m h by (rule bit_word_eqI) (auto simp: bit_simps)
  show "ucast (drop_bit 8 d) = hi"
    unfolding d_def m h by (rule bit_word_eqI) (auto simp: bit_simps dest: bit_imp_le_length)
qed

lemma vmd_8250uart_inb_divisor:
  assumes "uart_at s up = Inr u" "dlab u"
  shows "vmd_8250uart_inb_handler up (port_base u) s = Inr (ucast (baud_rate_divisor u AND 0xff))"
    "vmd_8250uart_inb_handler up (port_base u + 1) s = Inr (ucast (drop_bit 8 (baud_rate_divisor u)))"
  using assms by (simp_all add: vmd_8250uart_inb_handler_def COM_DATA_REG_def COM_INT_ENABLE_REG_def)

lemma vmd_8250uart_divisor_roundtrip:
  assumes "uart_at s up = Inr u" "get_vm s vp = Inr v" "dlab u"
  shows "\<exists>s1 s2. vmd_8250uart_outb_handler vp up (port_base u) lo s = Inr s1 \<and>
    vmd_8250uart_outb_handler vp up (port_base u + 1) hi s1 = Inr s2 \<and>
    vmd_8250uart_inb_handler up (port_base u) s2 = Inr lo \<and> vmd_8250uart_inb_handler up (port_base u + 1) s2 = Inr hi"
proof -
  let ?u = "u\<lparr>baud_rate_divisor := (baud_rate_divisor u AND 0xff00) OR ucast lo\<rparr>"
  let ?w = "u\<lparr>baud_rate_divisor := (((baud_rate_divisor u AND 0xff00) OR ucast lo) AND 0xff) OR push_bit 8 (ucast hi)\<rparr>"
  obtain t where t: "vmd_8250uart_outb_handler vp up (port_base u) lo s = Inr (put_uart up ?u (s\<lparr>console := console s @ t\<rparr>))"
    using vmd_8250uart_outb_divisor(1) [OF assms] by blast
  let ?s = "put_uart up ?u (s\<lparr>console := console s @ t\<rparr>)"
  have "uart_at ?s up = Inr ?u" "get_vm ?s vp = Inr v" "dlab ?u" using assms(2,3) by (simp_all add: dlab_def)
  from vmd_8250uart_outb_divisor(2) [OF this, of hi] obtain t' where
    t': "vmd_8250uart_outb_handler vp up (port_base u + 1) hi ?s = Inr (put_uart up ?w (?s\<lparr>console := console ?s @ t'\<rparr>))"
    by auto
  let ?s' = "put_uart up ?w (?s\<lparr>console := console ?s @ t'\<rparr>)"
  have "uart_at ?s' up = Inr ?w" "dlab ?w" using assms(3) by (simp_all add: dlab_def)
  note r = vmd_8250uart_inb_divisor [OF this]
  have w: "port_base ?w = port_base u" "baud_rate_divisor ?w =
      (((baud_rate_divisor u AND 0xff00) OR ucast lo) AND 0xff) OR push_bit 8 (ucast hi)" by simp_all
  have "vmd_8250uart_inb_handler up (port_base u) ?s' = Inr lo" "vmd_8250uart_inb_handler up (port_base u + 1) ?s' = Inr hi"
    using r unfolding w divisor_bytes by blast+
  with t t' show ?thesis by blast
qed

end
