(* ===== verification/Io_Ports.thy ===== *)
theory Io_Ports
  imports Device_8250uart
begin

text \<open>
  hv/src/vmm/vm\_ioports.c: the access of a guest to an I/O port is given to the first device of the
  machine that has the port and a handler for the width of the access; an access no device takes is
  reported and ignored.  The walk of the device list may not end on a cyclic list.  The invariant
  \<open>machine_io_ok\<close> says that the list ends and that its devices are serial ports; under it every access
  of every width succeeds, changes only the serial ports and the console, and keeps the invariant.
\<close>

section \<open>The lookup\<close>

text \<open>The loop over the ports of a device; \<open>h\<close> says that the handler is not null.\<close>

fun device_port :: "bool \<Rightarrow> u16 \<Rightarrow> u16 list \<Rightarrow> nat \<Rightarrow> bool res" where
  "device_port h port ports 0 = Inr False"
| "device_port h port [] (Suc n) = Inl (Fault ''ports'')"
| "device_port h port (p # ports) (Suc n) = (if port = p \<and> h then Inr True else device_port h port ports n)"

partial_function (option) vm_device_lookup :: "(vm_device_t \<Rightarrow> device_handler option) \<Rightarrow>
    (u64 \<rightharpoonup> vm_device_t) \<Rightarrow> u64 \<Rightarrow> u16 \<Rightarrow> (device_handler \<times> u64) option res option" where
  "vm_device_lookup handler heap device_iter port =
     (if device_iter = 0 then Some (Inr None)
      else case heap device_iter of None \<Rightarrow> Some (Inl (Fault ''vm_device_t''))
      | Some d \<Rightarrow> (case device_port (handler d \<noteq> None) port (dev_ports d) (unat (dev_ports_len d)) of
          Inl e \<Rightarrow> Some (Inl e)
        | Inr found \<Rightarrow> if found then Some (Inr (map_option (\<lambda>h. (h, dev_device_data d)) (handler d)))
            else vm_device_lookup handler heap (dev_next d) port))"

definition vm_out_unexpected :: "char \<Rightarrow> string" where
  "vm_out_unexpected sz = DQUOTE # ''%s'' @ DQUOTE # '' : Unexpected out'' @ [sz] @
     '' port=%xpw value=%xp'' @ [sz] @ '' : ignored''"

definition VM_OUT_DEVICE_LOOKUP :: "char \<Rightarrow> (vm_device_t \<Rightarrow> device_handler option) \<Rightarrow>
    (device_handler \<Rightarrow> u64 \<Rightarrow> u64 \<Rightarrow> u16 \<Rightarrow> 'v word \<Rightarrow> hv_state \<Rightarrow> hv_state res) \<Rightarrow>
    u64 \<Rightarrow> u16 \<Rightarrow> 'v :: len word \<Rightarrow> hv_state \<Rightarrow> hv_state res" where
  "VM_OUT_DEVICE_LOOKUP sz handler call vp port value s = bnd (get_vm s vp) (\<lambda>v.
     bnd (loop_result (vm_device_lookup handler (dev_heap s) (vm_devices v) port)) (\<lambda>r. case r of
       Some (h, device_data) \<Rightarrow> call h vp device_data port value s
     | None \<Rightarrow> LOG ''vm'' (vm_out_unexpected sz)
         [Arg_str (Some (vm_name v)), Arg_int (ucast port), Arg_int (ucast value)] s))"

text \<open>Calling a handler through a pointer of its type, and through one of another type.\<close>

definition call_outb :: "device_handler \<Rightarrow> u64 \<Rightarrow> u64 \<Rightarrow> u16 \<Rightarrow> u8 \<Rightarrow> hv_state \<Rightarrow> hv_state res" where
  "call_outb h vp device_data port value s = (case h of
     Vmd_8250uart_outb_handler \<Rightarrow> vmd_8250uart_outb_handler vp device_data port value s
   | _ \<Rightarrow> Inl (Fault ''outb_handler''))"

definition call_out_other :: "device_handler \<Rightarrow> u64 \<Rightarrow> u64 \<Rightarrow> u16 \<Rightarrow> 'v :: len word \<Rightarrow> hv_state \<Rightarrow> hv_state res" where
  "call_out_other h vp device_data port value s = Inl (Fault ''out_handler'')"

definition vm_outb :: "u64 \<Rightarrow> u16 \<Rightarrow> u8 \<Rightarrow> hv_state \<Rightarrow> hv_state res" where
  "vm_outb = VM_OUT_DEVICE_LOOKUP (CHR ''b'') dev_outb_handler call_outb"

definition vm_outw :: "u64 \<Rightarrow> u16 \<Rightarrow> u16 \<Rightarrow> hv_state \<Rightarrow> hv_state res" where
  "vm_outw = VM_OUT_DEVICE_LOOKUP (CHR ''w'') dev_outw_handler call_out_other"

definition vm_outd :: "u64 \<Rightarrow> u16 \<Rightarrow> u32 \<Rightarrow> hv_state \<Rightarrow> hv_state res" where
  "vm_outd = VM_OUT_DEVICE_LOOKUP (CHR ''d'') dev_outd_handler call_out_other"

definition vm_in_unexpected :: "char \<Rightarrow> string" where
  "vm_in_unexpected sz = DQUOTE # ''%s'' @ DQUOTE # '' : Unexpected in'' @ [sz] @ '' port=%xpw : ignored''"

definition VM_IN_DEVICE_LOOKUP :: "char \<Rightarrow> (vm_device_t \<Rightarrow> device_handler option) \<Rightarrow>
    (device_handler \<Rightarrow> u64 \<Rightarrow> u16 \<Rightarrow> hv_state \<Rightarrow> 'v word res) \<Rightarrow>
    u64 \<Rightarrow> u16 \<Rightarrow> hv_state \<Rightarrow> ('v :: len word \<times> hv_state) res" where
  "VM_IN_DEVICE_LOOKUP sz handler call vp port s = bnd (get_vm s vp) (\<lambda>v.
     bnd (loop_result (vm_device_lookup handler (dev_heap s) (vm_devices v) port)) (\<lambda>r. case r of
       Some (h, device_data) \<Rightarrow> bnd (call h device_data port s) (\<lambda>x. Inr (x, s))
     | None \<Rightarrow> bnd (LOG ''vm'' (vm_in_unexpected sz) [Arg_str (Some (vm_name v)), Arg_int (ucast port)] s)
         (\<lambda>s. Inr (0, s))))"

definition call_inb :: "device_handler \<Rightarrow> u64 \<Rightarrow> u16 \<Rightarrow> hv_state \<Rightarrow> u8 res" where
  "call_inb h device_data port s = (case h of
     Vmd_8250uart_inb_handler \<Rightarrow> vmd_8250uart_inb_handler device_data port s
   | _ \<Rightarrow> Inl (Fault ''inb_handler''))"

definition call_in_other :: "device_handler \<Rightarrow> u64 \<Rightarrow> u16 \<Rightarrow> hv_state \<Rightarrow> 'v :: len word res" where
  "call_in_other h device_data port s = Inl (Fault ''in_handler'')"

definition vm_inb :: "u64 \<Rightarrow> u16 \<Rightarrow> hv_state \<Rightarrow> (u8 \<times> hv_state) res" where
  "vm_inb = VM_IN_DEVICE_LOOKUP (CHR ''b'') dev_inb_handler call_inb"

definition vm_inw :: "u64 \<Rightarrow> u16 \<Rightarrow> hv_state \<Rightarrow> (u16 \<times> hv_state) res" where
  "vm_inw = VM_IN_DEVICE_LOOKUP (CHR ''w'') dev_inw_handler call_in_other"

definition vm_ind :: "u64 \<Rightarrow> u16 \<Rightarrow> hv_state \<Rightarrow> (u32 \<times> hv_state) res" where
  "vm_ind = VM_IN_DEVICE_LOOKUP (CHR ''d'') dev_ind_handler call_in_other"

section \<open>The devices of a machine\<close>

primrec dev_list :: "(u64 \<rightharpoonup> vm_device_t) \<Rightarrow> u64 \<Rightarrow> u64 list \<Rightarrow> bool" where
  "dev_list h p [] \<longleftrightarrow> p = 0"
| "dev_list h p (a # as) \<longleftrightarrow> p = a \<and> a \<noteq> 0 \<and> (\<exists>d. h a = Some d \<and> dev_list h (dev_next d) as)"

text \<open>A device is what \<open>vmd_8250uart_create\<close> made, linked into a list.\<close>

definition device_ok :: "(u64 \<rightharpoonup> vm_device_t) \<Rightarrow> (u64 \<rightharpoonup> vmd_8250uart_t) \<Rightarrow> u64 \<Rightarrow> bool" where
  "device_ok h uh a \<longleftrightarrow> (\<exists>d u. h a = Some d \<and> uh (dev_device_data d) = Some u \<and> uart_ok u \<and>
     d = (vmd_8250uart_device (port_base u) (dev_device_data d))\<lparr>dev_next := dev_next d\<rparr>)"

definition machine_io_ok :: "hv_state \<Rightarrow> u64 \<Rightarrow> bool" where
  "machine_io_ok s vp \<longleftrightarrow> (\<exists>v ds. get_vm s vp = Inr v \<and> dev_list (dev_heap s) (vm_devices v) ds \<and>
     (\<forall>a \<in> set ds. device_ok (dev_heap s) (uart_heap s) a))"

text \<open>What an access may change.\<close>

definition io_frame :: "hv_state \<Rightarrow> hv_state \<Rightarrow> bool" where
  "io_frame s s' \<longleftrightarrow> (\<exists>uh t. s' = s\<lparr>uart_heap := uh, console := console s @ t\<rparr>)"

lemma device_port_spec:
  "n \<le> length ports \<Longrightarrow> device_port h port ports n = Inr (h \<and> port \<in> set (take n ports))"
  by (induction h port ports n rule: device_port.induct) auto

lemma device_ports:
  "set (take 8 (dev_ports (vmd_8250uart_device b u))) = {b, b + 1, b + 2, b + 3, b + 4, b + 5, b + 6, b + 7}"
  by (simp add: vmd_8250uart_device_def hv_const upt_rec numeral_eq_Suc)

lemma port_offset_iff: "port \<in> {b, b + 1, b + 2, b + 3, b + 4, b + 5, b + 6, b + 7} \<longleftrightarrow> port - b < (8 :: u16)"
proof
  assume "port - b < 8"
  from offset_cases [OF this] show "port \<in> {b, b + 1, b + 2, b + 3, b + 4, b + 5, b + 6, b + 7}"
    by (auto simp: diff_eq_eq add.commute)
qed auto

lemma device_okE:
  assumes "device_ok h uh a"
  obtains d u where "h a = Some d" "uh (dev_device_data d) = Some u" "uart_ok u"
    "unat (dev_ports_len d) = 8" "length (dev_ports d) = 16"
    "\<forall>port. port \<in> set (take 8 (dev_ports d)) \<longleftrightarrow> port - port_base u < 8"
    "dev_outb_handler d = Some Vmd_8250uart_outb_handler" "dev_inb_handler d = Some Vmd_8250uart_inb_handler"
    "dev_outw_handler d = None" "dev_outd_handler d = None" "dev_inw_handler d = None" "dev_ind_handler d = None"
proof -
  obtain d u where d: "h a = Some d" "uh (dev_device_data d) = Some u" "uart_ok u"
    "d = (vmd_8250uart_device (port_base u) (dev_device_data d))\<lparr>dev_next := dev_next d\<rparr>"
    using assms by (auto simp: device_ok_def)
  let ?d = "vmd_8250uart_device (port_base u) (dev_device_data d)"
  have p: "dev_ports d = dev_ports ?d" by (subst d(4)) simp
  have "port \<in> set (take 8 (dev_ports d)) \<longleftrightarrow> port - port_base u < 8" for port
    unfolding p device_ports by (rule port_offset_iff)
  moreover have "unat (dev_ports_len d) = 8" "length (dev_ports d) = 16"
    "dev_outb_handler d = Some Vmd_8250uart_outb_handler" "dev_inb_handler d = Some Vmd_8250uart_inb_handler"
    "dev_outw_handler d = None" "dev_outd_handler d = None" "dev_inw_handler d = None" "dev_ind_handler d = None"
    by (subst d(4), simp add: vmd_8250uart_device_def hv_const)+
  ultimately show ?thesis using d(1-3) that by blast
qed

text \<open>The lookup finds the first device of the list that takes the access.\<close>

definition takes_port :: "(vm_device_t \<Rightarrow> device_handler option) \<Rightarrow> (u64 \<rightharpoonup> vm_device_t) \<Rightarrow> u16 \<Rightarrow> u64 \<Rightarrow> bool" where
  "takes_port handler h port a \<longleftrightarrow> handler (the (h a)) \<noteq> None \<and> port \<in> set (take 8 (dev_ports (the (h a))))"

lemma vm_device_lookup_find:
  assumes "dev_list h p ds" "\<forall>a \<in> set ds. device_ok h uh a"
  shows "vm_device_lookup handler h p port = Some (Inr (case find (takes_port handler h port) ds of None \<Rightarrow> None
    | Some a \<Rightarrow> map_option (\<lambda>f. (f, dev_device_data (the (h a)))) (handler (the (h a)))))"
  using assms
proof (induction ds arbitrary: p)
  case Nil
  then show ?case by (subst vm_device_lookup.simps) simp
next
  case (Cons a ds)
  from Cons.prems(2) have "device_ok h uh a" by simp
  then obtain d where d: "h a = Some d" "unat (dev_ports_len d) = 8" "length (dev_ports d) = 16"
    by (rule device_okE)
  from Cons.prems d(1) have l: "p = a" "a \<noteq> 0" "dev_list h (dev_next d) ds" by auto
  have "device_port (handler d \<noteq> None) port (dev_ports d) (unat (dev_ports_len d)) = Inr (takes_port handler h port a)"
    using d by (subst device_port_spec) (auto simp: takes_port_def)
  with d l Cons.IH [OF l(3)] Cons.prems(2) show ?case
    by (subst vm_device_lookup.simps) simp
qed

lemma dev_list_in_dom: "dev_list h p ds \<Longrightarrow> a \<in> set ds \<Longrightarrow> h a \<noteq> None"
  by (induction ds arbitrary: p) auto

lemma find_SomeD: "find P xs = Some x \<Longrightarrow> x \<in> set xs \<and> P x"
  by (induction xs) (auto split: if_splits)

lemma find_none: "(\<And>x. x \<in> set xs \<Longrightarrow> \<not> P x) \<Longrightarrow> find P xs = None"
  by (induction xs) auto

section \<open>Every access succeeds\<close>

lemma io_frame_refl [simp]: "io_frame s s"
  unfolding io_frame_def by (intro exI [of _ "uart_heap s"] exI [of _ "[]"]) simp

lemma io_frame_console [simp]: "io_frame s (s\<lparr>console := console s @ t\<rparr>)"
  unfolding io_frame_def by (intro exI [of _ "uart_heap s"] exI [of _ t]) simp

lemma io_frame_put_uart [simp]: "io_frame s (put_uart up u (s\<lparr>console := console s @ t\<rparr>))"
  unfolding io_frame_def put_uart_def by (intro exI [of _ "(uart_heap s)(up \<mapsto> u)"] exI [of _ t]) simp

lemma io_frame_trans: "io_frame s s' \<Longrightarrow> io_frame s' s'' \<Longrightarrow> io_frame s s''"
proof -
  assume "io_frame s s'" "io_frame s' s''"
  then obtain uh t uh' t' where "s' = s\<lparr>uart_heap := uh, console := console s @ t\<rparr>"
    "s'' = s'\<lparr>uart_heap := uh', console := console s' @ t'\<rparr>" by (auto simp: io_frame_def)
  then have "s'' = s\<lparr>uart_heap := uh', console := console s @ t @ t'\<rparr>" by simp
  then show ?thesis unfolding io_frame_def by blast
qed

lemma machine_io_ok_console [simp]: "machine_io_ok (s\<lparr>console := t\<rparr>) = machine_io_ok s"
  by (simp add: machine_io_ok_def fun_eq_iff)

lemma machine_io_ok_put_uart:
  assumes "machine_io_ok s vp" "uart_at s up = Inr u" "uart_ok u'" "port_base u' = port_base u"
  shows "machine_io_ok (put_uart up u' s) vp"
proof -
  obtain v ds where v: "get_vm s vp = Inr v" "dev_list (dev_heap s) (vm_devices v) ds"
    "\<forall>a \<in> set ds. device_ok (dev_heap s) (uart_heap s) a" using assms(1) by (auto simp: machine_io_ok_def)
  have u: "uart_heap s up = Some u" using assms(2) by (simp add: uart_at_def split: option.splits)
  have "device_ok (dev_heap s) ((uart_heap s)(up \<mapsto> u')) a" if "device_ok (dev_heap s) (uart_heap s) a" for a
    using that u assms(3,4) unfolding device_ok_def by (metis fun_upd_apply option.inject)
  with v show ?thesis unfolding machine_io_ok_def by (auto simp: put_uart_def get_vm_def)
qed

lemma unexpected_printf:
  "sz \<noteq> CHR ''%'' \<Longrightarrow> \<exists>t. LOG ''vm'' (vm_out_unexpected sz) [Arg_str (Some n), Arg_int p, Arg_int x] s =
     Inr (s\<lparr>console := console s @ t\<rparr>)"
  "sz \<noteq> CHR ''%'' \<Longrightarrow> \<exists>t. LOG ''vm'' (vm_in_unexpected sz) [Arg_str (Some n), Arg_int p] s =
     Inr (s\<lparr>console := console s @ t\<rparr>)"
proof -
  have c: "CHR ''%'' \<notin> set ''vm''" by simp
  assume "sz \<noteq> CHR ''%''"
  then have "\<exists>t. stdio_printf (vm_out_unexpected sz @ [LF]) [Arg_str (Some n), Arg_int p, Arg_int x] = Inr t"
    "\<exists>t. stdio_printf (vm_in_unexpected sz @ [LF]) [Arg_str (Some n), Arg_int p] = Inr t"
    by (simp_all add: vm_out_unexpected_def vm_in_unexpected_def stdio_printf_def str_printf_core_def printf_simps)
  then show "\<exists>t. LOG ''vm'' (vm_out_unexpected sz) [Arg_str (Some n), Arg_int p, Arg_int x] s =
     Inr (s\<lparr>console := console s @ t\<rparr>)"
    "\<exists>t. LOG ''vm'' (vm_in_unexpected sz) [Arg_str (Some n), Arg_int p] s = Inr (s\<lparr>console := console s @ t\<rparr>)"
    using LOG_text [OF c] by blast+
qed

lemma vm_outb_ok:
  assumes "machine_io_ok s vp"
  obtains s' where "vm_outb vp port c s = Inr s'" "machine_io_ok s' vp" "io_frame s s'"
proof -
  obtain v ds where v: "get_vm s vp = Inr v" "dev_list (dev_heap s) (vm_devices v) ds"
    "\<forall>a \<in> set ds. device_ok (dev_heap s) (uart_heap s) a" using assms(1) by (auto simp: machine_io_ok_def)
  note lookup = vm_device_lookup_find [OF v(2,3), of dev_outb_handler port]
  show ?thesis
  proof (cases "find (takes_port dev_outb_handler (dev_heap s) port) ds")
    case None
    obtain t where "LOG ''vm'' (vm_out_unexpected (CHR ''b'')) [Arg_str (Some (vm_name v)), Arg_int (ucast port), Arg_int (ucast c)] s =
        Inr (s\<lparr>console := console s @ t\<rparr>)" using unexpected_printf(1) [of "CHR ''b''"] by fastforce
    then have "vm_outb vp port c s = Inr (s\<lparr>console := console s @ t\<rparr>)"
      using lookup None v(1) by (simp add: vm_outb_def VM_OUT_DEVICE_LOOKUP_def)
    then show ?thesis by (rule that) (simp_all add: assms)
  next
    case (Some a)
    from find_SomeD [OF this] have a: "a \<in> set ds" "takes_port dev_outb_handler (dev_heap s) port a" by auto
    from v(3) a(1) have "device_ok (dev_heap s) (uart_heap s) a" by simp
    then obtain d u where d: "dev_heap s a = Some d" "uart_heap s (dev_device_data d) = Some u" "uart_ok u"
      "\<forall>port. port \<in> set (take 8 (dev_ports d)) \<longleftrightarrow> port - port_base u < 8"
      "dev_outb_handler d = Some Vmd_8250uart_outb_handler" by (rule device_okE)
    have u: "uart_at s (dev_device_data d) = Inr u" using d(2) by (simp add: uart_at_def)
    have off: "port - port_base u < 8" using a(2) d(1,4) by (simp add: takes_port_def)
    obtain u' t where o: "vmd_8250uart_outb_handler vp (dev_device_data d) port c s =
        Inr (put_uart (dev_device_data d) u' (s\<lparr>console := console s @ t\<rparr>))" "uart_ok u'" "port_base u' = port_base u"
      by (rule vmd_8250uart_outb_handler_ok [OF u d(3) v(1) off])
    then have "vm_outb vp port c s = Inr (put_uart (dev_device_data d) u' (s\<lparr>console := console s @ t\<rparr>))"
      using lookup Some v(1) d(1,5) by (simp add: vm_outb_def VM_OUT_DEVICE_LOOKUP_def call_outb_def)
    then show ?thesis
    proof (rule that)
      show "machine_io_ok (put_uart (dev_device_data d) u' (s\<lparr>console := console s @ t\<rparr>)) vp"
        by (rule machine_io_ok_put_uart [OF _ _ o(2,3)]) (simp_all add: assms u)
    qed simp
  qed
qed

text \<open>No device has handlers of words and double words.\<close>

lemma vm_device_lookup_none:
  assumes "dev_list (dev_heap s) (vm_devices v) ds" "\<forall>a \<in> set ds. device_ok (dev_heap s) (uart_heap s) a"
    and "\<And>d. d \<in> (the \<circ> dev_heap s) ` set ds \<Longrightarrow> handler d = None"
  shows "vm_device_lookup handler (dev_heap s) (vm_devices v) port = Some (Inr None)"
proof -
  have "find (takes_port handler (dev_heap s) port) ds = None"
    by (rule find_none) (use assms(3) in \<open>auto simp: takes_port_def\<close>)
  with vm_device_lookup_find [OF assms(1,2), of handler port] show ?thesis by simp
qed

lemma wide_handlers_none:
  assumes "\<forall>a \<in> set ds. device_ok h uh a" "d \<in> (the \<circ> h) ` set ds"
  shows "dev_outw_handler d = None" "dev_outd_handler d = None" "dev_inw_handler d = None" "dev_ind_handler d = None"
proof -
  obtain a where a: "a \<in> set ds" "d = the (h a)" using assms(2) by auto
  with assms(1) have "device_ok h uh a" by simp
  then show "dev_outw_handler d = None" "dev_outd_handler d = None" "dev_inw_handler d = None" "dev_ind_handler d = None"
    unfolding a(2) by (rule device_okE, simp)+
qed

lemma VM_OUT_ignored:
  assumes "machine_io_ok s vp" "sz \<noteq> CHR ''%''"
    and "\<And>ds d. \<forall>a \<in> set ds. device_ok (dev_heap s) (uart_heap s) a \<Longrightarrow>
      d \<in> (the \<circ> dev_heap s) ` set ds \<Longrightarrow> handler d = None"
  obtains s' where "VM_OUT_DEVICE_LOOKUP sz handler call vp port x s = Inr s'" "machine_io_ok s' vp" "io_frame s s'"
proof -
  obtain v ds where v: "get_vm s vp = Inr v" "dev_list (dev_heap s) (vm_devices v) ds"
    "\<forall>a \<in> set ds. device_ok (dev_heap s) (uart_heap s) a" using assms(1) by (auto simp: machine_io_ok_def)
  have "vm_device_lookup handler (dev_heap s) (vm_devices v) port = Some (Inr None)"
    by (rule vm_device_lookup_none [OF v(2,3)]) (rule assms(3) [OF v(3)])
  moreover obtain t where "LOG ''vm'' (vm_out_unexpected sz) [Arg_str (Some (vm_name v)), Arg_int (ucast port), Arg_int (ucast x)] s =
        Inr (s\<lparr>console := console s @ t\<rparr>)" using unexpected_printf(1) [OF assms(2)] by fastforce
  ultimately have "VM_OUT_DEVICE_LOOKUP sz handler call vp port x s = Inr (s\<lparr>console := console s @ t\<rparr>)"
    using v(1) by (simp add: VM_OUT_DEVICE_LOOKUP_def)
  then show ?thesis by (rule that) (simp_all add: assms(1))
qed

lemma VM_IN_ignored:
  assumes "machine_io_ok s vp" "sz \<noteq> CHR ''%''"
    and "\<And>ds d. \<forall>a \<in> set ds. device_ok (dev_heap s) (uart_heap s) a \<Longrightarrow>
      d \<in> (the \<circ> dev_heap s) ` set ds \<Longrightarrow> handler d = None"
  obtains s' where "VM_IN_DEVICE_LOOKUP sz handler call vp port s = Inr (0, s')" "machine_io_ok s' vp" "io_frame s s'"
proof -
  obtain v ds where v: "get_vm s vp = Inr v" "dev_list (dev_heap s) (vm_devices v) ds"
    "\<forall>a \<in> set ds. device_ok (dev_heap s) (uart_heap s) a" using assms(1) by (auto simp: machine_io_ok_def)
  have "vm_device_lookup handler (dev_heap s) (vm_devices v) port = Some (Inr None)"
    by (rule vm_device_lookup_none [OF v(2,3)]) (rule assms(3) [OF v(3)])
  moreover obtain t where "LOG ''vm'' (vm_in_unexpected sz) [Arg_str (Some (vm_name v)), Arg_int (ucast port)] s =
        Inr (s\<lparr>console := console s @ t\<rparr>)" using unexpected_printf(2) [OF assms(2)] by fastforce
  ultimately have "VM_IN_DEVICE_LOOKUP sz handler call vp port s = Inr (0, s\<lparr>console := console s @ t\<rparr>)"
    using v(1) by (simp add: VM_IN_DEVICE_LOOKUP_def)
  then show ?thesis by (rule that) (simp_all add: assms(1))
qed

lemma vm_outw_ok:
  assumes "machine_io_ok s vp"
  obtains s' where "vm_outw vp port x s = Inr s'" "machine_io_ok s' vp" "io_frame s s'"
  unfolding vm_outw_def by (rule VM_OUT_ignored [OF assms, of "CHR ''w''" dev_outw_handler]) (auto dest: wide_handlers_none)

lemma vm_outd_ok:
  assumes "machine_io_ok s vp"
  obtains s' where "vm_outd vp port x s = Inr s'" "machine_io_ok s' vp" "io_frame s s'"
  unfolding vm_outd_def by (rule VM_OUT_ignored [OF assms, of "CHR ''d''" dev_outd_handler]) (auto dest: wide_handlers_none)

lemma vm_inw_ok:
  assumes "machine_io_ok s vp"
  obtains s' where "vm_inw vp port s = Inr (0, s')" "machine_io_ok s' vp" "io_frame s s'"
  unfolding vm_inw_def by (rule VM_IN_ignored [OF assms, of "CHR ''w''" dev_inw_handler]) (auto dest: wide_handlers_none)

lemma vm_ind_ok:
  assumes "machine_io_ok s vp"
  obtains s' where "vm_ind vp port s = Inr (0, s')" "machine_io_ok s' vp" "io_frame s s'"
  unfolding vm_ind_def by (rule VM_IN_ignored [OF assms, of "CHR ''d''" dev_ind_handler]) (auto dest: wide_handlers_none)

lemma vm_inb_ok:
  assumes "machine_io_ok s vp"
  obtains x s' where "vm_inb vp port s = Inr (x, s')" "machine_io_ok s' vp" "io_frame s s'"
proof -
  obtain v ds where v: "get_vm s vp = Inr v" "dev_list (dev_heap s) (vm_devices v) ds"
    "\<forall>a \<in> set ds. device_ok (dev_heap s) (uart_heap s) a" using assms(1) by (auto simp: machine_io_ok_def)
  note lookup = vm_device_lookup_find [OF v(2,3), of dev_inb_handler port]
  show ?thesis
  proof (cases "find (takes_port dev_inb_handler (dev_heap s) port) ds")
    case None
    obtain t where "LOG ''vm'' (vm_in_unexpected (CHR ''b'')) [Arg_str (Some (vm_name v)), Arg_int (ucast port)] s =
        Inr (s\<lparr>console := console s @ t\<rparr>)" using unexpected_printf(2) [of "CHR ''b''"] by fastforce
    then have "vm_inb vp port s = Inr (0, s\<lparr>console := console s @ t\<rparr>)"
      using lookup None v(1) by (simp add: vm_inb_def VM_IN_DEVICE_LOOKUP_def)
    then show ?thesis by (rule that) (simp_all add: assms)
  next
    case (Some a)
    from find_SomeD [OF this] have a: "a \<in> set ds" "takes_port dev_inb_handler (dev_heap s) port a" by auto
    from v(3) a(1) have "device_ok (dev_heap s) (uart_heap s) a" by simp
    then obtain d u where d: "dev_heap s a = Some d" "uart_heap s (dev_device_data d) = Some u"
      "\<forall>port. port \<in> set (take 8 (dev_ports d)) \<longleftrightarrow> port - port_base u < 8"
      "dev_inb_handler d = Some Vmd_8250uart_inb_handler" by (rule device_okE)
    have u: "uart_at s (dev_device_data d) = Inr u" using d(2) by (simp add: uart_at_def)
    have off: "port - port_base u < 8" using a(2) d(1,3) by (simp add: takes_port_def)
    obtain x where x: "vmd_8250uart_inb_handler (dev_device_data d) port s = Inr x"
      using vmd_8250uart_inb_handler_ok [OF u off] by blast
    then have "vm_inb vp port s = Inr (x, s)"
      using lookup Some v(1) d(1,4) by (simp add: vm_inb_def VM_IN_DEVICE_LOOKUP_def call_inb_def)
    then show ?thesis by (rule that) (simp_all add: assms)
  qed
qed

section \<open>A cyclic list\<close>

text \<open>A device linked to itself that does not take the access: the walk never ends.\<close>

lemma vm_device_lookup_loops:
  assumes "h a = Some d" "dev_next d = a" "a \<noteq> 0"
    and "device_port (handler d \<noteq> None) port (dev_ports d) (unat (dev_ports_len d)) = Inr False"
  shows "vm_device_lookup handler h a port = None"
proof -
  have "heap = h \<longrightarrow> hd = handler \<longrightarrow> pt = port \<longrightarrow> p \<noteq> a"
    if "vm_device_lookup hd heap p pt = Some r" for hd heap p pt r
  proof (rule vm_device_lookup.raw_induct [OF _ that])
    fix f hd heap p pt r
    assume IH: "\<And>hd heap p pt r. f hd heap p pt = Some r \<Longrightarrow> heap = h \<longrightarrow> hd = handler \<longrightarrow> pt = port \<longrightarrow> p \<noteq> a"
      and body: "(if p = 0 then Some (Inr None)
        else case heap p of None \<Rightarrow> Some (Inl (Fault ''vm_device_t''))
        | Some d \<Rightarrow> (case device_port (hd d \<noteq> None) pt (dev_ports d) (unat (dev_ports_len d)) of
            Inl e \<Rightarrow> Some (Inl e)
          | Inr found \<Rightarrow> if found then Some (Inr (map_option (\<lambda>h. (h, dev_device_data d)) (hd d)))
              else f hd heap (dev_next d) pt)) = Some r"
    show "heap = h \<longrightarrow> hd = handler \<longrightarrow> pt = port \<longrightarrow> p \<noteq> a"
      using body IH [of handler h a port r] assms by auto
  qed
  then show ?thesis by (metis option.exhaust)
qed

section \<open>Transmitting through the port\<close>

text \<open>\<open>vm_outb\<close> of each byte of a list to one port.\<close>

primrec vm_outb_list :: "u64 \<Rightarrow> u16 \<Rightarrow> u8 list \<Rightarrow> hv_state \<Rightarrow> hv_state res" where
  "vm_outb_list vp port [] s = Inr s"
| "vm_outb_list vp port (c # cs) s = bnd (vm_outb vp port c s) (vm_outb_list vp port cs)"

text \<open>The first device of the machine that has the port is the serial port at it, its latch closed.\<close>

definition serial_at :: "hv_state \<Rightarrow> u64 \<Rightarrow> u16 \<Rightarrow> vm_t \<Rightarrow> u64 \<Rightarrow> vmd_8250uart_t \<Rightarrow> bool" where
  "serial_at s vp port v up u \<longleftrightarrow> get_vm s vp = Inr v \<and> uart_at s up = Inr u \<and> uart_ok u \<and> port_base u = port \<and> \<not> dlab u \<and>
     vm_device_lookup dev_outb_handler (dev_heap s) (vm_devices v) port = Some (Inr (Some (Vmd_8250uart_outb_handler, up)))"

definition printed_lines :: "string \<Rightarrow> string \<Rightarrow> u8 list list \<Rightarrow> string" where
  "printed_lines vname pname ls = concat (map (\<lambda>l. uart_line_text vname pname (map byte_char l)) ls)"

lemma vm_outb_list_lines:
  assumes "serial_at s vp port v up u"
  shows "\<exists>u'. serial_at (put_uart up u' s) vp port v up u' \<and> pending u' = snd (serial_lines (pending u) cs) \<and>
    vm_outb_list vp port cs s = Inr (put_uart up u' (s\<lparr>console := console s @
      printed_lines (vm_name v) (port_name u) (fst (serial_lines (pending u) cs))\<rparr>))"
  using assms
proof (induction cs arbitrary: s u)
  case Nil
  then have "put_uart up u s = s"
    by (simp add: serial_at_def put_uart_def uart_at_def fun_upd_idem split: option.splits)
  with Nil show ?case by (intro exI [of _ u]) (simp add: printed_lines_def)
next
  case (Cons c cs)
  note sa = Cons.prems [unfolded serial_at_def]
  obtain u1 where u1: "uart_ok u1" "pending u1 = fst (line_putc (pending u) c)" "same_regs u u1"
    "vmd_8250uart_outb_handler vp up (port_base u) c s =
       Inr (put_uart up u1 (s\<lparr>console := console s @ uart_emits v u (snd (line_putc (pending u) c))\<rparr>))"
    by (rule vmd_8250uart_transmit [of s up u vp v c]) (use sa in auto)
  define s1 where "s1 = put_uart up u1 (s\<lparr>console := console s @ uart_emits v u (snd (line_putc (pending u) c))\<rparr>)"
  have out: "vm_outb vp port c s = Inr s1"
    using sa u1(4) by (simp add: vm_outb_def VM_OUT_DEVICE_LOOKUP_def call_outb_def s1_def)
  have "dlab u1 = dlab u" using u1(3) by (simp add: dlab_def same_regsD)
  then have "serial_at s1 vp port v up u1"
    using sa u1(1,3) by (simp add: serial_at_def s1_def same_regsD) (simp add: put_uart_def)
  from Cons.IH [OF this] obtain u' where u': "serial_at (put_uart up u' s1) vp port v up u'"
    "pending u' = snd (serial_lines (pending u1) cs)"
    "vm_outb_list vp port cs s1 = Inr (put_uart up u' (s1\<lparr>console := console s1 @
      printed_lines (vm_name v) (port_name u1) (fst (serial_lines (pending u1) cs))\<rparr>))" by blast
  have "serial_at (put_uart up u' s) vp port v up u'"
    using u'(1) by (simp add: serial_at_def s1_def) (simp add: put_uart_def uart_at_def)
  moreover have "pending u' = snd (serial_lines (pending u) (c # cs))"
    using u'(2) u1(2) by (simp split: prod.splits)
  moreover have "console s1 @ printed_lines (vm_name v) (port_name u1) (fst (serial_lines (pending u1) cs)) =
      console s @ printed_lines (vm_name v) (port_name u) (fst (serial_lines (pending u) (c # cs)))"
    using u1(2,3) by (simp add: s1_def printed_lines_def uart_emits_def same_regsD split: prod.splits option.splits)
  moreover have "put_uart up u' (s1\<lparr>console := t\<rparr>) = put_uart up u' (s\<lparr>console := t\<rparr>)" for t
    by (simp add: s1_def put_uart_def)
  ultimately show ?case using out u'(3) by (intro exI [of _ u']) simp
qed

lemma serial_at_complete:
  assumes "serial_at s vp port v up u"
  shows "\<exists>s' u' ls. vm_outb_list vp port cs s = Inr s' \<and> uart_at s' up = Inr u' \<and> uart_ok u' \<and>
    console s' = console s @ printed_lines (vm_name v) (port_name u) ls \<and>
    concat ls @ pending u' = pending u @ filter (\<lambda>c. c \<noteq> 0x0a) cs \<and> list_all (\<lambda>l. length l \<le> 127) ls"
proof -
  obtain ls q where sl: "serial_lines (pending u) cs = (ls, q)" by (cases "serial_lines (pending u) cs")
  obtain u' where u': "serial_at (put_uart up u' s) vp port v up u'" "pending u' = q"
    "vm_outb_list vp port cs s = Inr (put_uart up u' (s\<lparr>console := console s @ printed_lines (vm_name v) (port_name u) ls\<rparr>))"
    using vm_outb_list_lines [OF assms, of cs] sl by auto
  have "uart_ok u" using assms by (simp add: serial_at_def)
  then have "length (pending u) \<le> 126" using length_pending [of u] by (simp add: uart_ok_def hv_const)
  from serial_lines_bounds [OF sl this] serial_lines_complete [OF sl] u' show ?thesis
    by (auto simp: serial_at_def list_all_iff)
qed

section \<open>Registering devices\<close>

lemma dev_list_upd_other: "a \<notin> set ds \<Longrightarrow> dev_list (h(a := x)) p ds = dev_list h p ds"
  by (induction ds arbitrary: p) auto

lemma register_device_list:
  assumes "get_vm s vp = Inr v" "dev_list (dev_heap s) (vm_devices v) ds" "dev_heap s a = Some d" "dev_next d = 0"
    and "a \<noteq> 0" "a \<notin> set ds"
  shows "\<exists>s' v'. vm_manager_register_device vp a s = Inr s' \<and> get_vm s' vp = Inr v' \<and>
    dev_list (dev_heap s') (vm_devices v') (a # ds) \<and> phys s' = phys s"
proof -
  let ?s = "s\<lparr>dev_heap := (dev_heap s)(a \<mapsto> d\<lparr>dev_next := vm_devices v\<rparr>)\<rparr>" and ?v = "v\<lparr>vm_devices := a\<rparr>"
  have g: "get_vm ?s vp = Inr v" using assms(1) by (simp add: get_vm_def)
  have "dev_heap (put_vm vp ?v ?s) = dev_heap ?s" by (simp add: put_vm_def)
  then have "dev_list (dev_heap (put_vm vp ?v ?s)) a (a # ds)"
    using assms(2,5,6) by (simp add: dev_list_upd_other)
  then show ?thesis
    using assms get_put_vm [OF g, of ?v vp]
    by (intro exI [of _ "put_vm vp ?v ?s"] exI [of _ ?v]) (simp add: vm_manager_register_device_def device_at_def)
qed

lemma reregister_diverges:
  assumes "get_vm s vp = Inr v" "vm_devices v = a" "a \<noteq> 0" "dev_heap s a = Some (vmd_8250uart_device base up)"
    and "8 \<le> port - base"
  shows "\<exists>s'. vm_manager_register_device vp a s = Inr s' \<and> vm_outb vp port c s' = Inl Diverges"
proof -
  let ?d = "vmd_8250uart_device base up"
  let ?s = "s\<lparr>dev_heap := (dev_heap s)(a \<mapsto> ?d\<lparr>dev_next := a\<rparr>)\<rparr>" and ?v = "v\<lparr>vm_devices := a\<rparr>"
  have g: "get_vm (put_vm vp ?v ?s) vp = Inr ?v"
    using get_put_vm [of ?s vp v ?v vp] assms(1) by (simp add: get_vm_def)
  have h: "dev_heap (put_vm vp ?v ?s) a = Some (?d\<lparr>dev_next := a\<rparr>)" by (simp add: put_vm_def)
  have "port \<notin> set (take 8 (dev_ports ?d))"
    using assms(5) port_offset_iff [of port base] by (simp add: device_ports not_less)
  then have "vm_device_lookup dev_outb_handler (dev_heap (put_vm vp ?v ?s)) a port = None"
    using vm_device_lookup_loops [of "dev_heap (put_vm vp ?v ?s)" a "?d\<lparr>dev_next := a\<rparr>" dev_outb_handler port] h
    by (simp add: assms(3) device_port_spec vmd_8250uart_device_def hv_const)
  then have "vm_outb vp port c (put_vm vp ?v ?s) = Inl Diverges"
    using g by (simp add: vm_outb_def VM_OUT_DEVICE_LOOKUP_def loop_result_def)
  moreover have "dev_next ?d = 0" by (simp add: vmd_8250uart_device_def)
  ultimately show ?thesis using assms(1,2,4) by (simp add: vm_manager_register_device_def device_at_def)
qed

end
