(* ===== verification/Vm_Running.thy ===== *)
theory Vm_Running
  imports Guest_Paging Io_Ports
begin

text \<open>
  What holds of a machine between two exits, \<open>vm_running\<close>, and what the hypervisor may change while it
  handles one, \<open>exit_ok\<close>: the guest's own pages, its XCR0, its serial ports, the console, the MSRs and
  the fields of the current VMCS; never the page tables, the pages or the records of another machine.
  Every emulated instruction and the exit handler are shown to stay within this relation.
\<close>

section \<open>States that agree on memory and its owners\<close>

lemma hv_ok_frame:
  assumes "phys s' = phys s" "mm_chainload_page s' = mm_chainload_page s"
    "last_returned_region_index s' = last_returned_region_index s"
    "last_returned_page_index s' = last_returned_page_index s"
    "arena_head s' = arena_head s" "arena_heap s' = arena_heap s"
    "vmxon_region_valid s' = vmxon_region_valid s" "vmxon_region s' = vmxon_region s"
    "msr_bitmaps_page_valid s' = msr_bitmaps_page_valid s" "msr_bitmaps_page s' = msr_bitmaps_page s"
    "vm_manager_arena s' = vm_manager_arena s" "vm_manager_vm_list s' = vm_manager_vm_list s"
  shows "hv_ok s' as = hv_ok s as" "get_vm s' = get_vm s" "vm_others vp s s'" "owned s' as = owned s as"
proof -
  show g: "get_vm s' = get_vm s" by (rule get_vm_cong) (simp add: assms)
  show o: "owned s' as = owned s as" by (simp add: owned_def assms)
  have "mm_ok s' as = mm_ok s as" by (simp add: mm_ok_def mm_position_ok_def arena_ok_def assms)
  moreover have "vms_ok s' as = vms_ok s as" by (simp add: vms_ok_def arena_end_def assms)
  moreover have "mm_page_used_by_chainload s' = mm_page_used_by_chainload s"
    by (simp add: fun_eq_iff mm_page_used_by_chainload_def assms)
  ultimately have "hv_inv s' as = hv_inv s as" by (simp only: hv_inv_def o)
  then show "hv_ok s' as = hv_ok s as" by (simp add: hv_ok_def g assms(1))
  show "vm_others vp s s'" by (simp add: vm_others_def g assms(1))
qed

lemma hv_ok_io [simp]:
  "hv_ok (s\<lparr>cpu := c\<rparr>) as = hv_ok s as"
  "hv_ok (s\<lparr>vmx_msr_host_backup := b\<rparr>) as = hv_ok s as"
  by (rule hv_ok_frame(1); simp)+

lemma get_vm_io [simp]:
  "get_vm (s\<lparr>cpu := c\<rparr>) = get_vm s"
  "get_vm (s\<lparr>vmx_msr_host_backup := b\<rparr>) = get_vm s"
  by (rule get_vm_cong; simp)+

lemma vm_others_io [simp]:
  "vm_others vp s (s\<lparr>cpu := c\<rparr>)"
  "vm_others vp s (s\<lparr>vmx_msr_host_backup := b\<rparr>)"
  by (rule hv_ok_frame(3); simp)+

section \<open>The relation\<close>

lemma vm_walk_xcr0 [simp]: "vm_walk m (v\<lparr>permanent_xcr0 := x\<rparr>) y = vm_walk m v y"
  by (cases "ept_initialized v") (simp_all add: vm_walk_def)

lemma guest_write_xcr0 [simp]: "guest_write (v\<lparr>permanent_xcr0 := x\<rparr>) m m' = guest_write v m m'"
  by (simp add: guest_write_def)

lemma guest_mapped_xcr0 [simp]: "guest_mapped m (v\<lparr>permanent_xcr0 := x\<rparr>) ps = guest_mapped m v ps"
  by (simp add: guest_mapped_def)

definition vm_running :: "u64 list \<Rightarrow> u64 \<Rightarrow> vm_t \<Rightarrow> u64 list \<Rightarrow> hv_state \<Rightarrow> bool" where
  "vm_running as vp v ps s \<longleftrightarrow> hv_ok s as \<and> machine_io_ok s vp \<and> guest_mapped (phys s) v ps \<and>
     (\<exists>x. get_vm s vp = Inr (v\<lparr>permanent_xcr0 := x\<rparr>))"

definition exit_ok :: "u64 list \<Rightarrow> u64 \<Rightarrow> vm_t \<Rightarrow> u64 list \<Rightarrow> hv_state \<Rightarrow> hv_state \<Rightarrow> bool" where
  "exit_ok as vp v ps s s' \<longleftrightarrow> vm_running as vp v ps s' \<and> guest_write v (phys s) (phys s') \<and> vm_others vp s s' \<and>
     owned s' as = owned s as \<and> vm_manager_current_vm s' = vm_manager_current_vm s \<and>
     cpu_current_vmcs (cpu s') = cpu_current_vmcs (cpu s) \<and> cpu_vmx_error (cpu s') = cpu_vmx_error (cpu s) \<and>
     (\<forall>r. r \<noteq> cpu_current_vmcs (cpu s) \<longrightarrow> cpu_vmcs (cpu s') r = cpu_vmcs (cpu s) r)"

lemma exit_ok_refl: "vm_running as vp v ps s \<Longrightarrow> exit_ok as vp v ps s s"
  by (simp add: exit_ok_def)

lemma exit_ok_trans: "exit_ok as vp v ps s s' \<Longrightarrow> exit_ok as vp v ps s' s'' \<Longrightarrow> exit_ok as vp v ps s s''"
  unfolding exit_ok_def using guest_write_trans vm_others_trans by metis

lemma exit_ok_running: "exit_ok as vp v ps s s' \<Longrightarrow> vm_running as vp v ps s'"
  by (simp add: exit_ok_def)

lemma vm_running_vm:
  assumes "vm_running as vp v ps s"
  obtains x where "get_vm s vp = Inr (v\<lparr>permanent_xcr0 := x\<rparr>)" "hv_ok s as" "machine_io_ok s vp"
    "guest_mapped (phys s) (v\<lparr>permanent_xcr0 := x\<rparr>) ps"
  using assms by (auto simp: vm_running_def)

text \<open>An access to the ports.\<close>

lemma exit_ok_io:
  assumes "vm_running as vp v ps s" "io_frame s s'" "machine_io_ok s' vp"
  shows "exit_ok as vp v ps s s'"
proof -
  obtain uh t where s': "s' = s\<lparr>uart_heap := uh, console := t\<rparr>" using assms(2) by (auto simp: io_frame_def)
  have "hv_ok s' as = hv_ok s as" "get_vm s' = get_vm s" "vm_others vp s s'" "owned s' as = owned s as"
    by (rule hv_ok_frame; simp add: s')+
  moreover have "phys s' = phys s" "cpu s' = cpu s" "vm_manager_current_vm s' = vm_manager_current_vm s"
    by (simp_all add: s')
  ultimately show ?thesis using assms(1,3) by (simp add: exit_ok_def vm_running_def)
qed

text \<open>A change of the processor that stays with the current VMCS.\<close>

lemma machine_io_ok_cpu [simp]:
  "machine_io_ok (s\<lparr>cpu := c\<rparr>) vp = machine_io_ok s vp"
  "machine_io_ok (s\<lparr>vmx_msr_host_backup := b\<rparr>) vp = machine_io_ok s vp"
  by (simp_all add: machine_io_ok_def)

definition cpu_frame :: "cpu_t \<Rightarrow> cpu_t \<Rightarrow> bool" where
  "cpu_frame c c' \<longleftrightarrow> cpu_current_vmcs c' = cpu_current_vmcs c \<and> cpu_vmx_error c' = cpu_vmx_error c \<and>
     (\<forall>r. r \<noteq> cpu_current_vmcs c \<longrightarrow> cpu_vmcs c' r = cpu_vmcs c r)"

lemma exit_ok_cpu:
  assumes "vm_running as vp v ps s" "cpu_frame (cpu s) c"
  shows "exit_ok as vp v ps s (s\<lparr>cpu := c\<rparr>)"
  using assms by (simp add: exit_ok_def vm_running_def owned_def cpu_frame_def)

lemma exit_ok_backup:
  assumes "vm_running as vp v ps s"
  shows "exit_ok as vp v ps s (s\<lparr>vmx_msr_host_backup := b\<rparr>)"
  using assms by (simp add: exit_ok_def vm_running_def owned_def)

lemma exit_ok_vmwrite:
  assumes "vm_running as vp v ps s" "vmx_vmwrite f x s = Inr s'"
  shows "exit_ok as vp v ps s s'"
proof -
  from assms(2) obtain c where "s' = s\<lparr>cpu := c\<rparr>" "cpu_frame (cpu s) c"
    by (auto simp: vmx_vmwrite_def Let_def bnd_Inr_iff cpu_frame_def)
  with exit_ok_cpu [OF assms(1)] show ?thesis by blast
qed

text \<open>A change of guest memory.\<close>

lemma exit_ok_memory:
  assumes "vm_running as vp v ps s" "guest_write v (phys s) m"
  shows "exit_ok as vp v ps s (s\<lparr>phys := m\<rparr>)"
proof -
  obtain x where x: "get_vm s vp = Inr (v\<lparr>permanent_xcr0 := x\<rparr>)" "hv_ok s as" "machine_io_ok s vp"
    "guest_mapped (phys s) (v\<lparr>permanent_xcr0 := x\<rparr>) ps" by (rule vm_running_vm [OF assms(1)])
  have w: "guest_write (v\<lparr>permanent_xcr0 := x\<rparr>) (phys s) m" using assms(2) by simp
  have "vm_walk m v y = vm_walk (phys s) v y" for y
    using guest_write_ok(2) [OF x(2,1) w x(1), of y] by simp
  then have gm: "guest_mapped m v ps" using x(4) by (simp add: guest_mapped_def)
  have g: "get_vm (s\<lparr>phys := m\<rparr>) = get_vm s" by (rule get_vm_cong) simp
  have io: "machine_io_ok (s\<lparr>phys := m\<rparr>) vp" using x(3) by (simp add: machine_io_ok_def g)
  have o: "owned (s\<lparr>phys := m\<rparr>) as = owned s as" by (simp add: owned_def)
  have r: "vm_running as vp v ps (s\<lparr>phys := m\<rparr>)"
    unfolding vm_running_def g using guest_write_ok(1) [OF x(2,1) w] gm io x(1) by auto
  show ?thesis
    unfolding exit_ok_def using r o guest_write_ok(3) [OF x(2,1) w] assms(2) by simp
qed

text \<open>A new XCR0.\<close>

lemma exit_ok_xcr0:
  assumes "vm_running as vp v ps s" "get_vm s vp = Inr w"
  shows "exit_ok as vp v ps s (put_vm vp (w\<lparr>permanent_xcr0 := x\<rparr>) s)"
proof -
  obtain y where y: "get_vm s vp = Inr (v\<lparr>permanent_xcr0 := y\<rparr>)" "hv_ok s as" "machine_io_ok s vp"
    "guest_mapped (phys s) (v\<lparr>permanent_xcr0 := y\<rparr>) ps" by (rule vm_running_vm [OF assms(1)])
  let ?s = "put_vm vp (w\<lparr>permanent_xcr0 := x\<rparr>) s"
  have w: "w = v\<lparr>permanent_xcr0 := y\<rparr>" using y(1) assms(2) by simp
  have ok: "hv_ok ?s as" "owned ?s as = owned s as"
    by (rule hv_ok_put_same [OF y(2) assms(2)]; simp add: w)+
  have g: "get_vm ?s q = (if q = vp then Inr (w\<lparr>permanent_xcr0 := x\<rparr>) else get_vm s q)" for q
    by (rule get_put_vm [OF assms(2)])
  have io: "machine_io_ok ?s vp"
    using y(3) assms(2) unfolding machine_io_ok_def g by (auto simp: put_vm_def)
  have "vm_others vp s ?s" by (simp add: vm_others_def g)
  moreover have "get_vm ?s vp = Inr (v\<lparr>permanent_xcr0 := x\<rparr>)" using g [of vp] by (simp add: w)
  moreover have "vm_manager_current_vm ?s = vm_manager_current_vm s" "cpu ?s = cpu s" by (simp_all add: put_vm_def)
  ultimately show ?thesis using ok io y(4) by (auto simp: exit_ok_def vm_running_def)
qed

end
