(* ===== verification/Emulated_Instructions.thy ===== *)
theory Emulated_Instructions
  imports Vm_Running
begin

text \<open>
  hv/src/vmm/vm\_emulated\_instructions.c: the instructions a guest executes with an exit.  An emulated
  instruction is a function from the state of the exit and the state of the hypervisor to both, or to
  the way the machine stops; a message printed just before a panic is part of the panic.
\<close>

section \<open>\<open>CPUID\<close> and the control registers\<close>

type_synonym emulated = "vmx_vmexit_state_t \<Rightarrow> hv_state \<Rightarrow> (vmx_vmexit_state_t \<times> hv_state) res"

text \<open>The instruction writes the four 32-bit registers and clears the upper halves.\<close>

definition vm_emulated_instruction_cpuid :: emulated where
  "vm_emulated_instruction_cpuid vs s =
     (let r = reg_state vs in
      if rax r \<ge> 0x40000000 \<and> rax r \<le> 0x4FFFFFFF then Inr (vs, s)
      else case cpu_cpuid (cpu s) (cpu_xcr0 (cpu s)) (ucast (rax r)) (ucast (rcx r)) of (a, b, c, d) \<Rightarrow>
        Inr (vs\<lparr>reg_state := r\<lparr>rax := ucast a, rbx := ucast b, rcx := ucast c, rdx := ucast d\<rparr>\<rparr>, s))"

lemma ucast_32_64_32 [simp]: "ucast (ucast x :: u64) = (x :: u32)"
  by (rule bit_word_eqI) (auto simp: bit_simps)

definition VMCS_CF_CR4_READ_SHADOW :: u64 where [hv_const]: "VMCS_CF_CR4_READ_SHADOW = 0x6006"

definition vm_emulated_instruction_mov_to_cr :: "u8 \<Rightarrow> u64 \<Rightarrow> emulated" where
  "vm_emulated_instruction_mov_to_cr crn new_cr vs s =
     (if crn = 3 then Inr (vs\<lparr>cr3 := new_cr\<rparr>, s)
      else if crn = 4 then
        bnd (vmx_vmwrite VMCS_CF_CR4_READ_SHADOW (new_cr AND CR4_VMXE) s) (\<lambda>s.
          Inr (vs\<lparr>cr4 := new_cr OR CR4_VMXE\<rparr>, s))
      else Inl (Panic ''unsupported CR in emulated MOV to CR''))"

definition vm_emulated_instruction_mov_from_cr :: "u8 \<Rightarrow> vmx_vmexit_state_t \<Rightarrow> u64 res" where
  "vm_emulated_instruction_mov_from_cr crn vs =
     (if crn = 3 then Inr (cr3 vs) else Inl (Panic ''unsupported CR in emulated MOV from CR''))"

section \<open>I/O instructions\<close>

text \<open>The macros for one access, from and to the register \<open>rax\<close>; \<open>keep\<close> selects the bits that \<open>in\<close> keeps.\<close>

definition VM_EMULATED_INSTRUCTION_OUT_SINGLE ::
    "(u64 \<Rightarrow> u16 \<Rightarrow> 'v :: len word \<Rightarrow> hv_state \<Rightarrow> hv_state res) \<Rightarrow> u16 \<Rightarrow> emulated" where
  "VM_EMULATED_INSTRUCTION_OUT_SINGLE vm_out port vs s =
     bnd (vm_out (st_vm vs) port (ucast (rax (reg_state vs))) s) (\<lambda>s. Inr (vs, s))"

definition VM_EMULATED_INSTRUCTION_IN_SINGLE ::
    "(u64 \<Rightarrow> u16 \<Rightarrow> hv_state \<Rightarrow> ('v :: len word \<times> hv_state) res) \<Rightarrow> u64 \<Rightarrow> u16 \<Rightarrow> emulated" where
  "VM_EMULATED_INSTRUCTION_IN_SINGLE vm_in keep port vs s =
     bnd (vm_in (st_vm vs) port s) (\<lambda>(x, s). let r = reg_state vs in
       Inr (vs\<lparr>reg_state := r\<lparr>rax := (rax r AND keep) OR ucast x\<rparr>\<rparr>, s))"

definition vm_emulated_instruction_outb :: "u16 \<Rightarrow> emulated" where
  "vm_emulated_instruction_outb = VM_EMULATED_INSTRUCTION_OUT_SINGLE vm_outb"
definition vm_emulated_instruction_outw :: "u16 \<Rightarrow> emulated" where
  "vm_emulated_instruction_outw = VM_EMULATED_INSTRUCTION_OUT_SINGLE vm_outw"
definition vm_emulated_instruction_outd :: "u16 \<Rightarrow> emulated" where
  "vm_emulated_instruction_outd = VM_EMULATED_INSTRUCTION_OUT_SINGLE vm_outd"

text \<open>\<open>~0xff\<close> and \<open>~0xffff\<close> are ints that are sign-extended, \<open>~0xffffffff\<close> is the unsigned 0.\<close>

definition vm_emulated_instruction_inb :: "u16 \<Rightarrow> emulated" where
  "vm_emulated_instruction_inb = VM_EMULATED_INSTRUCTION_IN_SINGLE vm_inb (NOT 0xff)"
definition vm_emulated_instruction_inw :: "u16 \<Rightarrow> emulated" where
  "vm_emulated_instruction_inw = VM_EMULATED_INSTRUCTION_IN_SINGLE vm_inw (NOT 0xffff)"
definition vm_emulated_instruction_ind :: "u16 \<Rightarrow> emulated" where
  "vm_emulated_instruction_ind = VM_EMULATED_INSTRUCTION_IN_SINGLE vm_ind 0"

definition RFLAGS_DF :: u64 where [hv_const]: "RFLAGS_DF = 0x400"

definition str_step :: "vmx_vmexit_state_t \<Rightarrow> u64 \<Rightarrow> u64" where
  "str_step vs sz = (if rflags vs AND RFLAGS_DF \<noteq> 0 then - sz else sz)"

text \<open>The macros for a string access of \<open>sz\<close> bytes.\<close>

definition VM_EMULATED_INSTRUCTION_OUT_STR ::
    "(u64 \<Rightarrow> u16 \<Rightarrow> 'v :: len word \<Rightarrow> hv_state \<Rightarrow> hv_state res) \<Rightarrow> nat \<Rightarrow> u16 \<Rightarrow> emulated" where
  "VM_EMULATED_INSTRUCTION_OUT_STR vm_out sz port vs s =
     bnd (vm_guest_paging_get_host_virtual_address_during_vmexit vs (rsi (reg_state vs)) (of_nat sz) s) (\<lambda>hostva.
     bnd (vm_out (st_vm vs) port (ucast (read_le sz (phys s) (V2P_IDENTITY_MAP hostva))) s) (\<lambda>s.
       let r = reg_state vs in
       Inr (vs\<lparr>reg_state := r\<lparr>rsi := rsi r + str_step vs (of_nat sz)\<rparr>\<rparr>, s)))"

definition VM_EMULATED_INSTRUCTION_IN_STR ::
    "(u64 \<Rightarrow> u16 \<Rightarrow> hv_state \<Rightarrow> ('v :: len word \<times> hv_state) res) \<Rightarrow> nat \<Rightarrow> u16 \<Rightarrow> emulated" where
  "VM_EMULATED_INSTRUCTION_IN_STR vm_in sz port vs s =
     bnd (vm_guest_paging_get_host_virtual_address_during_vmexit vs (rdi (reg_state vs)) (of_nat sz) s) (\<lambda>hostva.
     bnd (vm_in (st_vm vs) port s) (\<lambda>(x, s).
       let r = reg_state vs in
       Inr (vs\<lparr>reg_state := r\<lparr>rdi := rdi r + str_step vs (of_nat sz)\<rparr>\<rparr>,
            s\<lparr>phys := write_le sz (phys s) (V2P_IDENTITY_MAP hostva) (ucast x)\<rparr>)))"

definition vm_emulated_instruction_outsb :: "u16 \<Rightarrow> emulated" where
  "vm_emulated_instruction_outsb = VM_EMULATED_INSTRUCTION_OUT_STR vm_outb 1"
definition vm_emulated_instruction_outsw :: "u16 \<Rightarrow> emulated" where
  "vm_emulated_instruction_outsw = VM_EMULATED_INSTRUCTION_OUT_STR vm_outw 2"
definition vm_emulated_instruction_outsd :: "u16 \<Rightarrow> emulated" where
  "vm_emulated_instruction_outsd = VM_EMULATED_INSTRUCTION_OUT_STR vm_outd 4"
definition vm_emulated_instruction_insb :: "u16 \<Rightarrow> emulated" where
  "vm_emulated_instruction_insb = VM_EMULATED_INSTRUCTION_IN_STR vm_inb 1"
definition vm_emulated_instruction_insw :: "u16 \<Rightarrow> emulated" where
  "vm_emulated_instruction_insw = VM_EMULATED_INSTRUCTION_IN_STR vm_inw 2"
definition vm_emulated_instruction_insd :: "u16 \<Rightarrow> emulated" where
  "vm_emulated_instruction_insd = VM_EMULATED_INSTRUCTION_IN_STR vm_ind 4"

text \<open>\<open>while (rcx != 0)\<close>.\<close>

definition set_rcx :: "u64 \<Rightarrow> vmx_vmexit_state_t \<Rightarrow> vmx_vmexit_state_t" where
  "set_rcx v vs = vs\<lparr>reg_state := (reg_state vs)\<lparr>rcx := v\<rparr>\<rparr>"

partial_function (option) VM_EMULATED_INSTRUCTION_IO_STRREP ::
    "emulated \<Rightarrow> vmx_vmexit_state_t \<Rightarrow> hv_state \<Rightarrow> (vmx_vmexit_state_t \<times> hv_state) res option" where
  "VM_EMULATED_INSTRUCTION_IO_STRREP instruction vs s =
     (if rcx (reg_state vs) = 0 then Some (Inr (vs, s))
      else case instruction vs s of Inl e \<Rightarrow> Some (Inl e)
      | Inr r \<Rightarrow> VM_EMULATED_INSTRUCTION_IO_STRREP instruction
          (set_rcx (rcx (reg_state (fst r)) - 1) (fst r)) (snd r))"

definition io_strrep :: "emulated \<Rightarrow> emulated" where
  "io_strrep instruction vs s = loop_result (VM_EMULATED_INSTRUCTION_IO_STRREP instruction vs s)"

definition vm_emulated_instruction_rep_outsb :: "u16 \<Rightarrow> emulated" where
  "vm_emulated_instruction_rep_outsb port = io_strrep (vm_emulated_instruction_outsb port)"
definition vm_emulated_instruction_rep_outsw :: "u16 \<Rightarrow> emulated" where
  "vm_emulated_instruction_rep_outsw port = io_strrep (vm_emulated_instruction_outsw port)"
definition vm_emulated_instruction_rep_outsd :: "u16 \<Rightarrow> emulated" where
  "vm_emulated_instruction_rep_outsd port = io_strrep (vm_emulated_instruction_outsd port)"
definition vm_emulated_instruction_rep_insb :: "u16 \<Rightarrow> emulated" where
  "vm_emulated_instruction_rep_insb port = io_strrep (vm_emulated_instruction_insb port)"
definition vm_emulated_instruction_rep_insw :: "u16 \<Rightarrow> emulated" where
  "vm_emulated_instruction_rep_insw port = io_strrep (vm_emulated_instruction_insw port)"
definition vm_emulated_instruction_rep_insd :: "u16 \<Rightarrow> emulated" where
  "vm_emulated_instruction_rep_insd port = io_strrep (vm_emulated_instruction_insd port)"

section \<open>\<open>XSETBV\<close>\<close>

definition vm_emulated_instruction_xsetbv :: emulated where
  "vm_emulated_instruction_xsetbv vs s =
     (let r = reg_state vs in
      if rcx r \<noteq> 0 then Inl (Panic ''unsupported XCR specified by RCX on emulated XSETBV'')
      else
        let new_xcr0 = push_bit 32 (rdx r) OR (rax r AND 0xffffffff) in
        if new_xcr0 AND 1 \<noteq> 1 then Inl (Panic (''new guest XCR0 doesn'' @ CHR 0x27 # ''t have bit 0 set''))
        else if new_xcr0 AND NOT (xsave_host_xcr0 s) \<noteq> 0 \<or> new_xcr0 AND 0x6 = 0x4
        then Inl (Panic ''new guest XCR0 set unsupported bits'')
        else bnd (get_vm s (st_vm vs)) (\<lambda>v.
          Inr (vs, put_vm (st_vm vs) (v\<lparr>permanent_xcr0 := new_xcr0\<rparr>) s)))"

section \<open>Memory accesses of the string instructions\<close>

lemma write_le_page_eq:
  assumes "n \<le> 8" "\<And>k. k < n \<Longrightarrow> (a + of_nat k) AND PAGE_MASK \<noteq> q" "page_aligned q"
  shows "page_eq m (write_le n m a x) q"
  unfolding page_eq_def
proof (intro allI impI)
  fix off :: u64 assume off: "unat off < 4096"
  have "\<not> unat (q + off - a) < n"
  proof
    assume l: "unat (q + off - a) < n"
    have "a + of_nat (unat (q + off - a)) = q + off" by simp
    moreover have "(q + off) AND PAGE_MASK = q"
      using page_base_plus(1) [OF assms(3) off] by (simp add: hv_const)
    ultimately show False using assms(2) [OF l] by simp
  qed
  then show "m (q + off) = write_le n m a x (q + off)" using write_le_other [OF assms(1)] by metis
qed

lemma exit_ok_write:
  assumes "vm_running as vp v ps s" "st_vm vs = vp" "0 < n" "n \<le> 8"
    and "vm_guest_paging_get_host_virtual_address_during_vmexit vs gva (of_nat n) s = Inr p"
    and "phys s' = phys s" "vm_running as vp v ps s'"
  shows "exit_ok as vp v ps s' (s'\<lparr>phys := write_le n (phys s') (V2P_IDENTITY_MAP p) x\<rparr>)"
proof (rule exit_ok_memory [OF assms(7)])
  obtain y where y: "get_vm s vp = Inr (v\<lparr>permanent_xcr0 := y\<rparr>)" "hv_ok s as"
    "guest_mapped (phys s) (v\<lparr>permanent_xcr0 := y\<rparr>) ps" by (rule vm_running_vm [OF assms(1)])
  have n: "unat (of_nat n :: u64) = n" using assms(4) by (simp add: unat_of_nat_64)
  have in_page: "(V2P_IDENTITY_MAP p + of_nat k) AND PAGE_MASK \<in># guest_pages v" if "k < n" for k
    using host_virtual_address_in_guest [OF assms(5) y(2) _ y(3), of k] y(1) assms(2-4) that n by simp
  show "guest_write v (phys s') (write_le n (phys s') (V2P_IDENTITY_MAP p) x)"
    unfolding guest_write_def
  proof (intro allI impI)
    fix q assume "page_aligned q \<and> q \<notin># guest_pages v"
    with in_page show "page_eq (phys s') (write_le n (phys s') (V2P_IDENTITY_MAP p) x) q"
      by (intro write_le_page_eq [OF assms(4)]) auto
  qed
qed

section \<open>Contracts\<close>

text \<open>
  The contract of the port accesses that the I/O instructions call, and of the instructions that
  \<open>rep\<close> repeats: they stay within \<open>exit_ok\<close> and do not touch \<open>rcx\<close>.  A repeated instruction that
  keeps the contract ends after as many steps as \<open>rcx\<close> says.
\<close>

locale port_out =
  fixes vm_out :: "u64 \<Rightarrow> u16 \<Rightarrow> 'v :: len word \<Rightarrow> hv_state \<Rightarrow> hv_state res"
  assumes out_ok: "machine_io_ok s vp \<Longrightarrow>
    \<exists>s'. vm_out vp port c s = Inr s' \<and> machine_io_ok s' vp \<and> io_frame s s'"

locale port_in =
  fixes vm_in :: "u64 \<Rightarrow> u16 \<Rightarrow> hv_state \<Rightarrow> ('v :: len word \<times> hv_state) res"
  assumes in_ok: "machine_io_ok s vp \<Longrightarrow>
    \<exists>x s'. vm_in vp port s = Inr (x, s') \<and> machine_io_ok s' vp \<and> io_frame s s'"

locale contained =
  fixes instruction :: emulated
  assumes contained: "instruction vs s = Inr (vs', s') \<Longrightarrow> vm_running as (st_vm vs) v ps s \<Longrightarrow>
    exit_ok as (st_vm vs) v ps s s' \<and> st_vm vs' = st_vm vs \<and> cr4 vs' = cr4 vs \<and> cr0 vs' = cr0 vs \<and> rflags vs' = rflags vs"
    and panics: "instruction vs s = Inl e \<Longrightarrow> vm_running as (st_vm vs) v ps s \<Longrightarrow> \<exists>m. e = Panic m"

locale repeatable = contained instruction for instruction +
  assumes rcx_kept: "instruction vs s = Inr (vs', s') \<Longrightarrow> rcx (reg_state vs') = rcx (reg_state vs)"
begin

lemma strrep_returns: "\<exists>r. VM_EMULATED_INSTRUCTION_IO_STRREP instruction vs s = Some r"
proof (induction "unat (rcx (reg_state vs))" arbitrary: vs s)
  case 0
  then have "rcx (reg_state vs) = 0" by (simp add: unsigned_eq_0_iff)
  then show ?case by (subst VM_EMULATED_INSTRUCTION_IO_STRREP.simps) simp
next
  case (Suc n)
  then have nz: "rcx (reg_state vs) \<noteq> 0" by auto
  show ?case
  proof (cases "instruction vs s")
    case (Inl e)
    with nz show ?thesis by (subst VM_EMULATED_INSTRUCTION_IO_STRREP.simps) simp
  next
    case (Inr r)
    obtain vs' s' where r: "r = (vs', s')" by (cases r)
    with rcx_kept Inr have "rcx (reg_state vs') = rcx (reg_state vs)" by blast
    moreover have "unat (rcx (reg_state vs) - 1) = n" using Suc(2) nz by (simp add: unat_minus_one)
    ultimately have "n = unat (rcx (reg_state (set_rcx (rcx (reg_state vs') - 1) vs')))" by (simp add: set_rcx_def)
    from Suc(1) [OF this] nz Inr r show ?thesis by (subst VM_EMULATED_INSTRUCTION_IO_STRREP.simps) simp
  qed
qed

lemma strrep_contained:
  assumes "io_strrep instruction vs s = Inr (vs', s')" "vm_running as (st_vm vs) v ps s"
  shows "exit_ok as (st_vm vs) v ps s s' \<and> st_vm vs' = st_vm vs \<and> cr4 vs' = cr4 vs \<and> cr0 vs' = cr0 vs \<and>
    rflags vs' = rflags vs \<and> rcx (reg_state vs') = 0"
proof -
  from assms(1) have "VM_EMULATED_INSTRUCTION_IO_STRREP instruction vs s = Some (Inr (vs', s'))"
    using strrep_returns [of vs s] by (auto simp: io_strrep_def)
  then show ?thesis using assms(2)
  proof (induction "unat (rcx (reg_state vs))" arbitrary: vs s)
    case 0
    then have "rcx (reg_state vs) = 0" by (simp add: unsigned_eq_0_iff)
    with 0 show ?case by (subst (asm) VM_EMULATED_INSTRUCTION_IO_STRREP.simps) (simp add: exit_ok_refl)
  next
    case (Suc n)
    then have nz: "rcx (reg_state vs) \<noteq> 0" by auto
    from Suc(3) nz obtain vs1 s1 where i: "instruction vs s = Inr (vs1, s1)"
      by (subst (asm) VM_EMULATED_INSTRUCTION_IO_STRREP.simps) (auto split: sum.splits)
    with Suc(3) nz have r: "VM_EMULATED_INSTRUCTION_IO_STRREP instruction
        (set_rcx (rcx (reg_state vs1) - 1) vs1) s1 = Some (Inr (vs', s'))"
      by (subst (asm) VM_EMULATED_INSTRUCTION_IO_STRREP.simps) simp
    note c = contained [OF i Suc(4)]
    have "rcx (reg_state vs1) = rcx (reg_state vs)" using rcx_kept [OF i] .
    moreover have "unat (rcx (reg_state vs) - 1) = n" using Suc(2) nz by (simp add: unat_minus_one)
    ultimately have n: "n = unat (rcx (reg_state (set_rcx (rcx (reg_state vs1) - 1) vs1)))" by (simp add: set_rcx_def)
    have st: "st_vm (set_rcx x vs1) = st_vm vs1" "cr0 (set_rcx x vs1) = cr0 vs1" "cr4 (set_rcx x vs1) = cr4 vs1"
      "rflags (set_rcx x vs1) = rflags vs1" for x
      by (simp_all add: set_rcx_def)
    have "vm_running as (st_vm (set_rcx (rcx (reg_state vs1) - 1) vs1)) v ps s1"
      using c exit_ok_running st by metis
    from Suc(1) [OF n r this] c show ?case unfolding st using exit_ok_trans by metis
  qed
qed

lemma strrep_panics:
  assumes "io_strrep instruction vs s = Inl e" "vm_running as (st_vm vs) v ps s"
  shows "\<exists>m. e = Panic m"
proof -
  from assms(1) have "VM_EMULATED_INSTRUCTION_IO_STRREP instruction vs s = Some (Inl e)"
    using strrep_returns [of vs s] by (auto simp: io_strrep_def)
  then show ?thesis using assms(2)
  proof (induction "unat (rcx (reg_state vs))" arbitrary: vs s)
    case 0
    then have "rcx (reg_state vs) = 0" by (simp add: unsigned_eq_0_iff)
    with 0 show ?case by (subst (asm) VM_EMULATED_INSTRUCTION_IO_STRREP.simps) simp
  next
    case (Suc n)
    then have nz: "rcx (reg_state vs) \<noteq> 0" by auto
    show ?case
    proof (cases "instruction vs s")
      case (Inl e')
      with Suc(3) nz have "e' = e" by (subst (asm) VM_EMULATED_INSTRUCTION_IO_STRREP.simps) simp
      with panics [OF Inl Suc(4)] show ?thesis by simp
    next
      case (Inr r1)
      obtain vs1 s1 where r1: "r1 = (vs1, s1)" by (cases r1)
      note i = Inr [unfolded r1]
      from Suc(3) nz i have r: "VM_EMULATED_INSTRUCTION_IO_STRREP instruction
          (set_rcx (rcx (reg_state vs1) - 1) vs1) s1 = Some (Inl e)"
        by (subst (asm) VM_EMULATED_INSTRUCTION_IO_STRREP.simps) simp
      have "unat (rcx (reg_state vs) - 1) = n" using Suc(2) nz by (simp add: unat_minus_one)
      then have n: "n = unat (rcx (reg_state (set_rcx (rcx (reg_state vs1) - 1) vs1)))"
        using rcx_kept [OF i] by (simp add: set_rcx_def)
      have "vm_running as (st_vm (set_rcx (rcx (reg_state vs1) - 1) vs1)) v ps s1"
        using contained [OF i Suc(4)] by (simp add: set_rcx_def exit_ok_def)
      from Suc(1) [OF n r this] show ?thesis .
    qed
  qed
qed

text \<open>Both together, over the value of the loop.\<close>

lemma strrep_ends:
  assumes "vm_running as (st_vm vs) v ps s"
  shows "\<exists>r. VM_EMULATED_INSTRUCTION_IO_STRREP instruction vs s = Some r \<and> (case r of Inl e \<Rightarrow> \<exists>m. e = Panic m
    | Inr (vs', s') \<Rightarrow> rcx (reg_state vs') = 0 \<and> exit_ok as (st_vm vs) v ps s s')"
proof -
  obtain r where r: "VM_EMULATED_INSTRUCTION_IO_STRREP instruction vs s = Some r" using strrep_returns by blast
  then have io: "io_strrep instruction vs s = r" by (simp add: io_strrep_def)
  show ?thesis
  proof (cases r)
    case (Inl e)
    with strrep_panics [OF _ assms] io r show ?thesis by simp
  next
    case (Inr q)
    obtain vs' s' where q: "q = (vs', s')" by (cases q)
    with strrep_contained [OF _ assms, of vs' s'] io r Inr show ?thesis by simp
  qed
qed

end

text \<open>The pointer to guest data is found, or the machine panics.\<close>

lemma host_virtual_address_panics:
  assumes "vm_guest_paging_get_host_virtual_address_during_vmexit vs gva sz s = Inl e" "vm_running as (st_vm vs) v ps s"
  shows "\<exists>m. e = Panic m"
proof -
  obtain x where "get_vm s (st_vm vs) = Inr (v\<lparr>permanent_xcr0 := x\<rparr>)" by (rule vm_running_vm [OF assms(2)])
  with assms(1) show ?thesis
    by (auto simp: vm_guest_paging_get_host_virtual_address_during_vmexit_def Let_def bnd_Inl_iff
      vm_guest_paging_get_guest_physical_address_def vmx_ept_get_host_physical_address_def
      split: if_splits option.splits)
qed

interpretation outb: port_out vm_outb
  by unfold_locales (metis vm_outb_ok)
interpretation outw: port_out vm_outw
  by unfold_locales (metis vm_outw_ok)
interpretation outd: port_out vm_outd
  by unfold_locales (metis vm_outd_ok)
interpretation inb: port_in vm_inb
  by unfold_locales (metis vm_inb_ok)
interpretation inw: port_in vm_inw
  by unfold_locales (metis vm_inw_ok)
interpretation ind: port_in vm_ind
  by unfold_locales (metis vm_ind_ok)

context port_out
begin

lemma out_running:
  assumes "vm_out vp port c s = Inr s'" "vm_running as vp v ps s"
  shows "exit_ok as vp v ps s s'"
proof -
  have "machine_io_ok s vp" using assms(2) by (simp add: vm_running_def)
  from out_ok [OF this, of port c] assms(1) have "machine_io_ok s' vp" "io_frame s s'" by auto
  then show ?thesis using exit_ok_io [OF assms(2)] by blast
qed

lemma single_returns:
  "vm_running as (st_vm vs) v ps s \<Longrightarrow> \<exists>s'. VM_EMULATED_INSTRUCTION_OUT_SINGLE vm_out port vs s = Inr (vs, s')"
  using out_ok [of s "st_vm vs" port "ucast (rax (reg_state vs))"] by (auto simp: vm_running_def VM_EMULATED_INSTRUCTION_OUT_SINGLE_def)

lemma out_never_stops: "vm_running as vp v ps s \<Longrightarrow> vm_out vp port c s \<noteq> Inl e"
  using out_ok [of s vp port c] by (auto simp: vm_running_def)

lemma single_contained: "contained (VM_EMULATED_INSTRUCTION_OUT_SINGLE vm_out port)"
  by unfold_locales
    (auto simp: VM_EMULATED_INSTRUCTION_OUT_SINGLE_def bnd_Inl_iff dest: out_running out_never_stops)

lemma str_repeatable: "repeatable (VM_EMULATED_INSTRUCTION_OUT_STR vm_out n port)"
  by unfold_locales (auto simp: VM_EMULATED_INSTRUCTION_OUT_STR_def Let_def bnd_Inl_iff
    dest: out_running out_never_stops host_virtual_address_panics)

end

context port_in
begin

lemma in_running:
  assumes "vm_in vp port s = Inr (x, s')" "vm_running as vp v ps s"
  shows "exit_ok as vp v ps s s'" "phys s' = phys s"
proof -
  have "machine_io_ok s vp" using assms(2) by (simp add: vm_running_def)
  from in_ok [OF this, of port] assms(1) have "machine_io_ok s' vp" "io_frame s s'" by auto
  then show "exit_ok as vp v ps s s'" "phys s' = phys s"
    using exit_ok_io [OF assms(2)] by (auto simp: io_frame_def)
qed

lemma single_returns:
  "vm_running as (st_vm vs) v ps s \<Longrightarrow> \<exists>r. VM_EMULATED_INSTRUCTION_IN_SINGLE vm_in keep port vs s = Inr r"
  using in_ok [of s "st_vm vs" port] by (auto simp: vm_running_def VM_EMULATED_INSTRUCTION_IN_SINGLE_def Let_def)

lemma in_never_stops: "vm_running as vp v ps s \<Longrightarrow> vm_in vp port s \<noteq> Inl e"
  using in_ok [of s vp port] by (auto simp: vm_running_def)

lemma single_contained: "contained (VM_EMULATED_INSTRUCTION_IN_SINGLE vm_in keep port)"
  by unfold_locales
    (auto simp: VM_EMULATED_INSTRUCTION_IN_SINGLE_def Let_def bnd_Inl_iff dest: in_running in_never_stops)

lemma str_contained:
  assumes "VM_EMULATED_INSTRUCTION_IN_STR vm_in n port vs s = Inr (vs', s')" "0 < n" "n \<le> 8"
    and "vm_running as (st_vm vs) v ps s"
  shows "exit_ok as (st_vm vs) v ps s s'"
proof -
  obtain p x s1 where p: "vm_guest_paging_get_host_virtual_address_during_vmexit vs (rdi (reg_state vs)) (of_nat n) s = Inr p"
    "vm_in (st_vm vs) port s = Inr (x, s1)" "s' = s1\<lparr>phys := write_le n (phys s1) (V2P_IDENTITY_MAP p) (ucast x)\<rparr>"
    using assms(1) by (auto simp: VM_EMULATED_INSTRUCTION_IN_STR_def Let_def)
  note r = in_running [OF p(2) assms(4)]
  have "exit_ok as (st_vm vs) v ps s1 s'"
    unfolding p(3) by (rule exit_ok_write [OF assms(4) refl assms(2,3) p(1) r(2) exit_ok_running [OF r(1)]])
  with r(1) show ?thesis by (rule exit_ok_trans)
qed

lemma str_repeatable: "0 < n \<Longrightarrow> n \<le> 8 \<Longrightarrow> repeatable (VM_EMULATED_INSTRUCTION_IN_STR vm_in n port)"
proof (unfold_locales, goal_cases)
  case (1 vs s vs' s' as v ps)
  from str_contained [OF 1(3,1,2,4)] 1(3) show ?case
    by (auto simp: VM_EMULATED_INSTRUCTION_IN_STR_def Let_def)
qed (auto simp: VM_EMULATED_INSTRUCTION_IN_STR_def Let_def bnd_Inl_iff
    dest: in_never_stops host_virtual_address_panics)

end

interpretation emulated_outb: contained "vm_emulated_instruction_outb port" for port
  unfolding vm_emulated_instruction_outb_def by (rule outb.single_contained)
interpretation emulated_outw: contained "vm_emulated_instruction_outw port" for port
  unfolding vm_emulated_instruction_outw_def by (rule outw.single_contained)
interpretation emulated_outd: contained "vm_emulated_instruction_outd port" for port
  unfolding vm_emulated_instruction_outd_def by (rule outd.single_contained)
interpretation emulated_inb: contained "vm_emulated_instruction_inb port" for port
  unfolding vm_emulated_instruction_inb_def by (rule inb.single_contained)
interpretation emulated_inw: contained "vm_emulated_instruction_inw port" for port
  unfolding vm_emulated_instruction_inw_def by (rule inw.single_contained)
interpretation emulated_ind: contained "vm_emulated_instruction_ind port" for port
  unfolding vm_emulated_instruction_ind_def by (rule ind.single_contained)
interpretation emulated_outsb: repeatable "vm_emulated_instruction_outsb port" for port
  unfolding vm_emulated_instruction_outsb_def by (rule outb.str_repeatable)
interpretation emulated_outsw: repeatable "vm_emulated_instruction_outsw port" for port
  unfolding vm_emulated_instruction_outsw_def by (rule outw.str_repeatable)
interpretation emulated_outsd: repeatable "vm_emulated_instruction_outsd port" for port
  unfolding vm_emulated_instruction_outsd_def by (rule outd.str_repeatable)
interpretation emulated_insb: repeatable "vm_emulated_instruction_insb port" for port
  unfolding vm_emulated_instruction_insb_def by (rule inb.str_repeatable) simp_all
interpretation emulated_insw: repeatable "vm_emulated_instruction_insw port" for port
  unfolding vm_emulated_instruction_insw_def by (rule inw.str_repeatable) simp_all
interpretation emulated_insd: repeatable "vm_emulated_instruction_insd port" for port
  unfolding vm_emulated_instruction_insd_def by (rule ind.str_repeatable) simp_all

lemma rep_contained:
  "contained (vm_emulated_instruction_rep_outsb port)" "contained (vm_emulated_instruction_rep_outsw port)"
  "contained (vm_emulated_instruction_rep_outsd port)" "contained (vm_emulated_instruction_rep_insb port)"
  "contained (vm_emulated_instruction_rep_insw port)" "contained (vm_emulated_instruction_rep_insd port)"
  unfolding vm_emulated_instruction_rep_outsb_def vm_emulated_instruction_rep_outsw_def
    vm_emulated_instruction_rep_outsd_def vm_emulated_instruction_rep_insb_def
    vm_emulated_instruction_rep_insw_def vm_emulated_instruction_rep_insd_def
  by (unfold_locales; blast dest: emulated_outsb.strrep_panics emulated_outsw.strrep_panics
    emulated_outsd.strrep_panics emulated_insb.strrep_panics emulated_insw.strrep_panics
    emulated_insd.strrep_panics emulated_outsb.strrep_contained emulated_outsw.strrep_contained
    emulated_outsd.strrep_contained emulated_insb.strrep_contained emulated_insw.strrep_contained
    emulated_insd.strrep_contained)+

section \<open>\<open>CPUID\<close>, the control registers and \<open>XSETBV\<close>\<close>

interpretation cpuid: contained vm_emulated_instruction_cpuid
  by unfold_locales (auto simp: vm_emulated_instruction_cpuid_def Let_def exit_ok_refl split: if_splits prod.splits)

lemma xsetbv_get_vm: "vm_running as vp v ps s \<Longrightarrow> get_vm s vp \<noteq> Inl e"
  by (auto simp: vm_running_def)

interpretation xsetbv: contained vm_emulated_instruction_xsetbv
  by unfold_locales (auto simp: vm_emulated_instruction_xsetbv_def Let_def bnd_Inl_iff exit_ok_xcr0
    dest: xsetbv_get_vm split: if_splits)

lemma vmx_vmwrite_panics: "vmx_vmwrite f x s = Inl e \<Longrightarrow> \<exists>m. e = Panic m"
  by (auto simp: vmx_vmwrite_def VMX_ASSERT_def Let_def split: if_splits)

lemma vmx_vmread_panics: "vmx_vmread f s = Inl e \<Longrightarrow> \<exists>m. e = Panic m"
  by (auto simp: vmx_vmread_def VMX_ASSERT_def split: if_splits)

lemma mov_cr_panics:
  "vm_emulated_instruction_mov_to_cr n x vs s = Inl e \<Longrightarrow> \<exists>m. e = Panic m"
  "vm_emulated_instruction_mov_from_cr n vs = Inl e \<Longrightarrow> \<exists>m. e = Panic m"
  by (auto simp: vm_emulated_instruction_mov_to_cr_def vm_emulated_instruction_mov_from_cr_def bnd_Inl_iff
    dest: vmx_vmwrite_panics split: if_splits)

lemma mov_to_cr_contained:
  assumes "vm_emulated_instruction_mov_to_cr n x vs s = Inr (vs', s')" "vm_running as (st_vm vs) v ps s"
  shows "exit_ok as (st_vm vs) v ps s s' \<and> st_vm vs' = st_vm vs"
  using assms by (auto simp: vm_emulated_instruction_mov_to_cr_def exit_ok_refl exit_ok_vmwrite split: if_splits)

text \<open>
  What a guest reads from a control register: the bits of the mask from the read shadow, the others
  from the register (Intel manual, volume 3, 25.6.6).
\<close>

definition cr_as_read :: "u64 \<Rightarrow> u64 \<Rightarrow> u64 \<Rightarrow> u64" where
  "cr_as_read host_mask shadow cr = (cr AND NOT host_mask) OR (shadow AND host_mask)"

lemma mov_to_cr4_read_back:
  assumes "vm_emulated_instruction_mov_to_cr 4 x vs s = Inr (vs', s')"
  shows "cr4 vs' AND CR4_VMXE \<noteq> 0"
    and "cr_as_read CR4_VMXE (cpu_vmcs (cpu s') (cpu_current_vmcs (cpu s')) VMCS_CF_CR4_READ_SHADOW) (cr4 vs') = x"
proof -
  from assms have v: "cr4 vs' = x OR CR4_VMXE"
    "cpu_vmcs (cpu s') (cpu_current_vmcs (cpu s')) VMCS_CF_CR4_READ_SHADOW = x AND CR4_VMXE"
    by (auto simp: vm_emulated_instruction_mov_to_cr_def vmx_vmwrite_def Let_def bnd_Inr_iff)
  have "bit (x OR CR4_VMXE) 13" by (simp add: hv_const bit_simps)
  then show "cr4 vs' AND CR4_VMXE \<noteq> 0"
    using bit_iff_and_push_bit_not_eq_0 [of "x OR CR4_VMXE" 13] by (simp add: v hv_const)
  show "cr_as_read CR4_VMXE (cpu_vmcs (cpu s') (cpu_current_vmcs (cpu s')) VMCS_CF_CR4_READ_SHADOW) (cr4 vs') = x"
    unfolding v cr_as_read_def by (rule bit_word_eqI) (auto simp: bit_simps)
qed

text \<open>The values of XCR0 that the code accepts.\<close>

definition xcr0_allowed :: "u64 \<Rightarrow> u64 \<Rightarrow> bool" where
  "xcr0_allowed host x \<longleftrightarrow> bit x 0 \<and> (\<forall>n. bit x n \<longrightarrow> bit host n) \<and> (bit x 2 \<longrightarrow> bit x 1)"

lemma xcr0_checks:
  "(x AND 1 \<noteq> 1 \<or> x AND NOT h \<noteq> 0 \<or> x AND 0x6 = 0x4) = (\<not> xcr0_allowed h (x :: u64))"
proof -
  have one: "x AND 1 = 1 \<longleftrightarrow> bit x 0" by (simp add: and_one_eq odd_iff_mod_2_eq_one [symmetric] bit_0)
  have sub: "x AND NOT h = 0 \<longleftrightarrow> (\<forall>n. bit x n \<longrightarrow> bit h n)"
  proof
    assume z: "x AND NOT h = 0"
    show "\<forall>n. bit x n \<longrightarrow> bit h n"
    proof (intro allI impI)
      fix n assume "bit x n"
      moreover from this have "n < LENGTH(64)" by (rule bit_imp_le_length)
      ultimately show "bit h n" using arg_cong [OF z, of "\<lambda>w. bit w n"] by (simp add: bit_simps)
    qed
  next
    assume "\<forall>n. bit x n \<longrightarrow> bit h n"
    then show "x AND NOT h = 0" by (intro bit_word_eqI) (auto simp: bit_simps)
  qed
  have six: "x AND 0x6 = 0x4 \<longleftrightarrow> bit x 2 \<and> \<not> bit x 1"
  proof -
    have b: "bit (0x6 :: u64) n \<longleftrightarrow> n = 1 \<or> n = 2" "bit (0x4 :: u64) n \<longleftrightarrow> n = 2" for n
      by (auto simp: bit_numeral_rec bit_1_iff numeral_eq_Suc bit_0 bit_Suc split: nat.splits)
    show ?thesis
    proof
      assume "x AND 0x6 = 0x4"
      then have "bit (x AND 0x6) n = bit (0x4 :: u64) n" for n by simp
      from this [of 1] this [of 2] show "bit x 2 \<and> \<not> bit x 1" by (simp add: bit_and_iff b)
    next
      assume "bit x 2 \<and> \<not> bit x 1"
      then show "x AND 0x6 = 0x4" by (intro bit_word_eqI) (simp only: bit_and_iff b, auto)
    qed
  qed
  show ?thesis unfolding one sub six xcr0_allowed_def by auto
qed

lemma xsetbv_effect:
  assumes "get_vm s (st_vm vs) = Inr v" "rcx (reg_state vs) = 0"
  defines "x \<equiv> push_bit 32 (rdx (reg_state vs)) OR (rax (reg_state vs) AND 0xffffffff)"
  shows "xcr0_allowed (xsave_host_xcr0 s) x \<Longrightarrow>
      vm_emulated_instruction_xsetbv vs s = Inr (vs, put_vm (st_vm vs) (v\<lparr>permanent_xcr0 := x\<rparr>) s)"
    and "\<not> xcr0_allowed (xsave_host_xcr0 s) x \<Longrightarrow> \<exists>m. vm_emulated_instruction_xsetbv vs s = Inl (Panic m)"
  using xcr0_checks [of x "xsave_host_xcr0 s"] assms(1,2)
  by (auto simp: vm_emulated_instruction_xsetbv_def x_def [symmetric] Let_def)

end
