(* ===== verification/Vm_Exit.thy ===== *)
theory Vm_Exit
  imports Emulated_Instructions
begin

text \<open>
  hv/src/vmm/vmx\_vmexit.c: the handler of a VM exit, with the tables it looks instructions and
  registers up in, and a machine that alternates between the guest and the handler.  The main lemma:
  whatever the guest does with its memory, its registers and its VMCS, every handled exit stays within
  \<open>exit_ok\<close>, and one that is not handled is a panic, never an access out of bounds or an endless loop.
\<close>

section \<open>Exit reasons and qualifications\<close>

definition VMCS_EXIT_REASON :: u64 where [hv_const]: "VMCS_EXIT_REASON = 0x4402"
definition VMCS_VM_EXIT_INSTRUCTION_LENGTH :: u64 where [hv_const]: "VMCS_VM_EXIT_INSTRUCTION_LENGTH = 0x440C"
definition VMCS_EXIT_QUALIFICATION :: u64 where [hv_const]: "VMCS_EXIT_QUALIFICATION = 0x6400"
definition VMCS_GUEST_CR0 :: u64 where [hv_const]: "VMCS_GUEST_CR0 = 0x6800"
definition VMCS_GUEST_CR3 :: u64 where [hv_const]: "VMCS_GUEST_CR3 = 0x6802"
definition VMCS_GUEST_CR4 :: u64 where [hv_const]: "VMCS_GUEST_CR4 = 0x6804"
definition VMCS_GUEST_RSP :: u64 where [hv_const]: "VMCS_GUEST_RSP = 0x681C"
definition VMCS_GUEST_RIP :: u64 where [hv_const]: "VMCS_GUEST_RIP = 0x681E"
definition VMCS_GUEST_RFLAGS :: u64 where [hv_const]: "VMCS_GUEST_RFLAGS = 0x6820"

definition VMEXIT_REASON_CPUID :: u64 where [hv_const]: "VMEXIT_REASON_CPUID = 10"
definition VMEXIT_REASON_HLT :: u64 where [hv_const]: "VMEXIT_REASON_HLT = 12"
definition VMEXIT_REASON_CR_ACCESSES :: u64 where [hv_const]: "VMEXIT_REASON_CR_ACCESSES = 28"
definition VMEXIT_REASON_IO_INSTRUCTION :: u64 where [hv_const]: "VMEXIT_REASON_IO_INSTRUCTION = 30"
definition VMEXIT_REASON_RDMSR :: u64 where [hv_const]: "VMEXIT_REASON_RDMSR = 31"
definition VMEXIT_REASON_WRMSR :: u64 where [hv_const]: "VMEXIT_REASON_WRMSR = 32"
definition VMEXIT_REASON_XSETBV :: u64 where [hv_const]: "VMEXIT_REASON_XSETBV = 55"

definition VMEXIT_QUALIFICATION_CR_CRN :: "u64 \<Rightarrow> u64" where
  "VMEXIT_QUALIFICATION_CR_CRN x = x AND 0xf"
definition VMEXIT_QUALIFICATION_CR_ACCESS_TYPE :: "u64 \<Rightarrow> u64" where
  "VMEXIT_QUALIFICATION_CR_ACCESS_TYPE x = drop_bit 4 x AND 3"
definition VMEXIT_QUALIFICATION_CR_ACCESS_TYPE_MOV_TO_CR :: u64 where
  [hv_const]: "VMEXIT_QUALIFICATION_CR_ACCESS_TYPE_MOV_TO_CR = 0"
definition VMEXIT_QUALIFICATION_CR_ACCESS_TYPE_MOV_FROM_CR :: u64 where
  [hv_const]: "VMEXIT_QUALIFICATION_CR_ACCESS_TYPE_MOV_FROM_CR = 1"
definition VMEXIT_QUALIFICATION_CR_MOV_GPR :: "u64 \<Rightarrow> u64" where
  "VMEXIT_QUALIFICATION_CR_MOV_GPR x = drop_bit 8 x AND 0xf"
definition VMEXIT_QUALIFICATION_IO_SIZE :: "u64 \<Rightarrow> u64" where
  "VMEXIT_QUALIFICATION_IO_SIZE x = x AND 3"
definition VMEXIT_QUALIFICATION_IO_DIRECTION :: "u64 \<Rightarrow> u64" where
  "VMEXIT_QUALIFICATION_IO_DIRECTION x = drop_bit 3 x AND 1"
definition VMEXIT_QUALIFICATION_IO_STRING :: "u64 \<Rightarrow> u64" where
  "VMEXIT_QUALIFICATION_IO_STRING x = drop_bit 4 x AND 1"
definition VMEXIT_QUALIFICATION_IO_REP :: "u64 \<Rightarrow> u64" where
  "VMEXIT_QUALIFICATION_IO_REP x = drop_bit 5 x AND 1"
definition VMEXIT_QUALIFICATION_IO_PORT :: "u64 \<Rightarrow> u64" where
  "VMEXIT_QUALIFICATION_IO_PORT x = drop_bit 16 x AND 0xffff"

section \<open>The handlers\<close>

text \<open>The pointers of \<open>possible_gpr\<close>, each as a getter and a setter.\<close>

type_synonym gpr_pointer = "(vmx_vmexit_state_t \<Rightarrow> u64) \<times> (u64 \<Rightarrow> vmx_vmexit_state_t \<Rightarrow> vmx_vmexit_state_t)"

definition gpr_pointer :: "(vmx_gpr_state_t \<Rightarrow> u64) \<Rightarrow> ((u64 \<Rightarrow> u64) \<Rightarrow> vmx_gpr_state_t \<Rightarrow> vmx_gpr_state_t) \<Rightarrow> gpr_pointer" where
  "gpr_pointer get upd = (\<lambda>vs. get (reg_state vs), \<lambda>x vs. vs\<lparr>reg_state := upd (\<lambda>_. x) (reg_state vs)\<rparr>)"

definition possible_gpr :: "gpr_pointer list" where
  "possible_gpr =
    [gpr_pointer rax rax_update, gpr_pointer rcx rcx_update, gpr_pointer rdx rdx_update,
     gpr_pointer rbx rbx_update, (rsp, \<lambda>x. rsp_update (\<lambda>_. x)), gpr_pointer rbp rbp_update,
     gpr_pointer rsi rsi_update, gpr_pointer rdi rdi_update, gpr_pointer r8 r8_update,
     gpr_pointer r9 r9_update, gpr_pointer r10 r10_update, gpr_pointer r11 r11_update,
     gpr_pointer r12 r12_update, gpr_pointer r13 r13_update, gpr_pointer r14 r14_update,
     gpr_pointer r15 r15_update]"

definition vmx_vmexit_cr_accesses :: "u64 \<Rightarrow> emulated" where
  "vmx_vmexit_cr_accesses exit_qualification vs s =
     (let crn = ucast (VMEXIT_QUALIFICATION_CR_CRN exit_qualification);
          gpr = possible_gpr ! unat (VMEXIT_QUALIFICATION_CR_MOV_GPR exit_qualification)
      in if VMEXIT_QUALIFICATION_CR_ACCESS_TYPE exit_qualification = VMEXIT_QUALIFICATION_CR_ACCESS_TYPE_MOV_TO_CR
         then vm_emulated_instruction_mov_to_cr crn (fst gpr vs) vs s
         else if VMEXIT_QUALIFICATION_CR_ACCESS_TYPE exit_qualification = VMEXIT_QUALIFICATION_CR_ACCESS_TYPE_MOV_FROM_CR
         then bnd (vm_emulated_instruction_mov_from_cr crn vs) (\<lambda>x. Inr (snd gpr x vs, s))
         else Inl (Panic ''unsupported CR VM-exit qualification''))"

text \<open>
  The table \<open>emulated_io_instructions\<close>, by direction (out, in), size (byte, word, no entry, double
  word) and kind (single, string, repeated string); \<open>None\<close> is a null pointer.
\<close>

definition emulated_io_instructions :: "(u16 \<Rightarrow> emulated) option list list list" where
  "emulated_io_instructions =
    [[[Some vm_emulated_instruction_outb, Some vm_emulated_instruction_outsb, Some vm_emulated_instruction_rep_outsb],
      [Some vm_emulated_instruction_outw, Some vm_emulated_instruction_outsw, Some vm_emulated_instruction_rep_outsw],
      [None, None, None],
      [Some vm_emulated_instruction_outd, Some vm_emulated_instruction_outsd, Some vm_emulated_instruction_rep_outsd]],
     [[Some vm_emulated_instruction_inb, Some vm_emulated_instruction_insb, Some vm_emulated_instruction_rep_insb],
      [Some vm_emulated_instruction_inw, Some vm_emulated_instruction_insw, Some vm_emulated_instruction_rep_insw],
      [None, None, None],
      [Some vm_emulated_instruction_ind, Some vm_emulated_instruction_insd, Some vm_emulated_instruction_rep_insd]]]"

definition vmx_vmexit_io :: "u64 \<Rightarrow> emulated" where
  "vmx_vmexit_io exit_qualification vs s =
     (let str = VMEXIT_QUALIFICATION_IO_STRING exit_qualification \<noteq> 0;
          rep = VMEXIT_QUALIFICATION_IO_REP exit_qualification \<noteq> 0;
          base = emulated_io_instructions ! unat (VMEXIT_QUALIFICATION_IO_DIRECTION exit_qualification)
            ! unat (VMEXIT_QUALIFICATION_IO_SIZE exit_qualification);
          emulated_io_instruction =
            (if \<not> str \<and> \<not> rep then base ! 0 else if str \<and> \<not> rep then base ! 1
             else if str \<and> rep then base ! 2 else None)
      in case emulated_io_instruction of None \<Rightarrow> Inl (Panic ''unsupported I/O VM-exit qualification'')
         | Some instruction \<Rightarrow> instruction (ucast (VMEXIT_QUALIFICATION_IO_PORT exit_qualification)) vs s)"

text \<open>The switch of the handler.\<close>

definition vmx_vmexit_advance :: "u64 \<Rightarrow> vmx_vmexit_state_t \<times> hv_state \<Rightarrow> (vmx_vmexit_state_t \<times> hv_state) res" where
  "vmx_vmexit_advance instruction_length r = Inr ((fst r)\<lparr>rip := rip (fst r) + instruction_length\<rparr>, snd r)"

definition vmx_vmexit_dispatch :: "u64 \<Rightarrow> u64 \<Rightarrow> u64 \<Rightarrow> emulated" where
  "vmx_vmexit_dispatch exit_reason exit_qualification instruction_length vs s =
     (if exit_reason = VMEXIT_REASON_CPUID then
        bnd (vm_emulated_instruction_cpuid vs s) (vmx_vmexit_advance instruction_length)
      else if exit_reason = VMEXIT_REASON_CR_ACCESSES then
        bnd (vmx_vmexit_cr_accesses exit_qualification vs s) (vmx_vmexit_advance instruction_length)
      else if exit_reason = VMEXIT_REASON_IO_INSTRUCTION then
        bnd (vmx_vmexit_io exit_qualification vs s) (vmx_vmexit_advance instruction_length)
      else if exit_reason = VMEXIT_REASON_RDMSR then Inl (Panic ''unsupported MSR'')
      else if exit_reason = VMEXIT_REASON_WRMSR then Inl (Panic ''unsupported MSR'')
      else if exit_reason = VMEXIT_REASON_XSETBV then
        bnd (vm_emulated_instruction_xsetbv vs s) (vmx_vmexit_advance instruction_length)
      else if exit_reason = VMEXIT_REASON_HLT then Inl (Panic ''VM halted'')
      else Inl (Panic ''Unsupported VM-Exit reason''))"

definition vmx_msr_zero :: vmx_msr_state_t where
  "vmx_msr_zero = \<lparr>ia32_efer = 0, ia32_fs_base = 0, ia32_gs_base = 0, ia32_misc_enable = 0,
     ia32_bios_sign_id = 0, ia32_xss = 0, ia32_kernel_gs_base = 0\<rparr>"

text \<open>Filling \<open>vm_state\<close> on the way in, and writing it back on the way out.\<close>

definition vmx_vmexit_enter :: "vmx_gpr_state_t \<Rightarrow> hv_state \<Rightarrow> (vmx_vmexit_state_t \<times> hv_state) res" where
  "vmx_vmexit_enter vm_reg_state s =
     bnd (vm_manager_get_current_vm s) (\<lambda>vp.
     bnd (vmx_vmread VMCS_GUEST_RIP s) (\<lambda>rip. bnd (vmx_vmread VMCS_GUEST_RSP s) (\<lambda>rsp.
     bnd (vmx_vmread VMCS_GUEST_RFLAGS s) (\<lambda>rflags. bnd (vmx_vmread VMCS_GUEST_CR0 s) (\<lambda>cr0.
     bnd (vmx_vmread VMCS_GUEST_CR3 s) (\<lambda>cr3. bnd (vmx_vmread VMCS_GUEST_CR4 s) (\<lambda>cr4.
     vmx_msr_vmexit \<lparr>st_vm = vp, reg_state = vm_reg_state, rip = rip, rsp = rsp, rflags = rflags,
       cr0 = cr0, cr3 = cr3, cr4 = cr4, msrs = vmx_msr_zero\<rparr> s)))))))"

definition vmx_vmexit_leave :: "vmx_vmexit_state_t \<Rightarrow> hv_state \<Rightarrow> hv_state res" where
  "vmx_vmexit_leave vs s =
     bnd (vmx_vmwrite VMCS_GUEST_RIP (rip vs) s) (\<lambda>s. bnd (vmx_vmwrite VMCS_GUEST_RSP (rsp vs) s) (\<lambda>s.
     bnd (vmx_vmwrite VMCS_GUEST_RFLAGS (rflags vs) s) (\<lambda>s. bnd (vmx_vmwrite VMCS_GUEST_CR0 (cr0 vs) s) (\<lambda>s.
     bnd (vmx_vmwrite VMCS_GUEST_CR3 (cr3 vs) s) (\<lambda>s. bnd (vmx_vmwrite VMCS_GUEST_CR4 (cr4 vs) s) (\<lambda>s.
     vmx_msr_vmresume vs s))))))"

text \<open>The result: the machine whose permanent state is restored, and the registers.\<close>

definition vmx_vmexit_handler :: "vmx_gpr_state_t \<Rightarrow> hv_state \<Rightarrow> (u64 \<times> vmx_gpr_state_t \<times> hv_state) res" where
  "vmx_vmexit_handler vm_reg_state s =
     bnd (vmx_vmread VMCS_EXIT_REASON s) (\<lambda>exit_reason.
     bnd (vmx_vmread VMCS_EXIT_QUALIFICATION s) (\<lambda>exit_qualification.
     bnd (vmx_vmread VMCS_VM_EXIT_INSTRUCTION_LENGTH s) (\<lambda>instruction_length.
     bnd (vmx_vmexit_enter vm_reg_state s) (\<lambda>(vs, s).
     bnd (vmx_vmexit_dispatch exit_reason exit_qualification instruction_length vs s) (\<lambda>(vs, s).
     bnd (vmx_vmexit_leave vs s) (\<lambda>s. Inr (st_vm vs, reg_state vs, s)))))))"

section \<open>Every exit stays within \<open>exit_ok\<close>\<close>

text \<open>A handler that keeps the machine of the exit, stays within \<open>exit_ok\<close> and otherwise panics.\<close>

definition exit_safe :: "emulated \<Rightarrow> bool" where
  "exit_safe h \<longleftrightarrow> (\<forall>vs s as v ps. vm_running as (st_vm vs) v ps s \<longrightarrow> (case h vs s of
     Inl e \<Rightarrow> \<exists>m. e = Panic m
   | Inr (vs', s') \<Rightarrow> exit_ok as (st_vm vs) v ps s s' \<and> st_vm vs' = st_vm vs))"

lemma exit_safeD:
  assumes "exit_safe h" "vm_running as (st_vm vs) v ps s"
  shows "h vs s = Inl e \<Longrightarrow> \<exists>m. e = Panic m"
    and "h vs s = Inr (vs', s') \<Longrightarrow> exit_ok as (st_vm vs) v ps s s' \<and> st_vm vs' = st_vm vs"
  using assms unfolding exit_safe_def by fastforce+


lemma contained_safe: "contained h \<Longrightarrow> exit_safe h"
  unfolding exit_safe_def
  by (auto split: sum.splits dest: contained.contained contained.panics)

lemma exit_safe_panic [simp]: "exit_safe (\<lambda>vs s. Inl (Panic m))"
  by (simp add: exit_safe_def)

lemma exit_safe_advance:
  assumes "exit_safe h"
  shows "exit_safe (\<lambda>vs s. bnd (h vs s) (vmx_vmexit_advance n))"
  unfolding exit_safe_def
proof (intro allI impI)
  fix vs :: vmx_vmexit_state_t and s as v ps assume r: "vm_running as (st_vm vs) v ps s"
  show "case bnd (h vs s) (vmx_vmexit_advance n) of Inl e \<Rightarrow> \<exists>m. e = Panic m
    | Inr (vs', s') \<Rightarrow> exit_ok as (st_vm vs) v ps s s' \<and> st_vm vs' = st_vm vs"
    using exit_safeD [OF assms r] by (cases "h vs s") (auto simp: vmx_vmexit_advance_def)
qed

lemma io_instruction_safe:
  assumes "i < 2" "j < 4" "k < 3" "emulated_io_instructions ! i ! j ! k = Some h"
  shows "exit_safe (h port)"
proof -
  have "i \<in> {0, 1}" "j \<in> {0, 1, 2, 3}" "k \<in> {0, 1, 2}" using assms(1-3) by auto
  then show ?thesis using assms(4) unfolding emulated_io_instructions_def
    by (elim insertE emptyE; simp)
      (auto intro!: contained_safe rep_contained repeatable.axioms(1)
        emulated_outb.contained_axioms emulated_outw.contained_axioms emulated_outd.contained_axioms
        emulated_inb.contained_axioms emulated_inw.contained_axioms emulated_ind.contained_axioms
        emulated_outsb.repeatable_axioms emulated_outsw.repeatable_axioms emulated_outsd.repeatable_axioms
        emulated_insb.repeatable_axioms emulated_insw.repeatable_axioms emulated_insd.repeatable_axioms)
qed

lemma io_fields_bound:
  "unat (VMEXIT_QUALIFICATION_IO_DIRECTION q) < 2" "unat (VMEXIT_QUALIFICATION_IO_SIZE q) < 4"
  "unat (VMEXIT_QUALIFICATION_CR_MOV_GPR q) < 16"
  using word_and_le1 [of "drop_bit 3 q" 1] word_and_le1 [of q 3] word_and_le1 [of "drop_bit 8 q" 15]
  by (auto simp: VMEXIT_QUALIFICATION_IO_DIRECTION_def VMEXIT_QUALIFICATION_IO_SIZE_def
    VMEXIT_QUALIFICATION_CR_MOV_GPR_def word_le_nat_alt and.commute)

lemma vmx_vmexit_io_safe: "exit_safe (vmx_vmexit_io q)"
proof -
  let ?base = "emulated_io_instructions ! unat (VMEXIT_QUALIFICATION_IO_DIRECTION q) ! unat (VMEXIT_QUALIFICATION_IO_SIZE q)"
  have b: "exit_safe (h port)" if "k < 3" "?base ! k = Some h" for k h port
    using io_instruction_safe [OF io_fields_bound(1,2) that(1)] that(2) by blast
  have e: "exit_safe (case x of None \<Rightarrow> (\<lambda>vs s. Inl (Panic m)) | Some h \<Rightarrow> h port)"
    if "x \<in> {?base ! 0, ?base ! 1, ?base ! 2, None}" for x m port
    using that b [of 0] b [of 1] b [of 2] by (cases x) auto
  define x where "x = (if \<not> VMEXIT_QUALIFICATION_IO_STRING q \<noteq> 0 \<and> \<not> VMEXIT_QUALIFICATION_IO_REP q \<noteq> 0 then ?base ! 0
    else if VMEXIT_QUALIFICATION_IO_STRING q \<noteq> 0 \<and> \<not> VMEXIT_QUALIFICATION_IO_REP q \<noteq> 0 then ?base ! 1
    else if VMEXIT_QUALIFICATION_IO_STRING q \<noteq> 0 \<and> VMEXIT_QUALIFICATION_IO_REP q \<noteq> 0 then ?base ! 2 else None)"
  have "vmx_vmexit_io q = (case x of None \<Rightarrow> (\<lambda>vs s. Inl (Panic ''unsupported I/O VM-exit qualification''))
      | Some h \<Rightarrow> h (ucast (VMEXIT_QUALIFICATION_IO_PORT q)))"
    by (intro ext) (simp only: vmx_vmexit_io_def Let_def x_def [symmetric] split: option.split, simp split: option.split)
  with e [of x] show ?thesis by (simp add: x_def)
qed

lemma gpr_keeps_vm:
  assumes "i < 16"
  shows "st_vm (snd (possible_gpr ! i) x vs) = st_vm vs"
proof -
  have "\<forall>g \<in> set possible_gpr. st_vm (snd g x vs) = st_vm vs" by (simp add: possible_gpr_def gpr_pointer_def)
  moreover have "length possible_gpr = 16" by (simp add: possible_gpr_def)
  ultimately show ?thesis using assms nth_mem [of i possible_gpr] by simp
qed

lemma vmx_vmexit_cr_accesses_safe: "exit_safe (vmx_vmexit_cr_accesses q)"
  unfolding exit_safe_def
proof (intro allI impI)
  fix vs :: vmx_vmexit_state_t and s as v ps assume r: "vm_running as (st_vm vs) v ps s"
  show "case vmx_vmexit_cr_accesses q vs s of Inl e \<Rightarrow> \<exists>m. e = Panic m
    | Inr (vs', s') \<Rightarrow> exit_ok as (st_vm vs) v ps s s' \<and> st_vm vs' = st_vm vs"
    using mov_cr_panics mov_to_cr_contained [OF _ r] exit_ok_refl [OF r] gpr_keeps_vm [OF io_fields_bound(3)]
    by (auto simp: vmx_vmexit_cr_accesses_def Let_def bnd_Inl_iff split: sum.splits)
qed

lemma vmx_vmexit_dispatch_safe: "exit_safe (vmx_vmexit_dispatch r q n)"
proof -
  have "vmx_vmexit_dispatch r q n =
     (if r = VMEXIT_REASON_CPUID then (\<lambda>vs s. bnd (vm_emulated_instruction_cpuid vs s) (vmx_vmexit_advance n))
      else if r = VMEXIT_REASON_CR_ACCESSES then (\<lambda>vs s. bnd (vmx_vmexit_cr_accesses q vs s) (vmx_vmexit_advance n))
      else if r = VMEXIT_REASON_IO_INSTRUCTION then (\<lambda>vs s. bnd (vmx_vmexit_io q vs s) (vmx_vmexit_advance n))
      else if r = VMEXIT_REASON_RDMSR then (\<lambda>vs s. Inl (Panic ''unsupported MSR''))
      else if r = VMEXIT_REASON_WRMSR then (\<lambda>vs s. Inl (Panic ''unsupported MSR''))
      else if r = VMEXIT_REASON_XSETBV then (\<lambda>vs s. bnd (vm_emulated_instruction_xsetbv vs s) (vmx_vmexit_advance n))
      else if r = VMEXIT_REASON_HLT then (\<lambda>vs s. Inl (Panic ''VM halted''))
      else (\<lambda>vs s. Inl (Panic ''Unsupported VM-Exit reason'')))"
    by (intro ext) (simp add: vmx_vmexit_dispatch_def)
  then show ?thesis
    by (simp add: exit_safe_advance vmx_vmexit_cr_accesses_safe vmx_vmexit_io_safe
      contained_safe [OF cpuid.contained_axioms] contained_safe [OF xsetbv.contained_axioms])
qed

section \<open>Entering and leaving the handler\<close>

lemma fold_res_induct:
  assumes "fold (\<lambda>l st. bnd st (f l)) ls (Inr s) = Inr s'" "I s" "\<And>l t t'. I t \<Longrightarrow> f l t = Inr t' \<Longrightarrow> I t'"
  shows "I s'"
  using assms(1,2)
proof (induction ls arbitrary: s)
  case Nil
  then show ?case by simp
next
  case (Cons l ls)
  have "fold (\<lambda>l st. bnd st (f l)) ls (Inl e) = Inl e" for e by (induction ls) simp_all
  with Cons.prems(1) obtain t where "f l s = Inr t" "fold (\<lambda>l st. bnd st (f l)) ls (Inr t) = Inr s'"
    by (cases "f l s") auto
  with Cons.IH assms(3) Cons.prems(2) show ?case by blast
qed

lemma fold_res_panics:
  assumes "fold (\<lambda>l st. bnd st (f l)) ls r = Inl e" "\<And>e. r = Inl e \<Longrightarrow> P e" "\<And>l t e. f l t = Inl e \<Longrightarrow> P e"
  shows "P e"
  using assms(1,2)
proof (induction ls arbitrary: r)
  case Nil
  then show ?case by simp
next
  case (Cons l ls)
  show ?case
  proof (rule Cons.IH)
    show "fold (\<lambda>l st. bnd st (f l)) ls (bnd r (f l)) = Inl e" using Cons.prems(1) by simp
    show "P e'" if "bnd r (f l) = Inl e'" for e' using that Cons.prems(2) assms(3) by (auto simp: bnd_Inl_iff)
  qed
qed

lemma vmx_msr_vmresume_ok:
  assumes "vmx_msr_vmresume vs s = Inr s'" "vm_running as vp v ps s"
  shows "exit_ok as vp v ps s s'"
proof -
  obtain t where t: "fold (\<lambda>l s. bnd s (X_VMCS_vmresume vs l)) VMX_MSR_LIST_VMCS (Inr s) = Inr t"
    "s' = fold (X_RWBK_vmresume vs) VMX_MSR_LIST_RWBK t" using assms(1) by (auto simp: vmx_msr_vmresume_def)
  have "exit_ok as vp v ps s t"
  proof (rule fold_res_induct [OF t(1), where I = "exit_ok as vp v ps s"])
    show "exit_ok as vp v ps s s" by (rule exit_ok_refl [OF assms(2)])
    fix l t t' assume e: "exit_ok as vp v ps s t" "X_VMCS_vmresume vs l t = Inr t'"
    then show "exit_ok as vp v ps s t'"
      by (auto simp: X_VMCS_vmresume_def split: prod.splits
        intro: exit_ok_trans exit_ok_vmwrite [OF exit_ok_running])
  qed
  moreover have "exit_ok as vp v ps t (fold (X_RWBK_vmresume vs) ls t)" if "vm_running as vp v ps t" for ls t
    using that
  proof (induction ls arbitrary: t)
    case Nil
    then show ?case by (simp add: exit_ok_refl)
  next
    case (Cons l ls)
    obtain a g u where l: "l = (a, g, u)" by (cases l)
    let ?b = "t\<lparr>vmx_msr_host_backup := u (rdmsr t a) (vmx_msr_host_backup t)\<rparr>"
    have b: "exit_ok as vp v ps t ?b" by (rule exit_ok_backup [OF Cons.prems])
    have "exit_ok as vp v ps ?b (wrmsr a (g (msrs vs)) ?b)"
      unfolding wrmsr_def by (rule exit_ok_cpu [OF exit_ok_running [OF b]]) (simp add: cpu_frame_def)
    with b have x: "exit_ok as vp v ps t (X_RWBK_vmresume vs l t)"
      unfolding l X_RWBK_vmresume_def by (simp add: exit_ok_trans)
    from exit_ok_trans [OF x Cons.IH [OF exit_ok_running [OF x]]] show ?case by simp
  qed
  ultimately show ?thesis unfolding t(2) using exit_ok_running exit_ok_trans by blast
qed

lemma vmx_msr_panics:
  "vmx_msr_vmresume vs s = Inl e \<Longrightarrow> \<exists>m. e = Panic m"
  "vmx_msr_vmexit vs s = Inl e \<Longrightarrow> \<exists>m. e = Panic m"
proof -
  assume "vmx_msr_vmresume vs s = Inl e"
  then have "fold (\<lambda>l s. bnd s (X_VMCS_vmresume vs l)) VMX_MSR_LIST_VMCS (Inr s) = Inl e"
    by (simp add: vmx_msr_vmresume_def bnd_Inl_iff)
  then show "\<exists>m. e = Panic m"
    by (rule fold_res_panics) (auto simp: X_VMCS_vmresume_def vmx_vmwrite_panics split: prod.splits)
next
  assume "vmx_msr_vmexit vs s = Inl e"
  then have "fold (\<lambda>l st. bnd st (X_VMCS_vmexit l)) VMX_MSR_LIST_VMCS (Inr (vs, s)) = Inl e"
    by (simp add: vmx_msr_vmexit_def bnd_Inl_iff)
  then show "\<exists>m. e = Panic m"
    by (rule fold_res_panics) (auto simp: X_VMCS_vmexit_def bnd_Inl_iff vmx_vmread_panics split: prod.splits)
qed

lemma vmx_vmexit_leave_ok:
  assumes "vmx_vmexit_leave vs s = Inr s'" "vm_running as vp v ps s"
  shows "exit_ok as vp v ps s s'"
proof -
  have step: "exit_ok as vp v ps s t \<Longrightarrow> vmx_vmwrite f x t = Inr t' \<Longrightarrow> exit_ok as vp v ps s t'" for f x t t'
    using exit_ok_trans exit_ok_vmwrite exit_ok_running by metis
  note s0 = exit_ok_refl [OF assms(2)]
  obtain t1 t2 t3 t4 t5 t where w: "vmx_vmwrite VMCS_GUEST_RIP (rip vs) s = Inr t1"
    "vmx_vmwrite VMCS_GUEST_RSP (rsp vs) t1 = Inr t2" "vmx_vmwrite VMCS_GUEST_RFLAGS (rflags vs) t2 = Inr t3"
    "vmx_vmwrite VMCS_GUEST_CR0 (cr0 vs) t3 = Inr t4" "vmx_vmwrite VMCS_GUEST_CR3 (cr3 vs) t4 = Inr t5"
    "vmx_vmwrite VMCS_GUEST_CR4 (cr4 vs) t5 = Inr t" "vmx_msr_vmresume vs t = Inr s'"
    using assms(1) unfolding vmx_vmexit_leave_def by (elim bnd_InrE)
  have "exit_ok as vp v ps s t"
    by (rule step [OF step [OF step [OF step [OF step [OF step [OF s0 w(1)] w(2)] w(3)] w(4)] w(5)] w(6)])
  then show ?thesis using vmx_msr_vmresume_ok [OF w(7)] exit_ok_running exit_ok_trans by metis
qed

lemma vmx_vmexit_leave_panics: "vmx_vmexit_leave vs s = Inl e \<Longrightarrow> \<exists>m. e = Panic m"
  unfolding vmx_vmexit_leave_def
  by (auto simp: bnd_Inl_iff dest: vmx_vmwrite_panics vmx_msr_panics)

lemma get_current_vm_running:
  assumes "vm_running as vp v ps s" "vm_manager_current_vm s = vp"
  shows "vm_manager_get_current_vm s = Inr vp \<or> (\<exists>m. vm_manager_get_current_vm s = Inl (Panic m))"
  using assms by (cases "cpu_current_vmcs (cpu s) = vmcs_region v")
    (auto simp: vm_running_def vm_manager_get_current_vm_def VMX_ASSERT_def)

lemma vmx_vmexit_enter_ok:
  assumes "vmx_vmexit_enter regs s = Inr (vs, s')" "vm_running as vp v ps s" "vm_manager_current_vm s = vp"
  shows "exit_ok as vp v ps s s' \<and> st_vm vs = vp \<and> reg_state vs = regs"
proof -
  obtain vs0 where v: "vmx_msr_vmexit vs0 s = Inr (vs, s')" "st_vm vs0 = vp" "reg_state vs0 = regs"
    using assms(1) get_current_vm_running [OF assms(2,3)] by (auto simp: vmx_vmexit_enter_def)
  note m = vmx_msr_vmexit_state [OF v(1)]
  have "st_vm vs = st_vm vs0" "reg_state vs = reg_state vs0" by (subst m(2), simp)+
  moreover have "exit_ok as vp v ps s s'"
    unfolding m(1) by (rule exit_ok_cpu [OF assms(2)]) (simp add: cpu_frame_def)
  ultimately show ?thesis using v by simp
qed

lemma vmx_vmexit_enter_panics:
  "vmx_vmexit_enter regs s = Inl e \<Longrightarrow> vm_running as vp v ps s \<Longrightarrow> vm_manager_current_vm s = vp \<Longrightarrow> \<exists>m. e = Panic m"
  using get_current_vm_running [of as vp v ps s]
  by (auto simp: vmx_vmexit_enter_def bnd_Inl_iff dest: vmx_vmread_panics vmx_msr_panics)

lemma vmx_vmexit_handler_ok:
  assumes "vmx_vmexit_handler regs s = Inr (p, regs', s')" "vm_running as vp v ps s" "vm_manager_current_vm s = vp"
  shows "exit_ok as vp v ps s s' \<and> p = vp"
proof -
  obtain r q n vs1 s1 vs2 s2 where h: "vmx_vmexit_enter regs s = Inr (vs1, s1)"
    "vmx_vmexit_dispatch r q n vs1 s1 = Inr (vs2, s2)" "vmx_vmexit_leave vs2 s2 = Inr s'" "p = st_vm vs2"
    using assms(1) by (auto simp: vmx_vmexit_handler_def)
  note e = vmx_vmexit_enter_ok [OF h(1) assms(2,3)]
  then have "vm_running as (st_vm vs1) v ps s1" using exit_ok_running by metis
  from exit_safeD(2) [OF vmx_vmexit_dispatch_safe this h(2)] e
  have d: "exit_ok as vp v ps s1 s2" "st_vm vs2 = vp" by simp_all
  from vmx_vmexit_leave_ok [OF h(3) exit_ok_running [OF d(1)]] d e h(4) show ?thesis
    using exit_ok_trans by metis
qed

lemma vmx_vmexit_handler_panics:
  assumes "vmx_vmexit_handler regs s = Inl e" "vm_running as vp v ps s" "vm_manager_current_vm s = vp"
  shows "\<exists>m. e = Panic m"
proof -
  have d: "\<exists>m. e = Panic m" if en: "vmx_vmexit_enter regs s = Inr (vs1, s1)"
    "vmx_vmexit_dispatch r q n vs1 s1 = Inl e" for r q n vs1 s1
  proof -
    have "vm_running as (st_vm vs1) v ps s1" using vmx_vmexit_enter_ok [OF en(1) assms(2,3)] exit_ok_running by metis
    from exit_safeD(1) [OF vmx_vmexit_dispatch_safe this en(2)] show ?thesis .
  qed
  show ?thesis using assms(1) d
    by (auto simp: vmx_vmexit_handler_def bnd_Inl_iff dest: vmx_vmread_panics vmx_vmexit_leave_panics
      vmx_vmexit_enter_panics [OF _ assms(2,3)])
qed

section \<open>The life of a machine\<close>

text \<open>
  What the processor may do between an entry and the next exit: it reaches memory through the extended
  page tables only, so it writes the guest pages of the machine, and it updates its registers and the
  current VMCS; the last two are not constrained further.
\<close>

definition guest_run :: "vm_t \<Rightarrow> hv_state \<Rightarrow> hv_state \<Rightarrow> bool" where
  "guest_run v s s' \<longleftrightarrow> (\<exists>m c. s' = s\<lparr>phys := m\<rparr>\<lparr>cpu := c\<rparr> \<and> guest_write v (phys s) m \<and> cpu_frame (cpu s) c)"

datatype vm_phase = In_guest hv_state | In_handler vmx_gpr_state_t hv_state | Stopped stop

inductive vm_step :: "vm_t \<Rightarrow> vm_phase \<Rightarrow> vm_phase \<Rightarrow> bool" for v where
  vm_exit: "guest_run v s s' \<Longrightarrow> vm_step v (In_guest s) (In_handler regs s')"
| vm_resume: "vmx_vmexit_handler regs s = Inr (p, regs', s') \<Longrightarrow> vm_step v (In_handler regs s) (In_guest s')"
| vm_stop: "vmx_vmexit_handler regs s = Inl e \<Longrightarrow> vm_step v (In_handler regs s) (Stopped e)"

inductive_cases vm_step_guestE [elim!]: "vm_step v (In_guest s) x"
inductive_cases vm_step_handlerE [elim!]: "vm_step v (In_handler regs s) x"
inductive_cases vm_step_stoppedE [elim!]: "vm_step v (Stopped e) x"

primrec phase_ok :: "u64 list \<Rightarrow> u64 \<Rightarrow> vm_t \<Rightarrow> u64 list \<Rightarrow> hv_state \<Rightarrow> vm_phase \<Rightarrow> bool" where
  "phase_ok as vp v ps s0 (In_guest s) \<longleftrightarrow> exit_ok as vp v ps s0 s"
| "phase_ok as vp v ps s0 (In_handler regs s) \<longleftrightarrow> exit_ok as vp v ps s0 s"
| "phase_ok as vp v ps s0 (Stopped e) \<longleftrightarrow> (\<exists>m. e = Panic m)"

lemma guest_run_ok:
  assumes "guest_run v s s'" "vm_running as vp v ps s"
  shows "exit_ok as vp v ps s s'"
proof -
  obtain m c where r: "s' = s\<lparr>phys := m\<rparr>\<lparr>cpu := c\<rparr>" "guest_write v (phys s) m" "cpu_frame (cpu s) c"
    using assms(1) by (auto simp: guest_run_def)
  note m = exit_ok_memory [OF assms(2) r(2)]
  have "exit_ok as vp v ps (s\<lparr>phys := m\<rparr>) s'"
    unfolding r(1) by (rule exit_ok_cpu [OF exit_ok_running [OF m]]) (simp add: r(3))
  with m show ?thesis by (rule exit_ok_trans)
qed

lemma vm_step_ok:
  assumes "vm_step v x y" "phase_ok as vp v ps s0 x" "vm_manager_current_vm s0 = vp"
  shows "phase_ok as vp v ps s0 y"
  using assms(1)
proof cases
  case (vm_exit s s' regs)
  then have "exit_ok as vp v ps s0 s" using assms(2) by simp
  with guest_run_ok [OF vm_exit(3) exit_ok_running] show ?thesis unfolding vm_exit(2) by (auto intro: exit_ok_trans)
next
  case (vm_resume regs s p regs' s')
  then have e: "exit_ok as vp v ps s0 s" using assms(2) by simp
  then have "vm_manager_current_vm s = vp" using assms(3) by (simp add: exit_ok_def)
  with vmx_vmexit_handler_ok [OF vm_resume(3) exit_ok_running [OF e]] e show ?thesis
    unfolding vm_resume(2) by (auto intro: exit_ok_trans)
next
  case (vm_stop regs s e)
  then have x: "exit_ok as vp v ps s0 s" using assms(2) by simp
  then have "vm_manager_current_vm s = vp" using assms(3) by (simp add: exit_ok_def)
  with vmx_vmexit_handler_panics [OF vm_stop(3) exit_ok_running [OF x]] show ?thesis unfolding vm_stop(2) by simp
qed

lemma vm_steps_ok:
  assumes "(vm_step v)\<^sup>*\<^sup>* (In_guest s0) y" "vm_running as vp v ps s0" "vm_manager_current_vm s0 = vp"
  shows "phase_ok as vp v ps s0 y"
  using assms(1)
proof (induction rule: rtranclp_induct)
  case base
  then show ?case using exit_ok_refl [OF assms(2)] by simp
next
  case (step x y)
  from vm_step_ok [OF step(2,3) assms(3)] show ?case .
qed

end
