(* ===== verification/Vmcs_Init.thy ===== *)
theory Vmcs_Init
  imports Host_Setup Vm_Exit
begin

text \<open>
  hv/src/vmm/vmx\_vmcs.c and vmx\_vmcs.h: building the VMCS of a machine.  The table of the fields is a
  list of (field, value, MSR that says which bits are allowed, or 0).  The lemmas: the allowed bits are
  respected; every field of the table ends up with its value; and the first VMCS that is built lies in
  the very page that becomes the MSR bitmaps.
\<close>

section \<open>Encodings and values\<close>

definition IA32_VMX_PINBASED_CTLS :: u64 where [hv_const]: "IA32_VMX_PINBASED_CTLS = 0x481"
definition IA32_VMX_PROCBASED_CTLS :: u64 where [hv_const]: "IA32_VMX_PROCBASED_CTLS = 0x482"
definition IA32_VMX_EXIT_CTLS :: u64 where [hv_const]: "IA32_VMX_EXIT_CTLS = 0x483"
definition IA32_VMX_ENTRY_CTLS :: u64 where [hv_const]: "IA32_VMX_ENTRY_CTLS = 0x484"
definition IA32_VMX_PROCBASED_CTLS2 :: u64 where [hv_const]: "IA32_VMX_PROCBASED_CTLS2 = 0x48B"
definition RFLAGS_RESERVED :: u64 where [hv_const]: "RFLAGS_RESERVED = 0x2"
definition RKHV_STACK_TOP :: u64 where [hv_const]: "RKHV_STACK_TOP = 0xfffffffffffffff8"

text \<open>Constants of type \<open>int\<close> that are negative, like \<open>1 << 31\<close> and \<open>~0xfff\<close>, are sign-extended.\<close>

definition VMCS_CF_PRIMARY_PROCESSOR_BASED_VM_EXECUTION_CONTROLS :: u64 where
  [hv_const]: "VMCS_CF_PRIMARY_PROCESSOR_BASED_VM_EXECUTION_CONTROLS = 0x4002"
definition VMCS_CF_PPBVMEC_HLT_EXITING :: u64 where [hv_const]: "VMCS_CF_PPBVMEC_HLT_EXITING = 0x80"
definition VMCS_CF_PPBVMEC_UNCONDITIONAL_IO_EXITING :: u64 where
  [hv_const]: "VMCS_CF_PPBVMEC_UNCONDITIONAL_IO_EXITING = 0x1000000"
definition VMCS_CF_PPBVMEC_USE_MSR_BITMAPS :: u64 where [hv_const]: "VMCS_CF_PPBVMEC_USE_MSR_BITMAPS = 0x10000000"
definition VMCS_CF_PPBVMEC_ACTIVATE_SECONDARY_CONTROLS :: u64 where
  [hv_const]: "VMCS_CF_PPBVMEC_ACTIVATE_SECONDARY_CONTROLS = 0xffffffff80000000"
definition VMCS_CF_SECONDARY_PROCESSOR_BASED_VM_EXECUTION_CONTROLS :: u64 where
  [hv_const]: "VMCS_CF_SECONDARY_PROCESSOR_BASED_VM_EXECUTION_CONTROLS = 0x401e"
definition VMCS_CF_SPBVMEC_ENABLE_EPT :: u64 where [hv_const]: "VMCS_CF_SPBVMEC_ENABLE_EPT = 0x2"
definition VMCS_CF_SPBVMEC_UNRESTRICTED_GUEST :: u64 where [hv_const]: "VMCS_CF_SPBVMEC_UNRESTRICTED_GUEST = 0x80"
definition VMCS_CF_SPBVMEC_ENABLE_INVPCID :: u64 where [hv_const]: "VMCS_CF_SPBVMEC_ENABLE_INVPCID = 0x1000"
definition VMCS_CF_SPBVMEC_ENABLE_XSAVES_XRSTORS :: u64 where
  [hv_const]: "VMCS_CF_SPBVMEC_ENABLE_XSAVES_XRSTORS = 0x100000"
definition VMCS_CF_ADDRESS_OF_MSR_BITMAPS :: u64 where [hv_const]: "VMCS_CF_ADDRESS_OF_MSR_BITMAPS = 0x2004"
definition VMCS_CF_XSS_EXITING_BITMAP :: u64 where [hv_const]: "VMCS_CF_XSS_EXITING_BITMAP = 0x202c"
definition VMCS_CF_EPT_POINTER :: u64 where [hv_const]: "VMCS_CF_EPT_POINTER = 0x201a"
definition VMCS_CF_EPTP_PHYSICAL_ADDRESS_PML4 :: u64 where
  [hv_const]: "VMCS_CF_EPTP_PHYSICAL_ADDRESS_PML4 = 0xfffffffffffff000"
definition VMCS_CF_EPTP_PAGE_WALK_LENGTH_4 :: u64 where [hv_const]: "VMCS_CF_EPTP_PAGE_WALK_LENGTH_4 = 0x18"
definition VMCS_CF_EPTP_WRITE_BACK :: u64 where [hv_const]: "VMCS_CF_EPTP_WRITE_BACK = 0x6"
definition VMCS_CF_PIN_BASED_VM_EXECUTION_CONTROLS :: u64 where
  [hv_const]: "VMCS_CF_PIN_BASED_VM_EXECUTION_CONTROLS = 0x4000"
definition VMCS_CF_PRIMARY_VM_EXIT_CONTROLS :: u64 where [hv_const]: "VMCS_CF_PRIMARY_VM_EXIT_CONTROLS = 0x400c"
definition VMCS_CF_VMEX_HOST_ADDRESS_SPACE_SIZE :: u64 where
  [hv_const]: "VMCS_CF_VMEX_HOST_ADDRESS_SPACE_SIZE = 0x200"
definition VMCS_CF_VMEX_SAVE_IA32_EFER :: u64 where [hv_const]: "VMCS_CF_VMEX_SAVE_IA32_EFER = 0x100000"
definition VMCS_CF_VMEX_LOAD_IA32_EFER :: u64 where [hv_const]: "VMCS_CF_VMEX_LOAD_IA32_EFER = 0x200000"
definition VMCS_CF_VM_EXIT_MSR_STORE_COUNT :: u64 where [hv_const]: "VMCS_CF_VM_EXIT_MSR_STORE_COUNT = 0x400e"
definition VMCS_CF_VM_EXIT_MSR_LOAD_COUNT :: u64 where [hv_const]: "VMCS_CF_VM_EXIT_MSR_LOAD_COUNT = 0x4010"
definition VMCS_CF_EXCEPTION_BITMAP :: u64 where [hv_const]: "VMCS_CF_EXCEPTION_BITMAP = 0x4004"
definition VMCS_CF_PAGE_FAULT_ERROR_CODE_MASK :: u64 where [hv_const]: "VMCS_CF_PAGE_FAULT_ERROR_CODE_MASK = 0x4006"
definition VMCS_CF_PAGE_FAULT_ERROR_CODE_MATCH :: u64 where [hv_const]: "VMCS_CF_PAGE_FAULT_ERROR_CODE_MATCH = 0x4008"
definition VMCS_CF_VM_ENTRY_CONTROLS :: u64 where [hv_const]: "VMCS_CF_VM_ENTRY_CONTROLS = 0x4012"
definition VMCS_CF_VMEN_IA_32E_MODE_GUEST :: u64 where [hv_const]: "VMCS_CF_VMEN_IA_32E_MODE_GUEST = 0x200"
definition VMCS_CF_VMEN_LOAD_IA32_EFER :: u64 where [hv_const]: "VMCS_CF_VMEN_LOAD_IA32_EFER = 0x8000"
definition VMCS_CF_VM_ENTRY_MSR_LOAD_COUNT :: u64 where [hv_const]: "VMCS_CF_VM_ENTRY_MSR_LOAD_COUNT = 0x4014"
definition VMCS_CF_VM_ENTRY_INTERRUPTION_INFORMATION_FIELD :: u64 where
  [hv_const]: "VMCS_CF_VM_ENTRY_INTERRUPTION_INFORMATION_FIELD = 0x4016"
definition VMCS_CF_CR3_TARGET_COUNT :: u64 where [hv_const]: "VMCS_CF_CR3_TARGET_COUNT = 0x400a"
definition VMCS_CF_CR0_GUEST_HOST_MASK :: u64 where [hv_const]: "VMCS_CF_CR0_GUEST_HOST_MASK = 0x6000"
definition VMCS_CF_CR0_READ_SHADOW :: u64 where [hv_const]: "VMCS_CF_CR0_READ_SHADOW = 0x6004"
definition VMCS_CF_CR4_GUEST_HOST_MASK :: u64 where [hv_const]: "VMCS_CF_CR4_GUEST_HOST_MASK = 0x6002"
definition VMCS_HOST_ES :: u64 where [hv_const]: "VMCS_HOST_ES = 0xc00"
definition VMCS_HOST_CS :: u64 where [hv_const]: "VMCS_HOST_CS = 0xc02"
definition VMCS_HOST_SS :: u64 where [hv_const]: "VMCS_HOST_SS = 0xc04"
definition VMCS_HOST_DS :: u64 where [hv_const]: "VMCS_HOST_DS = 0xc06"
definition VMCS_HOST_FS :: u64 where [hv_const]: "VMCS_HOST_FS = 0xc08"
definition VMCS_HOST_GS :: u64 where [hv_const]: "VMCS_HOST_GS = 0xc0a"
definition VMCS_HOST_TR :: u64 where [hv_const]: "VMCS_HOST_TR = 0xc0c"
definition VMCS_HOST_FS_BASE :: u64 where [hv_const]: "VMCS_HOST_FS_BASE = 0x6c06"
definition VMCS_HOST_GS_BASE :: u64 where [hv_const]: "VMCS_HOST_GS_BASE = 0x6c08"
definition VMCS_HOST_TR_BASE :: u64 where [hv_const]: "VMCS_HOST_TR_BASE = 0x6c0a"
definition VMCS_HOST_CR0 :: u64 where [hv_const]: "VMCS_HOST_CR0 = 0x6c00"
definition VMCS_HOST_CR3 :: u64 where [hv_const]: "VMCS_HOST_CR3 = 0x6c02"
definition VMCS_HOST_CR4 :: u64 where [hv_const]: "VMCS_HOST_CR4 = 0x6c04"
definition VMCS_HOST_GDTR_BASE :: u64 where [hv_const]: "VMCS_HOST_GDTR_BASE = 0x6c0c"
definition VMCS_HOST_IDTR_BASE :: u64 where [hv_const]: "VMCS_HOST_IDTR_BASE = 0x6c0e"
definition VMCS_HOST_RSP :: u64 where [hv_const]: "VMCS_HOST_RSP = 0x6c14"
definition VMCS_HOST_RIP :: u64 where [hv_const]: "VMCS_HOST_RIP = 0x6c16"
definition VMCS_HOST_IA32_SYSENTER_ESP :: u64 where [hv_const]: "VMCS_HOST_IA32_SYSENTER_ESP = 0x6c10"
definition VMCS_HOST_IA32_SYSENTER_EIP :: u64 where [hv_const]: "VMCS_HOST_IA32_SYSENTER_EIP = 0x6c12"
definition VMCS_HOST_IA32_EFER :: u64 where [hv_const]: "VMCS_HOST_IA32_EFER = 0x2c02"
definition VMCS_GUEST_ES :: u64 where [hv_const]: "VMCS_GUEST_ES = 0x800"
definition VMCS_GUEST_CS :: u64 where [hv_const]: "VMCS_GUEST_CS = 0x802"
definition VMCS_GUEST_SS :: u64 where [hv_const]: "VMCS_GUEST_SS = 0x804"
definition VMCS_GUEST_DS :: u64 where [hv_const]: "VMCS_GUEST_DS = 0x806"
definition VMCS_GUEST_FS :: u64 where [hv_const]: "VMCS_GUEST_FS = 0x808"
definition VMCS_GUEST_GS :: u64 where [hv_const]: "VMCS_GUEST_GS = 0x80a"
definition VMCS_GUEST_TR :: u64 where [hv_const]: "VMCS_GUEST_TR = 0x80e"
definition VMCS_GUEST_LDTR :: u64 where [hv_const]: "VMCS_GUEST_LDTR = 0x80c"
definition VMCS_GUEST_TR_BASE :: u64 where [hv_const]: "VMCS_GUEST_TR_BASE = 0x6814"
definition VMCS_GUEST_LDTR_BASE :: u64 where [hv_const]: "VMCS_GUEST_LDTR_BASE = 0x6812"
definition VMCS_GUEST_CS_BASE :: u64 where [hv_const]: "VMCS_GUEST_CS_BASE = 0x6808"
definition VMCS_GUEST_SS_BASE :: u64 where [hv_const]: "VMCS_GUEST_SS_BASE = 0x680a"
definition VMCS_GUEST_DS_BASE :: u64 where [hv_const]: "VMCS_GUEST_DS_BASE = 0x680c"
definition VMCS_GUEST_ES_BASE :: u64 where [hv_const]: "VMCS_GUEST_ES_BASE = 0x6806"
definition VMCS_GUEST_FS_LIMIT :: u64 where [hv_const]: "VMCS_GUEST_FS_LIMIT = 0x4808"
definition VMCS_GUEST_GS_LIMIT :: u64 where [hv_const]: "VMCS_GUEST_GS_LIMIT = 0x480a"
definition VMCS_GUEST_CS_LIMIT :: u64 where [hv_const]: "VMCS_GUEST_CS_LIMIT = 0x4802"
definition VMCS_GUEST_SS_LIMIT :: u64 where [hv_const]: "VMCS_GUEST_SS_LIMIT = 0x4804"
definition VMCS_GUEST_DS_LIMIT :: u64 where [hv_const]: "VMCS_GUEST_DS_LIMIT = 0x4806"
definition VMCS_GUEST_ES_LIMIT :: u64 where [hv_const]: "VMCS_GUEST_ES_LIMIT = 0x4800"
definition VMCS_GUEST_LDTR_LIMIT :: u64 where [hv_const]: "VMCS_GUEST_LDTR_LIMIT = 0x480c"
definition VMCS_GUEST_TR_LIMIT :: u64 where [hv_const]: "VMCS_GUEST_TR_LIMIT = 0x480e"
definition VMCS_GUEST_ES_ACCESS_RIGHTS :: u64 where [hv_const]: "VMCS_GUEST_ES_ACCESS_RIGHTS = 0x4814"
definition VMCS_GUEST_CS_ACCESS_RIGHTS :: u64 where [hv_const]: "VMCS_GUEST_CS_ACCESS_RIGHTS = 0x4816"
definition VMCS_GUEST_SS_ACCESS_RIGHTS :: u64 where [hv_const]: "VMCS_GUEST_SS_ACCESS_RIGHTS = 0x4818"
definition VMCS_GUEST_DS_ACCESS_RIGHTS :: u64 where [hv_const]: "VMCS_GUEST_DS_ACCESS_RIGHTS = 0x481a"
definition VMCS_GUEST_FS_ACCESS_RIGHTS :: u64 where [hv_const]: "VMCS_GUEST_FS_ACCESS_RIGHTS = 0x481c"
definition VMCS_GUEST_GS_ACCESS_RIGHTS :: u64 where [hv_const]: "VMCS_GUEST_GS_ACCESS_RIGHTS = 0x481e"
definition VMCS_GUEST_LDTR_ACCESS_RIGHTS :: u64 where [hv_const]: "VMCS_GUEST_LDTR_ACCESS_RIGHTS = 0x4820"
definition VMCS_UNUSABLE_SEGMENT :: u64 where [hv_const]: "VMCS_UNUSABLE_SEGMENT = 0x10000"
definition VMCS_GUEST_TR_ACCESS_RIGHTS :: u64 where [hv_const]: "VMCS_GUEST_TR_ACCESS_RIGHTS = 0x4822"
definition VMCS_GUEST_GDTR_BASE :: u64 where [hv_const]: "VMCS_GUEST_GDTR_BASE = 0x6816"
definition VMCS_GUEST_GDTR_LIMIT :: u64 where [hv_const]: "VMCS_GUEST_GDTR_LIMIT = 0x4810"
definition VMCS_GUEST_IDTR_BASE :: u64 where [hv_const]: "VMCS_GUEST_IDTR_BASE = 0x6818"
definition VMCS_GUEST_IDTR_LIMIT :: u64 where [hv_const]: "VMCS_GUEST_IDTR_LIMIT = 0x4812"
definition VMCS_GUEST_IA32_SYSENTER_ESP :: u64 where [hv_const]: "VMCS_GUEST_IA32_SYSENTER_ESP = 0x6824"
definition VMCS_GUEST_IA32_SYSENTER_EIP :: u64 where [hv_const]: "VMCS_GUEST_IA32_SYSENTER_EIP = 0x6826"
definition VMCS_GUEST_IA32_SYSENTER_CS :: u64 where [hv_const]: "VMCS_GUEST_IA32_SYSENTER_CS = 0x482a"
definition VMCS_GUEST_DR7 :: u64 where [hv_const]: "VMCS_GUEST_DR7 = 0x681a"
definition VMCS_GUEST_IA32_DEBUGCTL :: u64 where [hv_const]: "VMCS_GUEST_IA32_DEBUGCTL = 0x2802"
definition VMCS_GUEST_ACTIVITY_STATE :: u64 where [hv_const]: "VMCS_GUEST_ACTIVITY_STATE = 0x4826"
definition VMCS_GUEST_INTERRUPTIBILITY_STATE :: u64 where [hv_const]: "VMCS_GUEST_INTERRUPTIBILITY_STATE = 0x4824"
definition VMCS_GUEST_PENDING_DEBUG_EXCEPTIONS :: u64 where [hv_const]: "VMCS_GUEST_PENDING_DEBUG_EXCEPTIONS = 0x6822"
definition VMCS_GUEST_VMCS_LINK_POINTER :: u64 where [hv_const]: "VMCS_GUEST_VMCS_LINK_POINTER = 0x2800"
definition VMCS_INVALID_LINK_POINTER :: u64 where [hv_const]: "VMCS_INVALID_LINK_POINTER = 0xffffffffffffffff"

section \<open>The operations\<close>

definition vmx_ensure_allowed_bits :: "hv_state \<Rightarrow> u64 \<Rightarrow> u32 \<Rightarrow> u32" where
  "vmx_ensure_allowed_bits s msr requested =
     (let msr_value = rdmsr s (ucast msr);
          allowed_zeros = ucast (msr_value AND 0xffffffff);
          allowed_ones = ucast (drop_bit 32 msr_value)
      in (requested OR allowed_zeros) AND allowed_ones)"

text \<open>The descriptor table of the guest is read through its pointer as if it were the host's.\<close>

definition vmx_read_segment_access_right_from_gdt :: "hv_state \<Rightarrow> u16 \<Rightarrow> u64 \<Rightarrow> u32 res" where
  "vmx_read_segment_access_right_from_gdt s selector gdt = (case gdt_heap s gdt of
     None \<Rightarrow> Inl (Fault ''gdt'')
   | Some t \<Rightarrow> if unat (drop_bit 3 selector) < length t
       then let d = t ! unat (drop_bit 3 selector) in
         Inr (push_bit 8 (ucast (flags d AND 0xf0)) OR ucast (access d))
       else Inl (Fault ''gdt''))"

type_synonym vmcs_field = "u64 \<times> u64 \<times> u64"

definition vmcs_control_fields :: "u64 \<Rightarrow> vmx_initial_vmcs_config_t \<Rightarrow> vmcs_field list" where
  "vmcs_control_fields bitmaps config =
    [(VMCS_CF_PRIMARY_PROCESSOR_BASED_VM_EXECUTION_CONTROLS, VMCS_CF_PPBVMEC_HLT_EXITING OR
      VMCS_CF_PPBVMEC_UNCONDITIONAL_IO_EXITING OR VMCS_CF_PPBVMEC_USE_MSR_BITMAPS OR
      VMCS_CF_PPBVMEC_ACTIVATE_SECONDARY_CONTROLS, IA32_VMX_PROCBASED_CTLS),
     (VMCS_CF_SECONDARY_PROCESSOR_BASED_VM_EXECUTION_CONTROLS, VMCS_CF_SPBVMEC_ENABLE_EPT OR
      VMCS_CF_SPBVMEC_UNRESTRICTED_GUEST OR VMCS_CF_SPBVMEC_ENABLE_INVPCID OR
      VMCS_CF_SPBVMEC_ENABLE_XSAVES_XRSTORS, IA32_VMX_PROCBASED_CTLS2),
     (VMCS_CF_ADDRESS_OF_MSR_BITMAPS, bitmaps, 0), (VMCS_CF_XSS_EXITING_BITMAP, 0, 0),
     (VMCS_CF_EPT_POINTER, (eptp config AND VMCS_CF_EPTP_PHYSICAL_ADDRESS_PML4) OR
      VMCS_CF_EPTP_PAGE_WALK_LENGTH_4 OR VMCS_CF_EPTP_WRITE_BACK, 0),
     (VMCS_CF_PIN_BASED_VM_EXECUTION_CONTROLS, 0, IA32_VMX_PINBASED_CTLS),
     (VMCS_CF_PRIMARY_VM_EXIT_CONTROLS, VMCS_CF_VMEX_HOST_ADDRESS_SPACE_SIZE OR VMCS_CF_VMEX_SAVE_IA32_EFER
      OR VMCS_CF_VMEX_LOAD_IA32_EFER, IA32_VMX_EXIT_CTLS),
     (VMCS_CF_VM_EXIT_MSR_STORE_COUNT, 0, 0), (VMCS_CF_VM_EXIT_MSR_LOAD_COUNT, 0, 0),
     (VMCS_CF_EXCEPTION_BITMAP, 0, 0), (VMCS_CF_PAGE_FAULT_ERROR_CODE_MASK, 0, 0),
     (VMCS_CF_PAGE_FAULT_ERROR_CODE_MATCH, 0, 0),
     (VMCS_CF_VM_ENTRY_CONTROLS, VMCS_CF_VMEN_IA_32E_MODE_GUEST OR VMCS_CF_VMEN_LOAD_IA32_EFER, IA32_VMX_ENTRY_CTLS),
     (VMCS_CF_VM_ENTRY_MSR_LOAD_COUNT, 0, 0), (VMCS_CF_VM_ENTRY_INTERRUPTION_INFORMATION_FIELD, 0, 0),
     (VMCS_CF_CR3_TARGET_COUNT, 0, 0), (VMCS_CF_CR0_GUEST_HOST_MASK, 0, 0), (VMCS_CF_CR0_READ_SHADOW, 0, 0),
     (VMCS_CF_CR4_GUEST_HOST_MASK, CR4_VMXE, 0), (VMCS_CF_CR4_READ_SHADOW, CR4_VMXE, 0)]"

definition vmcs_host_fields :: "u64 \<Rightarrow> hv_state \<Rightarrow> vmcs_field list" where
  "vmcs_host_fields vmx_vmexit_address s =
    [(VMCS_HOST_ES, ucast RKHV_DS, 0), (VMCS_HOST_CS, ucast RKHV_CS, 0), (VMCS_HOST_SS, ucast RKHV_DS, 0),
     (VMCS_HOST_DS, ucast RKHV_DS, 0), (VMCS_HOST_FS, ucast RKHV_DS, 0), (VMCS_HOST_GS, ucast RKHV_DS, 0),
     (VMCS_HOST_TR, ucast RKHV_DS, 0), (VMCS_HOST_FS_BASE, 0, 0), (VMCS_HOST_GS_BASE, 0, 0),
     (VMCS_HOST_TR_BASE, 0, 0), (VMCS_HOST_CR0, cpu_cr0 (cpu s), 0), (VMCS_HOST_CR3, cpu_cr3 (cpu s), 0),
     (VMCS_HOST_CR4, cpu_cr4 (cpu s), 0), (VMCS_HOST_GDTR_BASE, gdtr_offset (segments_sgdt s), 0),
     (VMCS_HOST_IDTR_BASE, idtr_offset (interrupts_sidt s), 0), (VMCS_HOST_RSP, RKHV_STACK_TOP, 0),
     (VMCS_HOST_RIP, vmx_vmexit_address, 0), (VMCS_HOST_IA32_SYSENTER_ESP, 0, 0),
     (VMCS_HOST_IA32_SYSENTER_EIP, 0, 0), (VMCS_HOST_IA32_EFER, rdmsr s IA32_EFER, 0)]"

definition vmcs_guest_fields :: "u32 \<Rightarrow> u32 \<Rightarrow> vmx_initial_guest_state_t \<Rightarrow> vmcs_field list" where
  "vmcs_guest_fields ds_access cs_access g =
    [(VMCS_GUEST_ES, ucast (guest_ds g), 0), (VMCS_GUEST_CS, ucast (guest_cs g), 0),
     (VMCS_GUEST_SS, ucast (guest_ds g), 0), (VMCS_GUEST_DS, ucast (guest_ds g), 0),
     (VMCS_GUEST_FS, ucast (guest_ds g), 0), (VMCS_GUEST_GS, ucast (guest_ds g), 0), (VMCS_GUEST_TR, 0, 0),
     (VMCS_GUEST_LDTR, 0, 0), (VMCS_GUEST_FS_BASE, 0, 0), (VMCS_GUEST_GS_BASE, 0, 0),
     (VMCS_GUEST_TR_BASE, 0, 0), (VMCS_GUEST_LDTR_BASE, 0, 0), (VMCS_GUEST_CS_BASE, 0, 0),
     (VMCS_GUEST_SS_BASE, 0, 0), (VMCS_GUEST_DS_BASE, 0, 0), (VMCS_GUEST_ES_BASE, 0, 0),
     (VMCS_GUEST_FS_LIMIT, 0xffffffff, 0), (VMCS_GUEST_GS_LIMIT, 0xffffffff, 0),
     (VMCS_GUEST_CS_LIMIT, 0xffffffff, 0), (VMCS_GUEST_SS_LIMIT, 0xffffffff, 0),
     (VMCS_GUEST_DS_LIMIT, 0xffffffff, 0), (VMCS_GUEST_ES_LIMIT, 0xffffffff, 0),
     (VMCS_GUEST_LDTR_LIMIT, 0, 0), (VMCS_GUEST_TR_LIMIT, 0, 0),
     (VMCS_GUEST_ES_ACCESS_RIGHTS, ucast ds_access, 0), (VMCS_GUEST_CS_ACCESS_RIGHTS, ucast cs_access, 0),
     (VMCS_GUEST_SS_ACCESS_RIGHTS, ucast ds_access, 0), (VMCS_GUEST_DS_ACCESS_RIGHTS, ucast ds_access, 0),
     (VMCS_GUEST_FS_ACCESS_RIGHTS, ucast ds_access, 0), (VMCS_GUEST_GS_ACCESS_RIGHTS, ucast ds_access, 0),
     (VMCS_GUEST_LDTR_ACCESS_RIGHTS, VMCS_UNUSABLE_SEGMENT, 0),
     (VMCS_GUEST_TR_ACCESS_RIGHTS, ucast GDT_SEGMENT_DESCRIPTOR_ACCESS_PRESENT OR ucast
      GDT_SEGMENT_DESCRIPTOR_ACCESS_SYSTEM OR ucast GDT_SEGMENT_DESCRIPTOR_SYSTEM_TYPE_TSS_BUSY, 0),
     (VMCS_GUEST_CR0, guest_cr0 g, 0), (VMCS_GUEST_CR3, guest_cr3 g, 0), (VMCS_GUEST_CR4, guest_cr4 g, 0),
     (VMCS_GUEST_GDTR_BASE, gdtr_offset (guest_gdtr g), 0),
     (VMCS_GUEST_GDTR_LIMIT, ucast (gdtr_size (guest_gdtr g)), 0),
     (VMCS_GUEST_IDTR_BASE, idtr_offset (guest_idtr g), 0),
     (VMCS_GUEST_IDTR_LIMIT, ucast (idtr_size (guest_idtr g)), 0), (VMCS_GUEST_RSP, guest_rsp g, 0),
     (VMCS_GUEST_RIP, guest_rip g, 0), (VMCS_GUEST_RFLAGS, RFLAGS_RESERVED, 0),
     (VMCS_GUEST_IA32_SYSENTER_ESP, 0, 0), (VMCS_GUEST_IA32_SYSENTER_EIP, 0, 0),
     (VMCS_GUEST_IA32_SYSENTER_CS, 0, 0), (VMCS_GUEST_IA32_EFER, guest_ia32_efer g, 0),
     (VMCS_GUEST_DR7, 0, 0), (VMCS_GUEST_IA32_DEBUGCTL, 0, 0), (VMCS_GUEST_ACTIVITY_STATE, 0, 0),
     (VMCS_GUEST_INTERRUPTIBILITY_STATE, 0, 0), (VMCS_GUEST_PENDING_DEBUG_EXCEPTIONS, 0, 0),
     (VMCS_GUEST_VMCS_LINK_POINTER, VMCS_INVALID_LINK_POINTER, 0)]"

text \<open>The body of the loop over the table.\<close>

definition vmcs_write_field :: "vmcs_field \<Rightarrow> hv_state \<Rightarrow> hv_state res" where
  "vmcs_write_field f s = (case f of (field_encoding, value, allowed_msr) \<Rightarrow>
     vmx_vmwrite field_encoding
       (if allowed_msr \<noteq> 0 then ucast (vmx_ensure_allowed_bits s allowed_msr (ucast value)) else value) s)"

primrec vmcs_write_fields :: "vmcs_field list \<Rightarrow> hv_state \<Rightarrow> hv_state res" where
  "vmcs_write_fields [] s = Inr s"
| "vmcs_write_fields (f # fs) s = bnd (vmcs_write_field f s) (vmcs_write_fields fs)"

text \<open>\<open>VMPTRLD\<close> makes a region the current VMCS.\<close>

definition vmx_vmptrld :: "u64 \<Rightarrow> hv_state \<Rightarrow> hv_state res" where
  "vmx_vmptrld region s = bnd (VMX_ASSERT s Vmptrld region) (\<lambda>_.
     Inr (s\<lparr>cpu := (cpu s)\<lparr>cpu_current_vmcs := region\<rparr>\<rparr>))"

definition vmx_create_initialized_vmcs :: "u64 \<Rightarrow> u64 \<Rightarrow> hv_state \<Rightarrow> hv_state res" where
  "vmx_create_initialized_vmcs vmx_vmexit_address vp s = bnd (get_vm s vp) (\<lambda>v.
     if vm_flags v AND VM_T_FLAG_VMCS_INITIALIZED \<noteq> 0
     then Inl (Panic ''Trying to reinitialize an already initialized VMCS'')
     else
       bnd (vmx_get_free_vmcs_region s) (\<lambda>(region, s).
       let s = put_vm vp (v\<lparr>vmcs_region := region\<rparr>) s; config = vmcs_config v; g = guest_state config in
       bnd (VMX_ASSERT s Vmclear region) (\<lambda>_.
       bnd (vmx_vmptrld region s) (\<lambda>s.
       bnd (vmx_read_segment_access_right_from_gdt s (guest_ds g) (gdtr_offset (guest_gdtr g))) (\<lambda>ds_access.
       bnd (vmx_read_segment_access_right_from_gdt s (guest_cs g) (gdtr_offset (guest_gdtr g))) (\<lambda>cs_access.
       bnd (vmx_get_msr_bitmaps_page s) (\<lambda>(bitmaps, s).
       bnd (vmcs_write_fields (vmcs_control_fields bitmaps config @ vmcs_host_fields vmx_vmexit_address s @
              vmcs_guest_fields ds_access cs_access g) s) (\<lambda>s.
       bnd (get_vm s vp) (\<lambda>v.
       Inr (put_vm vp (v\<lparr>vm_flags := vm_flags v OR VM_T_FLAG_VMCS_INITIALIZED\<rparr>) s))))))))))"

section \<open>The bits of a control field\<close>

text \<open>
  An allowed-settings MSR is consistent when every bit it requires to be set may be set.  Then the
  value has every required bit, no forbidden bit, and agrees with the request where both are allowed.
\<close>

definition ctl_required :: "u64 \<Rightarrow> nat \<Rightarrow> bool" where
  "ctl_required x n \<longleftrightarrow> n < 32 \<and> bit x n"

definition ctl_allowed :: "u64 \<Rightarrow> nat \<Rightarrow> bool" where
  "ctl_allowed x n \<longleftrightarrow> n < 32 \<and> bit x (32 + n)"

lemma vmx_ensure_allowed_bits_bit:
  "bit (vmx_ensure_allowed_bits s msr requested) n \<longleftrightarrow>
     (bit requested n \<or> ctl_required (rdmsr s (ucast msr)) n) \<and> ctl_allowed (rdmsr s (ucast msr)) n"
proof -
  have m32: "x AND 0xffffffff = take_bit 32 x" for x :: u64 by (simp add: take_bit_eq_mask mask_eq_exp_minus_1)
  show ?thesis unfolding vmx_ensure_allowed_bits_def Let_def m32
    by (auto simp: bit_simps ctl_required_def ctl_allowed_def dest: bit_imp_le_length)
qed

section \<open>The fields of the VMCS\<close>

definition vmcs_value :: "hv_state \<Rightarrow> vmcs_field \<Rightarrow> u64" where
  "vmcs_value s f = (case f of (field_encoding, value, allowed_msr) \<Rightarrow>
     if allowed_msr \<noteq> 0 then ucast (vmx_ensure_allowed_bits s allowed_msr (ucast value)) else value)"

definition vmcs_set :: "hv_state \<Rightarrow> (u64 \<Rightarrow> u64) \<Rightarrow> hv_state" where
  "vmcs_set s m = s\<lparr>cpu := (cpu s)\<lparr>cpu_vmcs := (cpu_vmcs (cpu s))(cpu_current_vmcs (cpu s) := m)\<rparr>\<rparr>"

lemma vmcs_write_field_effect:
  assumes "vmcs_write_field f s = Inr s'"
  shows "s' = vmcs_set s ((cpu_vmcs (cpu s) (cpu_current_vmcs (cpu s)))(fst f := vmcs_value s f))"
  using assms by (cases f) (auto simp: vmcs_write_field_def vmx_vmwrite_def vmcs_set_def vmcs_value_def
    Let_def bnd_Inr_iff)

lemma vmcs_set_simps [simp]:
  "vmcs_value (vmcs_set s m) = vmcs_value s"
  "cpu_current_vmcs (cpu (vmcs_set s m)) = cpu_current_vmcs (cpu s)"
  "cpu_vmcs (cpu (vmcs_set s m)) (cpu_current_vmcs (cpu s)) = m"
  "vmcs_set (vmcs_set s m) m' = vmcs_set s m'"
  by (simp_all add: vmcs_set_def vmcs_value_def fun_eq_iff vmx_ensure_allowed_bits_def rdmsr_def)

lemma vmcs_write_fields_effect:
  "vmcs_write_fields fs s = Inr s' \<Longrightarrow>
   s' = vmcs_set s (fold (\<lambda>f m. m(fst f := vmcs_value s f)) fs (cpu_vmcs (cpu s) (cpu_current_vmcs (cpu s))))"
proof (induction fs arbitrary: s)
  case Nil
  then show ?case by (simp add: vmcs_set_def)
next
  case (Cons f fs)
  then obtain t where t: "vmcs_write_field f s = Inr t" "vmcs_write_fields fs t = Inr s'" by auto
  from Cons.IH [OF t(2)] show ?case unfolding vmcs_write_field_effect [OF t(1)] by simp
qed

lemma fold_upd_other: "x \<notin> fst ` set fs \<Longrightarrow> fold (\<lambda>f m. m(fst f := g f)) fs m x = m x"
  by (induction fs arbitrary: m) auto

lemma fold_upd_distinct:
  "distinct (map fst fs) \<Longrightarrow> f \<in> set fs \<Longrightarrow> fold (\<lambda>f m. m(fst f := g f)) fs m (fst f) = g f"
  by (induction fs arbitrary: m) (auto simp: fold_upd_other)

text \<open>No field occurs twice in the table.\<close>

lemma vmcs_fields_distinct:
  "distinct (map fst (vmcs_control_fields b c @ vmcs_host_fields a s @ vmcs_guest_fields d e g))"
  by (simp add: vmcs_control_fields_def vmcs_host_fields_def vmcs_guest_fields_def hv_const)

text \<open>
  A run of \<open>vmx_create_initialized_vmcs\<close> in its steps: \<open>s1\<close> after the region is taken, \<open>s2\<close> after the
  bitmaps are.
\<close>

lemma vmx_create_initialized_vmcsE:
  assumes "vmx_create_initialized_vmcs a vp s = Inr s'"
  obtains v region s0 s1 bitmaps s2 s3 ds cs where "get_vm s vp = Inr v" "vm_flags v AND VM_T_FLAG_VMCS_INITIALIZED = 0"
    "vmx_get_free_vmcs_region s = Inr (region, s0)"
    "s1 = (put_vm vp (v\<lparr>vmcs_region := region\<rparr>) s0)\<lparr>cpu := (cpu s0)\<lparr>cpu_current_vmcs := region\<rparr>\<rparr>"
    "vmx_read_segment_access_right_from_gdt s1 (guest_ds (guest_state (vmcs_config v)))
       (gdtr_offset (guest_gdtr (guest_state (vmcs_config v)))) = Inr ds"
    "vmx_read_segment_access_right_from_gdt s1 (guest_cs (guest_state (vmcs_config v)))
       (gdtr_offset (guest_gdtr (guest_state (vmcs_config v)))) = Inr cs"
    "vmx_get_msr_bitmaps_page s1 = Inr (bitmaps, s2)"
    "vmcs_write_fields (vmcs_control_fields bitmaps (vmcs_config v) @ vmcs_host_fields a s2 @
       vmcs_guest_fields ds cs (guest_state (vmcs_config v))) s2 = Inr s3"
    "\<exists>w. get_vm s3 vp = Inr w \<and> s' = put_vm vp (w\<lparr>vm_flags := vm_flags w OR VM_T_FLAG_VMCS_INITIALIZED\<rparr>) s3"
proof -
  have c: "cpu (put_vm vp w t) = cpu t" for w t by (simp add: put_vm_def)
  from assms show ?thesis
    by (auto simp: vmx_create_initialized_vmcs_def vmx_vmptrld_def Let_def c split: if_splits)
      (rule that [OF _ _ _ refl], assumption+, blast)
qed

lemma mm_page_is_free_vmcs_region:
  assumes "get_vm s vp = Inr v" "vm_flags v AND VM_T_FLAG_VMCS_INITIALIZED = 0" "distinct (map fst (vm_manager_vm_list s))"
  shows "mm_page_is_free (put_vm vp (v\<lparr>vmcs_region := region\<rparr>) s) = mm_page_is_free s"
proof -
  let ?s = "put_vm vp (v\<lparr>vmcs_region := region\<rparr>) s"
  have "mm_page_used_by_vm (v\<lparr>vmcs_region := region\<rparr>) = mm_page_used_by_vm v"
    using assms(2) by (simp add: fun_eq_iff mm_page_used_by_vm_def)
  moreover have "w = v" if "(vp, w) \<in> set (vm_manager_vm_list s)" for w
    using that assms(1,3) get_vm_map_of map_of_eq_Some_iff by fastforce
  ultimately have e: "mm_page_used_by_vm (if q = vp then v\<lparr>vmcs_region := region\<rparr> else w) = mm_page_used_by_vm w"
    if "(q, w) \<in> set (vm_manager_vm_list s)" for q w using that by auto
  have "mm_page_used_by_vm_manager ?s = mm_page_used_by_vm_manager s"
  proof
    fix p
    have "list_ex (\<lambda>(q, w). mm_page_used_by_vm w p) (vm_manager_vm_list ?s) =
        list_ex (\<lambda>(q, w). mm_page_used_by_vm (if q = vp then v\<lparr>vmcs_region := region\<rparr> else w) p) (vm_manager_vm_list s)"
      by (simp add: put_vm_def list_ex_iff case_prod_unfold)
    also have "\<dots> = list_ex (\<lambda>(q, w). mm_page_used_by_vm w p) (vm_manager_vm_list s)"
      by (rule list_ex_cong [OF refl]) (simp only: split_paired_all split_conv e)
    finally show "mm_page_used_by_vm_manager ?s p = mm_page_used_by_vm_manager s p"
      by (simp add: mm_page_used_by_vm_manager_def)
  qed
  moreover have "mm_page_used_by_chainload ?s = mm_page_used_by_chainload s"
    "mm_page_used_by_arena ?s = mm_page_used_by_arena s" "mm_page_used_by_vmx ?s = mm_page_used_by_vmx s"
    by (simp_all add: fun_eq_iff mm_page_used_by_chainload_def mm_page_used_by_arena_def mm_page_used_by_vmx_def)
  ultimately show ?thesis by (intro ext) (simp only: mm_page_is_free_def)
qed

text \<open>
  The region is not yet marked as used when the bitmaps page is requested, and the search for a free page
  starts at the last page found: on the first machine both are the same page, and the initialization of
  the bitmaps overwrites the revision identifier.
\<close>

lemma vmx_msr_init_bitmaps_start:
  "read_le 4 (vmx_msr_init_bitmaps p m) p = 0"
proof (rule read_le_zero)
  fix k :: nat assume k: "k < 4"
  have "\<not> bit (vmx_msr_init_bitmaps p m (p + of_nat k)) j" for j
  proof (cases "j < 8")
    case True
    then have "\<not> page_bit (vmx_msr_init_bitmaps p m) p (8 * k + j)"
      using k by (subst vmx_msr_init_bitmaps_page_bit) simp_all
    with True show ?thesis by (simp add: page_bit_def)
  next
    case False
    then show ?thesis using bit_imp_le_length by fastforce
  qed
  then show "vmx_msr_init_bitmaps p m (p + of_nat k) = 0" by (intro bit_word_eqI) simp
qed

lemma vmcs_write_fields_frame:
  assumes "vmcs_write_fields fs s = Inr s'"
  shows "phys s' = phys s" "get_vm s' = get_vm s" "msr_bitmaps_page s' = msr_bitmaps_page s"
    "msr_bitmaps_page_valid s' = msr_bitmaps_page_valid s"
  unfolding vmcs_write_fields_effect [OF assms] by (simp_all add: vmcs_set_def get_vm_def fun_eq_iff)

lemma vmx_create_initialized_vmcs_shares:
  assumes "vmx_create_initialized_vmcs a vp s = Inr s'" "mm_position_ok s" "distinct (map fst (vm_manager_vm_list s))"
    and "\<not> msr_bitmaps_page_valid s"
  shows "\<exists>v'. get_vm s' vp = Inr v' \<and> msr_bitmaps_page_valid s' \<and> msr_bitmaps_page s' = vmcs_region v' \<and>
    read_le 4 (phys s') (vmcs_region v') = 0"
proof -
  obtain v region s0 s1 bitmaps s2 s3 fs where r: "get_vm s vp = Inr v" "vm_flags v AND VM_T_FLAG_VMCS_INITIALIZED = 0"
    "vmx_get_free_vmcs_region s = Inr (region, s0)"
    "s1 = (put_vm vp (v\<lparr>vmcs_region := region\<rparr>) s0)\<lparr>cpu := (cpu s0)\<lparr>cpu_current_vmcs := region\<rparr>\<rparr>"
    "vmx_get_msr_bitmaps_page s1 = Inr (bitmaps, s2)" "vmcs_write_fields fs s2 = Inr s3"
    "\<exists>w. get_vm s3 vp = Inr w \<and> s' = put_vm vp (w\<lparr>vm_flags := vm_flags w OR VM_T_FLAG_VMCS_INITIALIZED\<rparr>) s3"
    by (rule vmx_create_initialized_vmcsE [OF assms(1)]) (rule that)
  obtain t where t: "mm_get_free_page s = Inr (region, t)"
    "s0 = t\<lparr>phys := write_le 4 (phys t) region (vmx_get_vmcs_revision_identifier t)\<rparr>"
    using r(3) by (auto simp: vmx_get_free_vmcs_region_def bnd_Inr_iff)
  obtain i j where "t = s\<lparr>last_returned_region_index := i, last_returned_page_index := j\<rparr>"
    using mm_get_free_pageE [OF t(1) assms(2)] by metis
  with t(2) r(1) assms(3,4) have s0: "get_vm s0 vp = Inr v" "distinct (map fst (vm_manager_vm_list s0))"
    "\<not> msr_bitmaps_page_valid s0" by (simp_all add: get_vm_def)
  have "mm_page_is_free s1 = mm_page_is_free (put_vm vp (v\<lparr>vmcs_region := region\<rparr>) s0)"
    by (rule mm_page_is_free_cong) (simp_all add: r(4))
  then have free: "mm_page_is_free s1 = mm_page_is_free s0"
    using mm_page_is_free_vmcs_region [OF s0(1) r(2) s0(2)] by simp
  obtain s4 where s4: "vmx_get_msr_bitmaps_page s1 = Inr (region, s4)" "phys s4 = vmx_msr_init_bitmaps region (phys s1)"
    using vmcs_region_reused [OF r(3) assms(2,4) free] by (auto simp: r(4))
  then have s2: "s2 = s4" "bitmaps = region" using r(5) by simp_all
  have "\<not> msr_bitmaps_page_valid s1" using s0(3) by (simp add: r(4))
  then have m: "msr_bitmaps_page_valid s4" "msr_bitmaps_page s4 = region" "get_vm s4 = get_vm s1"
    using s4(1) by (auto simp: vmx_get_msr_bitmaps_page_def Let_def mm_get_free_page_def bnd_Inr_iff get_vm_def
      split: if_splits)
  note f = vmcs_write_fields_frame [OF r(6), unfolded s2]
  obtain w where w: "get_vm s3 vp = Inr w" "s' = put_vm vp (w\<lparr>vm_flags := vm_flags w OR VM_T_FLAG_VMCS_INITIALIZED\<rparr>) s3"
    using r(7) by blast
  have "get_vm s1 vp = Inr (v\<lparr>vmcs_region := region\<rparr>)"
    using get_put_vm [OF s0(1), of "v\<lparr>vmcs_region := region\<rparr>" vp] by (simp add: r(4) get_vm_def)
  then have "vmcs_region w = region" using w(1) f(2) m(3) by auto
  then show ?thesis
    using get_put_vm [OF w(1), of _ vp] f m s4(2) by (simp add: w(2) vmx_msr_init_bitmaps_start)
qed

text \<open>After the creation, every field of the three tables has its value in the region of the machine.\<close>

lemma vmcs_value_msr:
  "cpu_msr (cpu s') = cpu_msr (cpu s) \<Longrightarrow> vmcs_value s' f = vmcs_value s f"
  by (cases f) (simp add: vmcs_value_def vmx_ensure_allowed_bits_def rdmsr_def)

lemma vmx_get_msr_bitmaps_page_frame:
  assumes "vmx_get_msr_bitmaps_page s = Inr (p, s')"
  shows "cpu s' = cpu s" "get_vm s' = get_vm s"
  using assms
  by (auto simp: vmx_get_msr_bitmaps_page_def mm_get_free_page_def Let_def get_vm_def fun_eq_iff split: if_splits)

lemma vmx_create_initialized_vmcs_fields:
  assumes "vmx_create_initialized_vmcs a vp s = Inr s'"
  shows "\<exists>v bitmaps s2 ds cs. get_vm s vp = Inr v \<and> cpu_msr (cpu s2) = cpu_msr (cpu s) \<and>
    cpu s2 = (cpu s)\<lparr>cpu_current_vmcs := cpu_current_vmcs (cpu s')\<rparr> \<and>
    (\<forall>f \<in> set (vmcs_control_fields bitmaps (vmcs_config v) @ vmcs_host_fields a s2 @
         vmcs_guest_fields ds cs (guest_state (vmcs_config v))).
       cpu_vmcs (cpu s') (cpu_current_vmcs (cpu s')) (fst f) = vmcs_value s f)"
proof -
  obtain v region s0 s1 bitmaps s2 s3 ds cs where r: "get_vm s vp = Inr v"
    "vmx_get_free_vmcs_region s = Inr (region, s0)"
    "s1 = (put_vm vp (v\<lparr>vmcs_region := region\<rparr>) s0)\<lparr>cpu := (cpu s0)\<lparr>cpu_current_vmcs := region\<rparr>\<rparr>"
    "vmx_get_msr_bitmaps_page s1 = Inr (bitmaps, s2)"
    "vmcs_write_fields (vmcs_control_fields bitmaps (vmcs_config v) @ vmcs_host_fields a s2 @
       vmcs_guest_fields ds cs (guest_state (vmcs_config v))) s2 = Inr s3"
    "\<exists>w. get_vm s3 vp = Inr w \<and> s' = put_vm vp (w\<lparr>vm_flags := vm_flags w OR VM_T_FLAG_VMCS_INITIALIZED\<rparr>) s3"
    by (rule vmx_create_initialized_vmcsE [OF assms]) (rule that)
  have "cpu s0 = cpu s"
    using r(2) by (auto simp: vmx_get_free_vmcs_region_def mm_get_free_page_def split: if_splits)
  then have c2: "cpu s2 = (cpu s)\<lparr>cpu_current_vmcs := region\<rparr>"
    using vmx_get_msr_bitmaps_page_frame(1) [OF r(4)] by (simp add: r(3))
  have "cpu s' = cpu s3" using r(6) by (auto simp: put_vm_def)
  moreover note vmcs_write_fields_effect [OF r(5)]
  ultimately have c: "cpu_current_vmcs (cpu s') = region"
    "cpu_vmcs (cpu s') region f = fold (\<lambda>f m. m(fst f := vmcs_value s2 f)) (vmcs_control_fields bitmaps (vmcs_config v) @
      vmcs_host_fields a s2 @ vmcs_guest_fields ds cs (guest_state (vmcs_config v))) (cpu_vmcs (cpu s) region) f" for f
    by (simp_all add: vmcs_set_def c2)
  have val: "vmcs_value s2 = vmcs_value s" by (intro ext vmcs_value_msr) (simp add: c2)
  have "cpu_vmcs (cpu s') region (fst f) = vmcs_value s f"
    if "f \<in> set (vmcs_control_fields bitmaps (vmcs_config v) @ vmcs_host_fields a s2 @
         vmcs_guest_fields ds cs (guest_state (vmcs_config v)))" for f
    unfolding c val by (rule fold_upd_distinct [OF vmcs_fields_distinct that])
  then have "get_vm s vp = Inr v \<and> cpu_msr (cpu s2) = cpu_msr (cpu s) \<and>
    cpu s2 = (cpu s)\<lparr>cpu_current_vmcs := cpu_current_vmcs (cpu s')\<rparr> \<and>
    (\<forall>f \<in> set (vmcs_control_fields bitmaps (vmcs_config v) @ vmcs_host_fields a s2 @
         vmcs_guest_fields ds cs (guest_state (vmcs_config v))).
       cpu_vmcs (cpu s') (cpu_current_vmcs (cpu s')) (fst f) = vmcs_value s f)"
    using r(1) by (simp only: c(1)) (simp add: c2)
  then show ?thesis by blast
qed

lemma vmcs_write_fields_returns:
  "(\<And>i f. cpu_vmx_error (cpu s) i f = 0) \<Longrightarrow> \<exists>s'. vmcs_write_fields fs s = Inr s'"
proof (induction fs arbitrary: s)
  case Nil
  then show ?case by simp
next
  case (Cons f fs)
  have "\<exists>t. vmcs_write_field f s = Inr t \<and> cpu_vmx_error (cpu t) = cpu_vmx_error (cpu s)"
    using Cons.prems by (simp add: vmcs_write_field_def vmx_vmwrite_def VMX_ASSERT_def Let_def split: prod.split)
  with Cons.IH Cons.prems show ?case by (metis bnd_simps(2) vmcs_write_fields.simps(2))
qed

text \<open>The creation succeeds when the processor accepts every instruction and the selectors are in the table.\<close>

lemma vmx_create_initialized_vmcs_returns:
  assumes "get_vm s vp = Inr v" "vm_flags v AND VM_T_FLAG_VMCS_INITIALIZED = 0" "mm_get_free_page s = Inr (region, t)"
    and "mm_position_ok s" "distinct (map fst (vm_manager_vm_list s))" "\<not> msr_bitmaps_page_valid s"
    and "\<And>i f. cpu_vmx_error (cpu s) i f = 0"
    and "gdt_heap s (gdtr_offset (guest_gdtr (guest_state (vmcs_config v)))) = Some gdt"
    and "unat (drop_bit 3 (guest_ds (guest_state (vmcs_config v)))) < length gdt"
      "unat (drop_bit 3 (guest_cs (guest_state (vmcs_config v)))) < length gdt"
  shows "\<exists>s'. vmx_create_initialized_vmcs a vp s = Inr s'"
proof -
  let ?s0 = "t\<lparr>phys := write_le 4 (phys t) region (vmx_get_vmcs_revision_identifier t)\<rparr>"
  let ?p = "put_vm vp (v\<lparr>vmcs_region := region\<rparr>) ?s0"
  let ?s1 = "?p\<lparr>cpu := (cpu ?s0)\<lparr>cpu_current_vmcs := region\<rparr>\<rparr>"
  obtain i j where t: "t = s\<lparr>last_returned_region_index := i, last_returned_page_index := j\<rparr>"
    using mm_get_free_pageE [OF assms(3,4)] by metis
  have r: "vmx_get_free_vmcs_region s = Inr (region, ?s0)" by (simp add: vmx_get_free_vmcs_region_def assms(3))
  have g0: "get_vm ?s0 vp = Inr v" "distinct (map fst (vm_manager_vm_list ?s0))"
    using assms(1,5) by (simp_all add: t get_vm_def)
  have "mm_page_is_free ?s1 = mm_page_is_free ?p" by (rule mm_page_is_free_cong) simp_all
  then have free: "mm_page_is_free ?s1 = mm_page_is_free ?s0"
    using mm_page_is_free_vmcs_region [OF g0(1) assms(2) g0(2)] by simp
  obtain s2 where s2: "vmx_get_msr_bitmaps_page ?s1 = Inr (region, s2)"
    using vmcs_region_reused [OF r assms(4,6) free] by auto
  have c: "cpu (put_vm vp w u) = cpu u" "gdt_heap (put_vm vp w u) = gdt_heap u" for w u by (simp_all add: put_vm_def)
  have e: "cpu_vmx_error (cpu s2) i f = 0" for i f
    using assms(7) by (simp add: vmx_get_msr_bitmaps_page_frame(1) [OF s2] t)
  have a: "\<exists>x. vmx_read_segment_access_right_from_gdt ?s1 sel (gdtr_offset (guest_gdtr (guest_state (vmcs_config v)))) = Inr x"
    if "unat (drop_bit 3 sel) < length gdt" for sel
    using assms(8) that by (simp add: vmx_read_segment_access_right_from_gdt_def c t Let_def)
  obtain ds cs where ac:
    "vmx_read_segment_access_right_from_gdt ?s1 (guest_ds (guest_state (vmcs_config v))) (gdtr_offset (guest_gdtr (guest_state (vmcs_config v)))) = Inr ds"
    "vmx_read_segment_access_right_from_gdt ?s1 (guest_cs (guest_state (vmcs_config v))) (gdtr_offset (guest_gdtr (guest_state (vmcs_config v)))) = Inr cs"
    using a [OF assms(9)] a [OF assms(10)] by blast
  obtain s3 where s3: "vmcs_write_fields (vmcs_control_fields region (vmcs_config v) @ vmcs_host_fields a s2 @
      vmcs_guest_fields ds cs (guest_state (vmcs_config v))) s2 = Inr s3"
    using vmcs_write_fields_returns [OF e] by blast
  note vmx_get_msr_bitmaps_page_frame(2) [OF s2]
  moreover have "get_vm ?s1 vp = Inr (v\<lparr>vmcs_region := region\<rparr>)"
    using get_put_vm [OF g0(1), of "v\<lparr>vmcs_region := region\<rparr>" vp] by (simp add: get_vm_def)
  ultimately have g3: "get_vm s3 vp = Inr (v\<lparr>vmcs_region := region\<rparr>)"
    using vmcs_write_fields_frame(2) [OF s3] by simp
  show ?thesis
    using assms(1,2,7) r s2 ac s3 g3
    by (simp add: vmx_create_initialized_vmcs_def vmx_vmptrld_def VMX_ASSERT_def c t)
qed

end
