(* ===== verification/Demo_Run.thy ===== *)
theory Demo_Run
  imports Demo_State Vmcs_Init
begin

text \<open>
  Concrete states for the theorems on a running machine: the machine of \<open>demo_mapped\<close>, current, with a
  serial port at \<open>COM1\<close> and a pending \<open>CPUID\<close> exit; and, for the setup of a guest's own page tables, a
  machine with 4 MiB of memory that its extended page tables map with two large pages.
\<close>

section \<open>A running machine with a serial port\<close>

definition demo_device :: u64 where "demo_device = 0x100001f9020"
definition demo_uart :: u64 where "demo_uart = 0x100001f9088"

definition demo_exit_fields :: "u64 \<Rightarrow> u64" where
  "demo_exit_fields = (\<lambda>_. 0)(VMCS_EXIT_REASON := VMEXIT_REASON_CPUID, VMCS_VM_EXIT_INSTRUCTION_LENGTH := 2,
     VMCS_GUEST_RIP := 0x7c00)"

text \<open>The device is on the list of the machine as \<open>vm_manager_register_device\<close> leaves it.\<close>

definition demo_run_vm :: vm_t where
  "demo_run_vm = vm_with_ept (demo_machine 1 []) 0x1fe000 [blk 0x1fb000 4 VM_PAGE_TYPE_EPT False,
     blk 0x1fa000 1 VM_PAGE_TYPE_GUEST_PHYSICAL False, blk 0x1fb000 0 VM_PAGE_TYPE_EPT True]\<lparr>vm_devices := demo_device\<rparr>"

definition demo_serial :: hv_state where
  "demo_serial = demo_mapped\<lparr>vm_manager_current_vm := demo_vp,
     dev_heap := [demo_device \<mapsto> vmd_8250uart_device COM1 demo_uart],
     uart_heap := [demo_uart \<mapsto> vmd_8250uart_new COM1 ''COM1''],
     cpu := demo_cpu\<lparr>cpu_vmcs := \<lambda>_. demo_exit_fields\<rparr>\<rparr>"

definition demo_run :: hv_state where
  "demo_run = put_vm demo_vp demo_run_vm demo_serial"

lemma demo_serial_frame:
  "hv_ok demo_serial as = hv_ok demo_mapped as" "get_vm demo_serial = get_vm demo_mapped"
  by (rule hv_ok_frame(1,2); simp add: demo_serial_def)+

lemma demo_mapped_vm:
  "get_vm demo_mapped demo_vp = Inr (demo_run_vm\<lparr>vm_devices := 0\<rparr>)"
  by (simp add: demo_mapped_def demo_with_root_def demo_run_vm_def vm_with_ept_def demo_machine_def vm_zero_def)

lemma demo_run_vm_simps [simp]:
  "vm_name demo_run_vm = ''vm''" "vmcs_region demo_run_vm = 0" "vm_devices demo_run_vm = demo_device"
  by (simp_all add: demo_run_vm_def vm_with_ept_def demo_machine_def vm_zero_def)

lemma demo_run_simps [simp]:
  "get_vm demo_run demo_vp = Inr demo_run_vm" "vm_manager_current_vm demo_run = demo_vp"
  "cpu demo_run = demo_cpu\<lparr>cpu_vmcs := \<lambda>_. demo_exit_fields\<rparr>"
  "dev_heap demo_run = [demo_device \<mapsto> vmd_8250uart_device COM1 demo_uart]"
  "uart_heap demo_run = [demo_uart \<mapsto> vmd_8250uart_new COM1 ''COM1'']"
  "phys demo_run = demo_tables" "console demo_run = []"
proof -
  have "get_vm demo_serial demo_vp = Inr (demo_run_vm\<lparr>vm_devices := 0\<rparr>)"
    by (simp add: demo_serial_frame demo_mapped_vm)
  from get_put_vm [OF this] show "get_vm demo_run demo_vp = Inr demo_run_vm" by (simp add: demo_run_def)
qed (simp_all add: demo_run_def demo_serial_def put_vm_def demo_mapped_def demo_with_root_def demo_st_def demo_boot_def)

lemma vm_walk_devices [simp]: "vm_walk m (v\<lparr>vm_devices := d\<rparr>) x = vm_walk m v x"
  by (cases "ept_initialized v") (simp_all add: vm_walk_def)

lemma demo_running: "\<exists>ps. vm_running [demo_arena] demo_vp demo_run_vm ps demo_run \<and> length ps = 1"
proof -
  obtain v ps where v: "get_vm demo_mapped demo_vp = Inr v" "guest_memory_is (phys demo_mapped) v ps"
    "hv_ok demo_mapped [demo_arena]" "length ps = unat (1 :: u64)"
    using vm_manager_allocate_guest_physical_memory_ok [OF demo_allocate demo_vm_ok demo_vm_machine] by auto
  have e: "v = demo_run_vm\<lparr>vm_devices := 0\<rparr>" using v(1) by (simp add: demo_mapped_vm)
  have "phys demo_mapped = demo_tables" by (simp add: demo_mapped_def demo_with_root_def)
  then have m: "guest_mapped (phys demo_run) demo_run_vm ps"
    using guest_memory_is_mapped [OF v(2)] by (simp add: e guest_mapped_def)
  have "hv_ok demo_serial [demo_arena]" "get_vm demo_serial demo_vp = Inr (demo_run_vm\<lparr>vm_devices := 0\<rparr>)"
    using v(3) by (simp_all add: demo_serial_frame demo_mapped_vm)
  from hv_ok_put_same [OF this] have ok: "hv_ok demo_run [demo_arena]" by (simp add: demo_run_def)
  have "device_ok (dev_heap demo_run) (uart_heap demo_run) demo_device"
    by (simp add: device_ok_def vmd_8250uart_device_def vmd_8250uart_new_def uart_ok_def hv_const)
  then have "machine_io_ok demo_run demo_vp"
    unfolding machine_io_ok_def
    by (intro exI [of _ demo_run_vm] exI [of _ "[demo_device]"])
      (simp add: demo_device_def vmd_8250uart_device_def)
  moreover have "\<exists>x. get_vm demo_run demo_vp = Inr (demo_run_vm\<lparr>permanent_xcr0 := x\<rparr>)"
    by (rule exI [of _ "permanent_xcr0 demo_run_vm"]) simp
  ultimately show ?thesis using ok m v(4) by (auto simp: vm_running_def)
qed

text \<open>The state of an exit in long mode, with the page tables of \<open>demo_big\<close>.\<close>

definition demo_vs :: vmx_vmexit_state_t where
  "demo_vs = \<lparr>st_vm = demo_vp, reg_state = vmx_gpr_zero, rip = 0x7c00, rsp = 0, rflags = 2,
     cr0 = 0x80000033, cr3 = 0x3ff000, cr4 = 0x2020, msrs = vmx_msr_zero\<lparr>ia32_efer := 0x500\<rparr>\<rparr>"

text \<open>The handler answers \<open>CPUID\<close>.\<close>

lemma demo_no_error [simp]: "cpu_vmx_error demo_cpu i f = 0"
  by (simp add: demo_cpu_def)

lemmas demo_exit_defs = vmx_vmexit_handler_def vmx_vmexit_enter_def vmx_vmexit_dispatch_def vmx_vmexit_leave_def
  vm_manager_get_current_vm_def vmx_vmread_def vmx_vmwrite_def VMX_ASSERT_def Let_def
  vm_emulated_instruction_cpuid_def vmx_vmexit_advance_def vmx_msr_vmexit_def vmx_msr_vmresume_def
  X_VMCS_vmexit_def X_RWBK_vmexit_def X_VMCS_vmresume_def X_RWBK_vmresume_def
  VMX_MSR_LIST_VMCS_def VMX_MSR_LIST_RWBK_def rdmsr_def wrmsr_def

lemma demo_exit: "\<exists>regs s. vmx_vmexit_handler vmx_gpr_zero demo_run = Inr (demo_vp, regs, s)"
proof -
  have nz: "demo_vp \<noteq> 0" "cpu_current_vmcs demo_cpu = 0" by (simp_all add: demo_vp_def demo_cpu_def)
  show ?thesis by (simp add: demo_exit_defs nz demo_exit_fields_def hv_const split: prod.split)
qed

lemma demo_serial_at: "serial_at demo_run demo_vp COM1 demo_run_vm demo_uart (vmd_8250uart_new COM1 ''COM1'')"
proof -
  have d: "device_ok (dev_heap demo_run) (uart_heap demo_run) demo_device"
    by (simp add: device_ok_def vmd_8250uart_device_def vmd_8250uart_new_def uart_ok_def hv_const)
  have l: "dev_list (dev_heap demo_run) demo_device [demo_device]"
    by (simp add: demo_device_def vmd_8250uart_device_def)
  have t: "takes_port dev_outb_handler (dev_heap demo_run) COM1 demo_device"
    by (auto simp: takes_port_def vmd_8250uart_device_def hv_const intro: image_eqI [of _ _ 0])
  from vm_device_lookup_find [OF l, of "uart_heap demo_run" dev_outb_handler COM1] d t
  show ?thesis
    by (simp add: serial_at_def uart_at_def dlab_def vmd_8250uart_new_def vmd_8250uart_device_def uart_ok_def hv_const)
qed

text \<open>The serial port with its divisor latch selected.\<close>

definition demo_latch_uart :: vmd_8250uart_t where
  "demo_latch_uart = (vmd_8250uart_new COM1 ''COM1'')\<lparr>line_control_reg := 0x80\<rparr>"

definition demo_latch :: hv_state where
  "demo_latch = put_uart demo_uart demo_latch_uart demo_run"

lemma demo_latch_facts:
  "uart_at demo_latch demo_uart = Inr demo_latch_uart" "get_vm demo_latch demo_vp = Inr demo_run_vm"
  "dlab demo_latch_uart" "port_base demo_latch_uart = COM1"
  by (simp_all add: demo_latch_def dlab_def demo_latch_uart_def hv_const vmd_8250uart_new_def)

section \<open>The creation of a VMCS\<close>

text \<open>The machine of \<open>demo_vm\<close>, whose initial state names the descriptor table at address 0.\<close>

definition demo_gdt :: hv_state where
  "demo_gdt = demo_vm\<lparr>gdt_heap := [0 \<mapsto> segments_GDT]\<rparr>"

lemma mm_get_free_page_gdt:
  assumes "mm_get_free_page s = Inr (p, s')"
  shows "mm_get_free_page (s\<lparr>gdt_heap := g\<rparr>) = Inr (p, s'\<lparr>gdt_heap := g\<rparr>)"
proof -
  have "mm_page_is_free (s\<lparr>gdt_heap := g\<rparr>) = mm_page_is_free s" by (rule mm_page_is_free_cong) simp_all
  moreover have "mm_start_position (s\<lparr>gdt_heap := g\<rparr>) = mm_start_position s" by (simp add: mm_start_position_def)
  ultimately show ?thesis using assms by (cases s) (auto simp: mm_get_free_page_def split: if_splits)
qed

lemma demo_create_vmcs: "\<exists>s'. vmx_create_initialized_vmcs a demo_vp demo_gdt = Inr s'"
proof -
  have "mm_get_free_page demo_vm = Inr (0x1fe000, demo_st 272 254 (\<lambda>_. 0) [(demo_vp, demo_machine 0 [])])"
    unfolding demo_vm_def by (rule demo_take [of 272 255, simplified]) (simp_all add: demo_use_defs)
  from mm_get_free_page_gdt [OF this] have free: "mm_get_free_page demo_gdt = Inr (0x1fe000,
      (demo_st 272 254 (\<lambda>_. 0) [(demo_vp, demo_machine 0 [])])\<lparr>gdt_heap := [0 \<mapsto> segments_GDT]\<rparr>)"
    by (simp add: demo_gdt_def)
  show ?thesis
  proof (rule vmx_create_initialized_vmcs_returns [OF _ _ free, where gdt = segments_GDT])
    show "get_vm demo_gdt demo_vp = Inr (demo_machine 0 [])" by (simp add: demo_gdt_def demo_vm_def get_vm_def)
    show "mm_position_ok demo_gdt"
      using hv_ok_inv [OF demo_vm_ok] by (simp add: demo_gdt_def hv_inv_def mm_ok_def mm_position_ok_def)
    show "cpu_vmx_error (cpu demo_gdt) i f = 0" for i f by (simp add: demo_gdt_def demo_vm_def demo_st_def demo_boot_def)
    show "length segments_GDT > unat (drop_bit 3 (guest_ds (guest_state (vmcs_config (demo_machine 0 [])))))"
      "length segments_GDT > unat (drop_bit 3 (guest_cs (guest_state (vmcs_config (demo_machine 0 [])))))"
      by (simp_all add: demo_machine_def vm_zero_def segments_GDT_def)
  qed (simp_all add: demo_gdt_def demo_vm_def demo_machine_def vm_zero_def)
qed

end
