(* ===== verification/Demo_Paging.thy ===== *)
theory Demo_Paging
  imports Demo_State Guest_Paging
begin

text \<open>
  Machines whose memory is one block of pages that the extended page tables map with large pages: one
  with 4 MiB, the state on which the theorems about the guest's own page tables are applied.
\<close>

section \<open>A machine with one block of memory\<close>

definition demo_block :: "u64 \<Rightarrow> nat \<Rightarrow> u64 list" where
  "demo_block a n = map (\<lambda>i. a + 4096 * of_nat i) [0..<n]"

lemma demo_block_simps [simp]:
  "length (demo_block a n) = n" "i < n \<Longrightarrow> demo_block a n ! i = a + 4096 * of_nat i"
  "block_pages a n = mset (demo_block a n)"
  by (simp_all add: demo_block_def block_pages_def)

lemma demo_block_page:
  assumes "phys_page a" "unat a + 4096 * n \<le> 4503599627370496" "p \<in> set (demo_block a n)"
  shows "phys_page p" "unat a \<le> unat p" "unat p < unat a + 4096 * n"
proof -
  obtain i where i: "i < n" "p = a + 4096 * of_nat i" using assms(3) by (auto simp: demo_block_def)
  from block_page [OF assms(1,2) i(1)] i show "phys_page p" "unat a \<le> unat p" "unat p < unat a + 4096 * n" by simp_all
qed

lemma demo_block_distinct:
  assumes "phys_page a" "unat a + 4096 * n \<le> 4503599627370496"
  shows "distinct (demo_block a n)"
proof -
  have "inj_on (\<lambda>i. a + 4096 * of_nat i) {0..<n}"
  proof (rule inj_onI)
    fix i j assume ij: "i \<in> {0..<n}" "j \<in> {0..<n}" and e: "a + 4096 * of_nat i = a + 4096 * of_nat j"
    have "unat (a + 4096 * of_nat k) = unat a + 4096 * k" if "k < n" for k using block_page(1) [OF assms that] .
    with ij arg_cong [OF e, of unat] show "i = j" by simp
  qed
  then show ?thesis by (simp add: demo_block_def distinct_map)
qed

definition demo_block_vm :: "u64 \<Rightarrow> nat \<Rightarrow> u64 \<Rightarrow> nat \<Rightarrow> vm_t" where
  "demo_block_vm t c a n = vm_with_ept (demo_machine (of_nat n) []) 0x1fe000
     [blk t (of_nat c) VM_PAGE_TYPE_EPT False, blk a (of_nat n) VM_PAGE_TYPE_GUEST_PHYSICAL False]"

definition demo_block_st :: "phys_mem \<Rightarrow> vm_t \<Rightarrow> hv_state" where
  "demo_block_st m v = demo_st 344 250 m [(demo_vp, v)]"

text \<open>The state is ready for the setup when the tables are well formed and map the block.\<close>

lemma demo_block_ready:
  assumes "phys_page a" "0x400000 \<le> unat a" "unat a + 4096 * n \<le> 4503599627370496" "2 \<le> n" "n \<le> 68719476736"
    and "phys_page t" "0x1f0000 \<le> unat t" "unat t + 4096 * c \<le> 0x1ff000"
    and "ept_wf m 0x1fe000 (set (demo_block t c))"
    and "\<And>x. ept_walk m 0x1fe000 x = (if guest_pfn x < n then Some (a + 4096 * of_nat (guest_pfn x) + (x AND 0xfff)) else None)"
  defines "v \<equiv> demo_block_vm t c a n"
  shows "paging_ready (demo_block_st m v) [demo_arena] demo_vp v (demo_block a n)"
proof -
  let ?s = "demo_block_st m v"
  have c: "unat (of_nat n :: 56 word) = n" "unat (of_nat c :: 56 word) = c"
    using assms(5,8) by (simp_all add: unat_of_nat)
  have tr: "tracked_pages v = [blk t (of_nat c) VM_PAGE_TYPE_EPT False, blk a (of_nat n) VM_PAGE_TYPE_GUEST_PHYSICAL False]"
    unfolding v_def demo_block_vm_def by (rule vm_with_ept_simps(1))
  have pl: "pl_mset (blk t (of_nat c) ty r) = mset (demo_block t c)" "pl_mset (blk a (of_nat n) ty r) = mset (demo_block a n)" for ty r
    by (simp_all add: pl_mset_def c)
  note ap = demo_block_page [OF assms(1,3)]
  have tb: "unat t + 4096 * c \<le> 4503599627370496" using assms(8) by simp
  note tp = demo_block_page [OF assms(6) tb]
  have "vm_flags v AND VM_T_FLAG_VMCS_INITIALIZED = 0"
    by (simp add: v_def demo_block_vm_def demo_machine_def vm_zero_def hv_const)
  then have vo: "vm_owned v = mset (demo_block t c) + mset (demo_block a n)" by (simp add: vm_owned_def tr pl)
  have own: "owned ?s [demo_arena] = add_mset 0x1ff000 (mset (demo_block t c) + mset (demo_block a n))"
    by (simp add: demo_block_st_def owned_def vo demo_arena_def V2P_IDENTITY_MAP_def hv_const)
  have "mm_valid demo_mmap 230 250" by (simp add: mm_valid_def hv_const demo_desc_def)
  then have mm: "mm_ok ?s [demo_arena]" by (simp add: demo_block_st_def mm_ok_def mm_position_ok_def demo_arena_ok)
  have vms: "vms_ok ?s [demo_arena]"
    using assms(1,3,6) tb
    by (simp add: demo_block_st_def vms_ok_def demo_arena_end tr demo_vp_def demo_arena_def pl_ok_def c)
      (simp add: arena_end_def demo_arena_def)
  have "distinct (0x1ff000 # demo_block t c @ demo_block a n)"
    using demo_block_distinct [OF assms(6) tb] demo_block_distinct [OF assms(1,3)] tp(3) [of "0x1ff000"] ap(2) [of "0x1ff000"]
      assms(2,8) tp ap by fastforce
  moreover have "owned ?s [demo_arena] = mset (0x1ff000 # demo_block t c @ demo_block a n)" using own by simp
  ultimately have once: "count (owned ?s [demo_arena]) p \<le> 1" for p by (simp only: distinct_count_atmost_1) auto
  have "phys_page p \<and> \<not> mm_page_used_by_chainload ?s p" if "p \<in># owned ?s [demo_arena]" for p
  proof -
    have f: "phys_page 0x1ff000" by (simp add: phys_page_def page_aligned_def)
    have "p = 0x1ff000 \<or> p \<in> set (demo_block t c) \<or> p \<in> set (demo_block a n)" using that unfolding own by auto
    then have "phys_page p" "0x1f0000 \<le> unat p" using f tp ap assms(2,7) by fastforce+
    moreover from this have "p AND PAGE_MASK = p" "p \<noteq> 0x1000" by (auto simp: phys_page_def hv_const)
    moreover have "mm_chainload_page ?s = demo_chainload" by (simp add: demo_block_st_def)
    ultimately show ?thesis by simp
  qed
  then have inv: "hv_inv ?s [demo_arena]" using mm vms once by (simp add: hv_inv_def)
  have k: "guest_pages v = mset (demo_block a n)" "ept_pages v = mset (demo_block t c)" "ept_pool v = {#}"
    by (simp_all add: tr pl_kind_def pl)
  have fl: "vm_flags v AND VM_T_FLAG_EPT_PML4_INITIALIZED \<noteq> 0" "ept_root v = 0x1fe000" "ept_initialized v"
    by (simp_all add: v_def demo_block_vm_def)
  have "vm_mem_ok m v" using assms(9) by (simp add: vm_mem_ok_def k fl)
  with inv have ok: "hv_ok ?s [demo_arena]" by (auto simp: hv_ok_def demo_block_st_def split: if_splits)
  have "guest_mapped m v (demo_block a n)" using fl by (simp add: guest_mapped_def k vm_walk_def assms(10))
  with ok show ?thesis
    using assms(4,5) by (simp add: paging_ready_def) (simp add: demo_block_st_def v_def demo_block_vm_def demo_machine_def)
qed

section \<open>Four megabytes\<close>

definition demo_big_tables :: phys_mem where
  "demo_big_tables = write64s (\<lambda>_. 0) [(entry 0x1fe000 0, ept_entry 0x1fd000), (entry 0x1fd000 0, ept_entry 0x1fc000),
     (entry 0x1fc000 0, 0x400087), (entry 0x1fc000 1, 0x600087)]"

abbreviation demo_big_vm :: vm_t where "demo_big_vm \<equiv> demo_block_vm 0x1fc000 3 0x400000 1024"

abbreviation demo_big :: hv_state where "demo_big \<equiv> demo_block_st demo_big_tables demo_big_vm"

abbreviation demo_big_pages :: "u64 list" where "demo_big_pages \<equiv> demo_block 0x400000 1024"

section \<open>The tables\<close>

lemma demo_page_aligned [simp]:
  "page_aligned 0x1fe000" "page_aligned 0x1fd000" "page_aligned 0x1fc000"
  by (simp_all add: page_aligned_def)

lemma demo_big_entry:
  assumes "page_aligned t" "unat i < 512"
  shows "read64 demo_big_tables (entry t i) =
    (if t = 0x1fe000 \<and> i = 0 then ept_entry 0x1fd000 else if t = 0x1fd000 \<and> i = 0 then ept_entry 0x1fc000
     else if t = 0x1fc000 \<and> i = 0 then 0x400087 else if t = 0x1fc000 \<and> i = 1 then 0x600087 else 0)"
  using assms by (simp add: demo_big_tables_def write64s_def read64_write64_entry)

lemma demo_large: "ept_present 0x400087" "ept_large 0x400087" "ept_present 0x600087" "ept_large 0x600087"
  by (simp_all add: ept_present_def ept_large_def hv_const)

lemma demo_next: "ept_present (ept_entry 0x1fd000)" "\<not> ept_large (ept_entry 0x1fd000)"
  "ept_entry 0x1fd000 AND EPT_PTE_PHYSICAL_ADDRESS_PAGE = 0x1fd000"
  "ept_present (ept_entry 0x1fc000)" "\<not> ept_large (ept_entry 0x1fc000)"
  "ept_entry 0x1fc000 AND EPT_PTE_PHYSICAL_ADDRESS_PAGE = 0x1fc000"
  using ept_entry_facts [of "0x1fd000"] ept_entry_facts [of "0x1fc000"] by (simp_all add: phys_page_def)

lemma demo_big_child:
  assumes "page_aligned t" "unat i < 512"
  shows "ept_child demo_big_tables t i =
    (if t = 0x1fe000 \<and> i = 0 then Some 0x1fd000 else if t = 0x1fd000 \<and> i = 0 then Some 0x1fc000 else None)"
  using assms by (simp add: ept_child_def demo_big_entry demo_large demo_next)

lemma demo_big_tbl:
  "ept_path p \<Longrightarrow> ept_tbl demo_big_tables 0x1fe000 p =
     (if p = [] then Some 0x1fe000 else if p = [0] then Some 0x1fd000 else if p = [0, 0] then Some 0x1fc000 else None)"
proof (induction p)
  case Nil
  then show ?case by simp
next
  case (Cons i p)
  then have "ept_path p" "unat i < 512" by (simp_all add: ept_path_Cons)
  with Cons.IH show ?case by (auto simp: demo_big_child)
qed

lemma demo_big_wf: "ept_wf demo_big_tables 0x1fe000 {0x1fe000, 0x1fd000, 0x1fc000}"
  unfolding ept_wf_def
proof (intro conjI allI impI)
  fix p t assume "ept_path p \<and> ept_tbl demo_big_tables 0x1fe000 p = Some t"
  then show "phys_page t" "t \<in> {0x1fe000, 0x1fd000, 0x1fc000}"
    by (auto simp: demo_big_tbl phys_page_def split: if_splits)
next
  fix p q t
  assume "ept_path p \<and> ept_path q \<and> ept_tbl demo_big_tables 0x1fe000 p = Some t \<and> ept_tbl demo_big_tables 0x1fe000 q = Some t"
  then show "p = q" by (auto simp: demo_big_tbl split: if_splits)
next
  fix i :: u64 assume i: "unat i < 512" and "ept_present (read64 demo_big_tables (entry 0x1fe000 i))"
  then show "\<not> ept_large (read64 demo_big_tables (entry 0x1fe000 i))"
    using demo_next by (auto simp: demo_big_entry split: if_splits)
qed

section \<open>The walk\<close>

lemma unat_slices:
  "unat (LINEAR_ADDRESS_GET_PML4 x) = unat x div 2 ^ 39 mod 512"
  "unat (LINEAR_ADDRESS_GET_DIRECTORY_PTR x) = unat x div 2 ^ 30 mod 512"
  "unat (LINEAR_ADDRESS_GET_DIRECTORY x) = unat x div 2 ^ 21 mod 512"
  by (simp_all add: index_as_take_bit unsigned_take_bit_eq take_bit_eq_mod unsigned_drop_bit_eq drop_bit_eq_div
    unat_mod unat_div)

lemma low_21: "x AND (LINEAR_ADDRESS_TABLE_MASK OR LINEAR_ADDRESS_OFFSET_MASK) = take_bit 21 x"
  unfolding hv_const masks_as_slices by (rule bit_word_eqI) (auto simp: bit_simps)

lemma demo_big_address:
  fixes x :: u64
  assumes "unat x mod 2 ^ 48 = k" "k < 4194304"
  shows "0x400000 + 4096 * of_nat (k div 4096) + (x AND 0xfff) =
    (if k < 2097152 then 0x400000 else 0x600000) + take_bit 21 x"
proof (rule word_unat_eqI)
  have lo: "unat (x AND 0xfff) = unat x mod 4096" by (rule and_fff_eq_mod)
  have t: "unat (take_bit 21 x) = unat x mod 2 ^ 21" by (simp add: take_bit_eq_mod unat_mod)
  have m: "unat x mod 4096 = k mod 4096" "unat x mod 2 ^ 21 = k mod 2 ^ 21"
    unfolding assms(1) [symmetric] by (simp_all add: mod_mod_cancel)
  have q: "unat (of_nat (k div 4096) :: u64) = k div 4096" using assms(2) by (intro unat_of_nat_64) simp
  have a: "unat (4096 * of_nat (k div 4096) :: u64) = 4096 * (k div 4096)"
    using assms(2) q by (subst unat_mult_64_no_wrap) simp_all
  have b: "unat (0x400000 + 4096 * of_nat (k div 4096) :: u64) = 0x400000 + 4096 * (k div 4096)"
    using assms(2) a by (subst unat_plus_64_no_wrap) simp_all
  have c: "unat (0x400000 + 4096 * of_nat (k div 4096) + (x AND 0xfff)) = 0x400000 + k"
    using assms(2) b lo m by (subst unat_plus_64_no_wrap) simp_all
  have d: "unat ((if k < 2097152 then 0x400000 else 0x600000) + take_bit 21 x) =
      (if k < 2097152 then 0x400000 else 0x600000) + k mod 2097152"
    using t m(2) mod_less_divisor [of "2 ^ 21" k] by (subst unat_plus_64_no_wrap) auto
  show "unat (0x400000 + 4096 * of_nat (k div 4096) + (x AND 0xfff)) =
    unat ((if k < 2097152 then 0x400000 else 0x600000) + take_bit 21 x)"
    unfolding c d using assms(2) by (auto simp: mod_if)
qed

lemma or_take_bit_21: "0x400000 OR take_bit 21 x = 0x400000 + take_bit 21 (x :: u64)"
  "0x600000 OR take_bit 21 x = 0x600000 + take_bit 21 (x :: u64)"
proof -
  have m: "take_bit 21 x = x AND 0x1fffff" by (simp add: take_bit_eq_mask mask_eq_exp_minus_1)
  have "0x400000 AND (x AND 0x1fffff) = (0 :: u64)" "0x600000 AND (x AND 0x1fffff) = (0 :: u64)"
    by (simp_all add: and.left_commute [of _ x])
  then show "0x400000 OR take_bit 21 x = 0x400000 + take_bit 21 x" "0x600000 OR take_bit 21 x = 0x600000 + take_bit 21 x"
    using word_plus_and_or [of "0x400000" "take_bit 21 x"] word_plus_and_or [of "0x600000" "take_bit 21 x"]
    unfolding m by simp_all
qed

lemma demo_big_walk:
  "ept_walk demo_big_tables 0x1fe000 x =
    (if guest_pfn x < 1024 then Some (0x400000 + 4096 * of_nat (guest_pfn x) + (x AND 0xfff)) else None)"
proof -
  let ?k = "unat x mod 2 ^ 48"
  let ?p = "LINEAR_ADDRESS_GET_PML4 x" and ?q = "LINEAR_ADDRESS_GET_DIRECTORY_PTR x" and ?d = "LINEAR_ADDRESS_GET_DIRECTORY x"
  have pfn: "guest_pfn x = ?k div 4096"
    using mod_mult2_eq [of "unat x" 4096 "2 ^ 36"] by (simp add: guest_pfn_def)
  have split: "unat x div c mod 512 = ?k div c mod 512" if "c * 512 dvd 2 ^ 48" for c :: nat
  proof -
    have c: "c \<noteq> 0" using that by (cases c) simp_all
    then have "unat x div c mod 512 = unat x mod (c * 512) div c" by (simp add: mod_mult2_eq)
    also have "\<dots> = ?k mod (c * 512) div c" using that by (simp add: mod_mod_cancel)
    also have "\<dots> = ?k div c mod 512" using c by (simp add: mod_mult2_eq)
    finally show ?thesis .
  qed
  have s: "unat ?p = ?k div 2 ^ 39 mod 512" "unat ?q = ?k div 2 ^ 30 mod 512" "unat ?d = ?k div 2 ^ 21 mod 512"
    unfolding unat_slices by (rule split; simp)+
  have z: "?p = 0 \<longleftrightarrow> ?k div 2 ^ 39 mod 512 = 0" "?q = 0 \<longleftrightarrow> ?k div 2 ^ 30 mod 512 = 0" "?d = 0 \<longleftrightarrow> ?k div 2 ^ 21 mod 512 = 0"
    "?d = 1 \<longleftrightarrow> ?k div 2 ^ 21 mod 512 = 1"
    unfolding s [symmetric] by (simp_all only: unat_eq_0 word_unat_eq_iff [of _ 1] unsigned_1)
  have w: "ept_walk demo_big_tables 0x1fe000 x = (if ?p = 0 \<and> ?q = 0 then
      if ?d = 0 then Some (0x400000 OR take_bit 21 x) else if ?d = 1 then Some (0x600000 OR take_bit 21 x) else None
      else None)"
    by (simp add: ept_walk_def demo_big_entry demo_next demo_large low_21 Let_def)
      (simp add: ept_present_def hv_const)
  show ?thesis
  proof (cases "?k < 4194304")
    case True
    then have "?k div 2 ^ 39 mod 512 = 0" "?k div 2 ^ 30 mod 512 = 0" "?k div 2 ^ 21 mod 512 = (if ?k < 2097152 then 0 else 1)"
      by (auto simp: div_if)
    with True demo_big_address [OF refl True] show ?thesis
      by (simp add: w z pfn or_take_bit_21 split: if_splits)
  next
    case False
    have "\<not> (?k div 2 ^ 39 mod 512 = 0 \<and> ?k div 2 ^ 30 mod 512 = 0 \<and> (?k div 2 ^ 21 mod 512 = 0 \<or> ?k div 2 ^ 21 mod 512 = 1))"
    proof
      assume a: "?k div 2 ^ 39 mod 512 = 0 \<and> ?k div 2 ^ 30 mod 512 = 0 \<and> (?k div 2 ^ 21 mod 512 = 0 \<or> ?k div 2 ^ 21 mod 512 = 1)"
      have "?k div 2 ^ 39 < 512" by (simp add: less_mult_imp_div_less)
      with a have "?k < 2 ^ 39" by (simp add: div_eq_0_iff)
      then have "?k div 2 ^ 30 < 512" by (simp add: less_mult_imp_div_less)
      with a have "?k < 2 ^ 30" by (simp add: div_eq_0_iff)
      then have "?k div 2 ^ 21 < 512" by (simp add: less_mult_imp_div_less)
      with a have "?k div 2 ^ 21 \<le> 1" by auto
      with False show False by auto
    qed
    moreover have "\<not> guest_pfn x < 1024" using False by (simp add: pfn div_less_iff_less_mult)
    ultimately show ?thesis by (auto simp: w z)
  qed
qed

section \<open>The state\<close>

lemma demo_big_ready: "paging_ready demo_big [demo_arena] demo_vp demo_big_vm demo_big_pages"
proof (rule demo_block_ready)
  have "block_pages 0x1fc000 (Suc (Suc (Suc 0))) = {#0x1fe000, 0x1fd000, 0x1fc000#}"
    unfolding block_pages_Suc block_pages_0 by simp
  then have "set_mset (block_pages 0x1fc000 3) = {0x1fe000, 0x1fd000, 0x1fc000}"
    unfolding numeral_3_eq_3 [symmetric] by simp
  then show "ept_wf demo_big_tables 0x1fe000 (set (demo_block 0x1fc000 3))" using demo_big_wf by simp
qed (simp_all add: phys_page_def page_aligned_def demo_big_walk)

lemma demo_big_unused: "guest_physical_pages_used_by_initial_setup demo_big_vm = 0"
  by (simp add: demo_block_vm_def vm_with_ept_def demo_machine_def vm_zero_def)

end
