(* ===== verification/Linux_Loader.thy ===== *)
theory Linux_Loader
  imports Guest_Paging Host_Setup
begin

text \<open>
  hv/src/vmm/guest\_linux\_loader.c: the loader of a Linux bzImage, and the packed structures of
  guest\_linux\_loader\_defs.h as lists of named fields with their sizes.  The image is in physical memory,
  behind a pointer of the identity map, as \<open>mm_get_attachment\<close> returns it.
\<close>

section \<open>Packed structures\<close>

type_synonym packed = "(string \<times> nat) list"

primrec offsetof :: "packed \<Rightarrow> string \<Rightarrow> nat" where
  "offsetof [] f = 0"
| "offsetof (g # r) f = (if fst g = f then 0 else snd g + offsetof r f)"

primrec sizeof_field :: "packed \<Rightarrow> string \<Rightarrow> nat" where
  "sizeof_field [] f = 0"
| "sizeof_field (g # r) f = (if fst g = f then snd g else sizeof_field r f)"

definition sizeof_packed :: "packed \<Rightarrow> nat" where
  "sizeof_packed l = sum_list (map snd l)"

definition linux_setup_header_t :: packed where
  "linux_setup_header_t =
    [(''setup_sects'', 1), (''root_flags'', 2), (''syssize'', 4), (''ram_size'', 2), (''vid_mode'', 2),
     (''root_dev'', 2), (''boot_flag'', 2), (''jump'', 2), (''header'', 4), (''version'', 2),
     (''realmode_swtch'', 4), (''start_sys_seg'', 2), (''kernel_version'', 2), (''type_of_loader'', 1),
     (''loadflags'', 1), (''setup_move_size'', 2), (''code32_start'', 4), (''ramdisk_image'', 4),
     (''ramdisk_size'', 4), (''bootsect_kludge'', 4), (''heap_end_ptr'', 2), (''ext_loader_ver'', 1),
     (''ext_loader_type'', 1), (''cmd_line_ptr'', 4), (''initrd_addr_max'', 4), (''kernel_alignment'', 4),
     (''relocatable_kernel'', 1), (''min_alignment'', 1), (''xloadflags'', 2), (''cmdline_size'', 4),
     (''hardware_subarch'', 4), (''hardware_subarch_data'', 8), (''payload_offset'', 4),
     (''payload_length'', 4), (''setup_data'', 8), (''pref_address'', 8), (''init_size'', 4),
     (''handover_offset'', 4), (''kernel_info_offset'', 4)]"

definition linux_boot_e820_entry_t :: packed where
  "linux_boot_e820_entry_t = [(''addr'', 8), (''size'', 8), (''type'', 4)]"

definition linux_boot_params_t :: packed where
  "linux_boot_params_t =
    [(''screen_info'', 0x40), (''apm_bios_info'', 0x14), (''_pad2'', 4), (''tboot_addr'', 8), (''ist_info'', 0x10),
     (''acpi_rsdp_addr'', 8), (''_pad3'', 8), (''hd0_info'', 16), (''hd1_info'', 16), (''sys_desc_table'', 0x10),
     (''olpc_ofw_header'', 0x10), (''ext_ramdisk_image'', 4), (''ext_ramdisk_size'', 4), (''ext_cmd_line_ptr'', 4),
     (''_pad4'', 112), (''cc_blob_address'', 4), (''edid_info'', 0x80), (''efi_info'', 0x20), (''alt_mem_k'', 4),
     (''scratch'', 4), (''e820_entries'', 1), (''eddbuf_entries'', 1), (''edd_mbr_sig_buf_entries'', 1),
     (''kbd_status'', 1), (''secure_boot'', 1), (''_pad5'', 2), (''sentinel'', 1), (''_pad6'', 1),
     (''hdr'', sizeof_packed linux_setup_header_t),
     (''_pad7'', 0x290 - 0x1f1 - sizeof_packed linux_setup_header_t), (''edd_mbr_sig_buffer'', 4 * 16),
     (''e820_table'', sizeof_packed linux_boot_e820_entry_t * 128), (''_pad8'', 48), (''eddbuf'', 6 * 0x52),
     (''_pad9'', 276)]"

definition get_field :: "packed \<Rightarrow> string \<Rightarrow> u64 \<Rightarrow> phys_mem \<Rightarrow> u64" where
  "get_field l f a m = read_le (sizeof_field l f) m (a + of_nat (offsetof l f))"

definition set_field :: "packed \<Rightarrow> string \<Rightarrow> u64 \<Rightarrow> u64 \<Rightarrow> phys_mem \<Rightarrow> phys_mem" where
  "set_field l f v a m = write_le (sizeof_field l f) m (a + of_nat (offsetof l f)) v"

section \<open>The loader\<close>

text \<open>\<open>&params->hdr\<close>, for the zero page and for the start of the image, which has the same layout.\<close>

definition linux_hdr :: "u64 \<Rightarrow> u64" where
  "linux_hdr params = params + of_nat (offsetof linux_boot_params_t ''hdr'')"

definition linux_setup_header_size :: "u64 \<Rightarrow> phys_mem \<Rightarrow> u64" where
  "linux_setup_header_size hdr m = drop_bit 8 (get_field linux_setup_header_t ''jump'' hdr m) +
     of_nat (offsetof linux_setup_header_t ''jump'') + of_nat (sizeof_field linux_setup_header_t ''jump'')"

definition linux_check_header :: "u64 \<Rightarrow> phys_mem \<Rightarrow> unit res" where
  "linux_check_header hdr m =
     (if get_field linux_setup_header_t ''header'' hdr m \<noteq> 0x53726448
      then Inl (Panic ''Linux kernel magic `HdrS` not found'')
      else if get_field linux_setup_header_t ''xloadflags'' hdr m AND 1 \<noteq> 1
      then Inl (Panic (''The loaded Linux kernel doesn'' @ CHR 0x27 # ''t have a 64-bit entry point''))
      else Inr ())"

text \<open>The next page from the end of guest memory: its guest and its host address.\<close>

definition linux_reserve_page :: "string \<Rightarrow> u64 \<Rightarrow> hv_state \<Rightarrow> (u64 \<times> u64 \<times> hv_state) res" where
  "linux_reserve_page panic vp s = bnd (get_vm s vp) (\<lambda>v.
     let guestpa = (guest_physical_pages v - guest_physical_pages_used_by_initial_setup v - 1) * PAGE_SIZE in
     bnd (vm_use_pages vp 1 s) (\<lambda>s.
     bnd (vmx_ept_get_host_physical_address s vp guestpa) (\<lambda>r. case r of
       None \<Rightarrow> Inl (Panic panic)
     | Some hostpa \<Rightarrow> Inr (guestpa, hostpa, s))))"

definition linux_check_memory :: "u64 \<Rightarrow> u64 \<Rightarrow> hv_state \<Rightarrow> unit res" where
  "linux_check_memory vp image_size s = bnd (get_vm s vp) (\<lambda>v.
     if guest_physical_pages v \<le> 0x1000000 div PAGE_SIZE \<or>
       guest_physical_pages v - guest_physical_pages_used_by_initial_setup v - 0x1000000 div PAGE_SIZE \<le>
         image_size div PAGE_SIZE
     then Inl (Panic ''Not enough guest physical memory to load the Linux kernel'') else Inr ())"

definition char_byte :: "char \<Rightarrow> u8" where
  "char_byte c = of_nat (of_char c)"

definition linux_copy_cmdline :: "u64 \<Rightarrow> string \<Rightarrow> u64 \<Rightarrow> phys_mem \<Rightarrow> phys_mem res" where
  "linux_copy_cmdline hdr cmdline cmdline_page m =
     (let cmdline_len = str_strlen cmdline in
      if cmdline_len > unat (get_field linux_setup_header_t ''cmdline_size'' hdr m) \<or> cmdline_len > unat PAGE_SIZE
      then Inl (Panic ''Linux cmdline is too long'')
      else Inr ((memcpy_from cmdline_page (map char_byte (c_string cmdline)) m)
             (cmdline_page + of_nat cmdline_len := 0)))"

definition linux_e820_entry :: "nat \<Rightarrow> u64 \<Rightarrow> u64 \<Rightarrow> u64 \<Rightarrow> u64 \<Rightarrow> phys_mem \<Rightarrow> phys_mem" where
  "linux_e820_entry i addr sz type zeropage m =
     (let e = zeropage + of_nat (offsetof linux_boot_params_t ''e820_table'' + i * sizeof_packed linux_boot_e820_entry_t)
      in set_field linux_boot_e820_entry_t ''type'' type e
          (set_field linux_boot_e820_entry_t ''size'' sz e (set_field linux_boot_e820_entry_t ''addr'' addr e m)))"

definition linux_setup_zeropage :: "u64 \<Rightarrow> u64 \<Rightarrow> u64 \<Rightarrow> u64 \<Rightarrow> phys_mem \<Rightarrow> phys_mem" where
  "linux_setup_zeropage image_hdr zeropage cmdline_page_guestpa guest_pages_count m =
     (let hdr = linux_hdr zeropage;
          set_hdr = (\<lambda>f v. set_field linux_setup_header_t f v hdr);
          set_param = (\<lambda>f v. set_field linux_boot_params_t f v zeropage);
          m = memcpy hdr image_hdr (unat (linux_setup_header_size image_hdr m)) (memset zeropage 0 (unat PAGE_SIZE) m);
          m = set_hdr ''vid_mode'' 0xFFFF m;
          m = set_hdr ''type_of_loader'' 0xFF m;
          m = set_hdr ''loadflags'' (get_field linux_setup_header_t ''loadflags'' hdr m AND 0x1f) m;
          m = set_hdr ''heap_end_ptr'' 0 m;
          m = set_hdr ''ramdisk_image'' 0 m;
          m = set_param ''ext_ramdisk_image'' 0 m;
          m = set_hdr ''ramdisk_size'' 0 m;
          m = set_param ''ext_ramdisk_size'' 0 m;
          m = set_hdr ''cmd_line_ptr'' (cmdline_page_guestpa AND 0xffffffff) m;
          m = set_param ''ext_cmd_line_ptr'' (drop_bit 32 cmdline_page_guestpa) m;
          m = set_param ''e820_entries'' 2 m;
          m = linux_e820_entry 0 0 (640 * 1024) 1 zeropage m;
          m = linux_e820_entry 1 0xa0000 ((guest_pages_count - 0xa0) * PAGE_SIZE) 1 zeropage m
      in if get_field linux_setup_header_t ''setup_sects'' hdr m = 0 then set_hdr ''setup_sects'' 4 m else m)"

text \<open>The iteration of the loop that copies page \<open>page\<close> of the protected-mode kernel.\<close>

definition linux_copy_page :: "u64 \<Rightarrow> u64 \<Rightarrow> u64 \<Rightarrow> u64 \<Rightarrow> u64 \<Rightarrow> nat \<Rightarrow> hv_state \<Rightarrow> hv_state res" where
  "linux_copy_page vp image_protected_kernel kernel_size kernel_pages kernel_guestpa page s =
     bnd (vmx_ept_get_host_physical_address s vp (kernel_guestpa + of_nat page * PAGE_SIZE)) (\<lambda>r. case r of
       None \<Rightarrow> Inl (Panic ''Unable to walk EPT to get Linux protected kernel host physical address'')
     | Some page_hostpa \<Rightarrow>
         let n = (if of_nat page < kernel_pages - 1 \<or> kernel_size mod PAGE_SIZE = 0 then PAGE_SIZE
                  else kernel_size mod PAGE_SIZE)
         in Inr (s\<lparr>phys := memcpy page_hostpa (V2P_IDENTITY_MAP (image_protected_kernel + of_nat page * PAGE_SIZE)) (unat n) (phys s)\<rparr>))"

definition linux_load_kernel :: "u64 \<Rightarrow> u64 \<Rightarrow> u64 \<Rightarrow> u64 \<Rightarrow> hv_state \<Rightarrow> (u64 \<times> hv_state) res" where
  "linux_load_kernel vp img image_size hdr s =
     (let image_protected_kernel = img + (get_field linux_setup_header_t ''setup_sects'' hdr (phys s) + 1) * 512;
          kernel_size = img + image_size - image_protected_kernel;
          kernel_pages = kernel_size div PAGE_SIZE + (if kernel_size mod PAGE_SIZE = 0 then 0 else 1);
          kernel_guestpa = get_field linux_setup_header_t ''pref_address'' hdr (phys s);
          alignment = get_field linux_setup_header_t ''kernel_alignment'' hdr (phys s)
      in if alignment = 0 then Inl (Fault ''division by zero'')
         else if kernel_guestpa mod alignment \<noteq> 0
         then Inl (Panic (''Kernel pref_address isn'' @ CHR 0x27 # ''t aligned according to kernel_alignment''))
         else bnd (for_loop (linux_copy_page vp image_protected_kernel kernel_size kernel_pages kernel_guestpa) 0 (unat kernel_pages) s)
           (\<lambda>s. Inr (kernel_guestpa, s)))"

definition vm_set_guest_state ::
    "u64 \<Rightarrow> (vmx_initial_guest_state_t \<Rightarrow> vmx_initial_guest_state_t) \<Rightarrow> hv_state \<Rightarrow> hv_state res" where
  "vm_set_guest_state vp f s = bnd (get_vm s vp) (\<lambda>v.
     Inr (put_vm vp (v\<lparr>vmcs_config := (vmcs_config v)\<lparr>guest_state := f (guest_state (vmcs_config v))\<rparr>\<rparr>) s))"

definition linux_guest_state :: "u64 \<Rightarrow> hv_state \<Rightarrow> vmx_initial_guest_state_t \<Rightarrow> vmx_initial_guest_state_t" where
  "linux_guest_state kernel_guestpa s g = g\<lparr>guest_rip := kernel_guestpa + 0x200, guest_rsp := 0,
     guest_cr0 := cpu_cr0 (cpu s), guest_cr4 := cpu_cr4 (cpu s), guest_ia32_efer := rdmsr s IA32_EFER,
     guest_cs := RKHV_CS, guest_ds := RKHV_DS, guest_gdtr := segments_sgdt s, guest_idtr := interrupts_sidt s\<rparr>"

definition vm_guest_linux_loader :: "u64 \<Rightarrow> u64 \<Rightarrow> u64 \<Rightarrow> string \<Rightarrow> hv_state \<Rightarrow> hv_state res" where
  "vm_guest_linux_loader vp img image_size cmdline s = bnd (get_vm s vp) (\<lambda>v.
     if guest_cr3 (guest_state (vmcs_config v)) \<noteq> 0
     then Inl (Panic ''Guest identity paging already setup before loading guest Linux kernel'')
     else
       bnd (vm_guest_paging_setup_identity vp s) (\<lambda>(cr3, s).
       bnd (vm_set_guest_state vp (\<lambda>g. g\<lparr>guest_cr3 := cr3\<rparr>) s) (\<lambda>s.
       let image_hdr = linux_hdr (V2P_IDENTITY_MAP img) in
       bnd (linux_check_header image_hdr (phys s)) (\<lambda>_.
       bnd (linux_reserve_page ''Unable to walk EPT to get Linux zeropage host physical address'' vp s)
         (\<lambda>(zeropage_guestpa, zeropage, s).
       bnd (linux_reserve_page ''Unable to walk EPT to get Linux cmdline page host physical address'' vp s)
         (\<lambda>(cmdline_guestpa, cmdline_page, s).
       bnd (linux_check_memory vp image_size s) (\<lambda>_.
       bnd (linux_copy_cmdline image_hdr cmdline cmdline_page (phys s)) (\<lambda>m.
       bnd (get_vm s vp) (\<lambda>v.
       let s = s\<lparr>phys := linux_setup_zeropage image_hdr zeropage cmdline_guestpa (guest_physical_pages v) m\<rparr> in
       bnd (linux_load_kernel vp img image_size (linux_hdr zeropage) s) (\<lambda>(kernel_guestpa, s).
       bnd (get_vm s vp) (\<lambda>v.
       vm_set_guest_state vp (linux_guest_state kernel_guestpa s)
         (put_vm vp (v\<lparr>initial_gpr_state := (initial_gpr_state v)\<lparr>rsi := zeropage_guestpa\<rparr>\<rparr>) s))))))))))))"

section \<open>Offsets and sizes\<close>

lemma linux_header_offsets:
  "offsetof linux_setup_header_t ''setup_sects'' = 0" "sizeof_field linux_setup_header_t ''setup_sects'' = 1"
  "offsetof linux_setup_header_t ''vid_mode'' = 9" "sizeof_field linux_setup_header_t ''vid_mode'' = 2"
  "offsetof linux_setup_header_t ''jump'' = 15" "sizeof_field linux_setup_header_t ''jump'' = 2"
  "offsetof linux_setup_header_t ''header'' = 17" "sizeof_field linux_setup_header_t ''header'' = 4"
  "offsetof linux_setup_header_t ''type_of_loader'' = 31" "sizeof_field linux_setup_header_t ''type_of_loader'' = 1"
  "offsetof linux_setup_header_t ''loadflags'' = 32" "sizeof_field linux_setup_header_t ''loadflags'' = 1"
  "offsetof linux_setup_header_t ''ramdisk_image'' = 39" "sizeof_field linux_setup_header_t ''ramdisk_image'' = 4"
  "offsetof linux_setup_header_t ''ramdisk_size'' = 43" "sizeof_field linux_setup_header_t ''ramdisk_size'' = 4"
  "offsetof linux_setup_header_t ''heap_end_ptr'' = 51" "sizeof_field linux_setup_header_t ''heap_end_ptr'' = 2"
  "offsetof linux_setup_header_t ''cmd_line_ptr'' = 55" "sizeof_field linux_setup_header_t ''cmd_line_ptr'' = 4"
  "offsetof linux_setup_header_t ''kernel_alignment'' = 63" "sizeof_field linux_setup_header_t ''kernel_alignment'' = 4"
  "offsetof linux_setup_header_t ''xloadflags'' = 69" "sizeof_field linux_setup_header_t ''xloadflags'' = 2"
  "offsetof linux_setup_header_t ''cmdline_size'' = 71" "sizeof_field linux_setup_header_t ''cmdline_size'' = 4"
  "offsetof linux_setup_header_t ''pref_address'' = 103" "sizeof_field linux_setup_header_t ''pref_address'' = 8"
  "sizeof_packed linux_setup_header_t = 123"
  by (simp_all add: linux_setup_header_t_def sizeof_packed_def)

lemma linux_params_offsets:
  "offsetof linux_boot_params_t ''ext_ramdisk_image'' = 192" "sizeof_field linux_boot_params_t ''ext_ramdisk_image'' = 4"
  "offsetof linux_boot_params_t ''ext_ramdisk_size'' = 196" "sizeof_field linux_boot_params_t ''ext_ramdisk_size'' = 4"
  "offsetof linux_boot_params_t ''ext_cmd_line_ptr'' = 200" "sizeof_field linux_boot_params_t ''ext_cmd_line_ptr'' = 4"
  "offsetof linux_boot_params_t ''e820_entries'' = 488" "sizeof_field linux_boot_params_t ''e820_entries'' = 1"
  "offsetof linux_boot_params_t ''hdr'' = 497" "offsetof linux_boot_params_t ''e820_table'' = 720"
  by (simp_all add: linux_boot_params_t_def linux_header_offsets)

lemma linux_e820_offsets:
  "offsetof linux_boot_e820_entry_t ''addr'' = 0" "sizeof_field linux_boot_e820_entry_t ''addr'' = 8"
  "offsetof linux_boot_e820_entry_t ''size'' = 8" "sizeof_field linux_boot_e820_entry_t ''size'' = 8"
  "offsetof linux_boot_e820_entry_t ''type'' = 16" "sizeof_field linux_boot_e820_entry_t ''type'' = 4"
  "sizeof_packed linux_boot_e820_entry_t = 20"
  by (simp_all add: linux_boot_e820_entry_t_def sizeof_packed_def)

text \<open>The assertion of the header file: the zero page is one page.\<close>

lemma sizeof_linux_boot_params: "sizeof_packed linux_boot_params_t = unat PAGE_SIZE"
  unfolding sizeof_packed_def [of linux_boot_params_t]
  by (simp add: linux_boot_params_t_def linux_header_offsets linux_e820_offsets PAGE_SIZE_def)

end
