(* ===== verification/Page_Writes.thy ===== *)
theory Page_Writes
  imports Vm_Memory
begin

text \<open>
  Writes that stay in one page, by byte stores, fields, \<open>memset\<close> and \<open>memcpy\<close>: what they leave unchanged,
  and the fields of a structure in the page that are read back after a sequence of writes.
\<close>

section \<open>Writes within a page\<close>

definition page_write :: "u64 \<Rightarrow> phys_mem \<Rightarrow> phys_mem \<Rightarrow> bool" where
  "page_write p m m' \<longleftrightarrow> (\<forall>x. \<not> unat (x - p) < 4096 \<longrightarrow> m' x = m x)"

lemma page_write_refl [simp]: "page_write p m m"
  by (simp add: page_write_def)

lemma page_write_trans: "page_write p m m' \<Longrightarrow> page_write p m' m'' \<Longrightarrow> page_write p m m''"
  by (simp add: page_write_def)

lemma unat_offset: "off < 4096 \<Longrightarrow> unat (p + of_nat off - p :: u64) = off"
  by (simp add: unat_of_nat_64)

lemma page_write_upd: "off < 4096 \<Longrightarrow> page_write p m (m(p + of_nat off := b))"
  by (auto simp: page_write_def unat_of_nat_64)

lemma page_write_memset: "off + n \<le> 4096 \<Longrightarrow> page_write p m (memset (p + of_nat off) c n m)"
proof (induction n)
  case (Suc n)
  then have "page_write p m (memset (p + of_nat off) c n m)" "off + n < 4096" by simp_all
  from page_write_trans [OF this(1) page_write_upd [OF this(2)]] show ?case
    unfolding memset.simps of_nat_add add.assoc .
qed simp

lemma page_write_memcpy: "off + n \<le> 4096 \<Longrightarrow> page_write p m (memcpy (p + of_nat off) src n m)"
proof (induction n)
  case (Suc n)
  then have "page_write p m (memcpy (p + of_nat off) src n m)" "off + n < 4096" by simp_all
  from page_write_trans [OF this(1) page_write_upd [OF this(2)]] show ?case
    unfolding memcpy.simps Let_def of_nat_add add.assoc .
qed simp

lemma page_write_memcpy_from: "off + length bs \<le> 4096 \<Longrightarrow> page_write p m (memcpy_from (p + of_nat off) bs m)"
proof (induction bs arbitrary: off m)
  case (Cons b bs)
  then have "page_write p m (m(p + of_nat off := b))" by (intro page_write_upd) simp
  moreover have "Suc off + length bs \<le> 4096" using Cons.prems by simp
  moreover have "p + of_nat (Suc off) = p + of_nat off + (1 :: u64)" by simp
  ultimately show ?case using page_write_trans Cons.IH [of "Suc off"] by (simp only: memcpy_from.simps)
qed simp

lemma page_write_le: "off + n \<le> 4096 \<Longrightarrow> page_write p m (write_le n m (p + of_nat off) x)"
proof (induction n arbitrary: off m x)
  case (Suc n)
  then have "page_write p m (m(p + of_nat off := ucast x))" by (intro page_write_upd) simp
  moreover have "Suc off + n \<le> 4096" using Suc.prems by simp
  moreover have "p + of_nat (Suc off) = p + of_nat off + (1 :: u64)" by simp
  ultimately show ?case using page_write_trans Suc.IH [of "Suc off"] by (simp only: write_le.simps)
qed simp

lemma page_write_page_eq:
  assumes "page_write p m m'" "page_aligned p" "page_aligned q" "p \<noteq> q"
  shows "page_eq m m' q"
  unfolding page_eq_def
proof (intro allI impI)
  fix off :: u64 assume off: "unat off < 4096"
  have "\<not> unat (q + off - p) < 4096"
  proof
    assume "unat (q + off - p) < 4096"
    from page_base_plus(1) [OF assms(2) this] page_base_plus(1) [OF assms(3) off] assms(4) show False by simp
  qed
  with assms(1) show "m (q + off) = m' (q + off)" by (simp add: page_write_def)
qed

lemma page_write_guest:
  assumes "page_write p m m'" "page_aligned p" "p \<in># guest_pages v"
  shows "guest_write v m m'"
  unfolding guest_write_def using page_write_page_eq [OF assms(1,2)] assms(3) by blast

lemma guest_write_outside:
  assumes "guest_write v m m'" "x AND PAGE_MASK \<notin># guest_pages v"
  shows "m' x = m x"
proof -
  have "page_eq m m' (x AND PAGE_MASK)" using assms by (simp add: guest_write_def PAGE_MASK_def)
  then have "m ((x AND PAGE_MASK) + (x AND 0xfff)) = m' ((x AND PAGE_MASK) + (x AND 0xfff))"
    using unat_page_offset [of x] by (simp add: page_eq_def)
  then show ?thesis using page_split [of x] by (simp add: PAGE_MASK_def)
qed

section \<open>Fields of a page\<close>

lemma read_le_bit: "bit (read_le n m a) k \<Longrightarrow> k < 8 * n"
proof (induction n arbitrary: a k)
  case (Suc n)
  show ?case
  proof (cases "k < 8")
    case False
    have "\<not> bit (m a) k" using False bit_imp_le_length [of "m a" k] by auto
    with Suc.prems have "bit (read_le n m (a + 1)) (k - 8)" by (auto simp: bit_simps)
    from Suc.IH [OF this] show ?thesis using False by simp
  qed simp
qed simp

lemma read_le_less: "n < 8 \<Longrightarrow> unat (read_le n m a) < 2 ^ (8 * n)"
proof -
  have "take_bit (8 * n) (read_le n m a) = read_le n m a"
    by (rule bit_word_eqI) (auto simp: bit_take_bit_iff dest: read_le_bit)
  then have "unat (read_le n m a) = take_bit (8 * n) (unat (read_le n m a))"
    by (metis unsigned_take_bit_eq)
  then show ?thesis by (metis take_bit_nat_less_exp)
qed

definition put_at :: "u64 \<Rightarrow> nat \<Rightarrow> nat \<Rightarrow> u64 \<Rightarrow> phys_mem \<Rightarrow> phys_mem" where
  "put_at p off n x m = write_le n m (p + of_nat off) x"

definition get_at :: "u64 \<Rightarrow> nat \<Rightarrow> nat \<Rightarrow> phys_mem \<Rightarrow> u64" where
  "get_at p off n m = read_le n m (p + of_nat off)"

named_theorems field_simps \<open>reading fields after writing others\<close>

lemma get_at_put_same [field_simps]: "n \<le> 8 \<Longrightarrow> get_at p off n (put_at p off n x m) = take_bit (8 * n) x"
  by (simp add: get_at_def put_at_def read_le_write_le)

lemma get_at_put_other [field_simps]:
  assumes "i + k \<le> j \<or> j + n \<le> i" "i + k \<le> 4096" "j + n \<le> 4096" "k \<le> 8"
  shows "get_at p j n (put_at p i k x m) = get_at p j n m"
  unfolding get_at_def put_at_def
proof (rule read_le_cong, rule write_le_other [OF assms(4)])
  fix l assume l: "l < n"
  have d: "p + of_nat j + of_nat l - (p + of_nat i) = of_nat (j + l) - (of_nat i :: u64)" by simp
  show "\<not> unat (p + of_nat j + of_nat l - (p + of_nat i)) < k"
  proof (cases "i \<le> j + l")
    case True
    then have "of_nat (j + l) - (of_nat i :: u64) = of_nat (j + l - i)" by (simp add: of_nat_diff)
    then have "unat (of_nat (j + l) - (of_nat i :: u64)) = j + l - i"
      using l assms(3) by (simp add: unat_of_nat_64 del: of_nat_diff)
    with assms(1) True l show ?thesis unfolding d by auto
  next
    case False
    let ?w = "of_nat (i - (j + l)) :: u64"
    have w: "unat ?w = i - (j + l)" using assms(2) by (intro unat_of_nat_64) simp
    have "of_nat (j + l) - (of_nat i :: u64) = - ?w" using False by (simp add: of_nat_diff)
    moreover have "- ?w = - 1 - (?w - 1)" by simp
    moreover have "unat (- 1 - (?w - 1)) = 18446744073709551615 - (i - (j + l) - 1)"
    proof -
      have "?w \<noteq> 0" using w False by (auto simp del: of_nat_diff)
      then have "unat (?w - 1) = i - (j + l) - 1" using w by (simp add: unat_minus_one del: of_nat_diff)
      then show ?thesis by (subst unat_minus_64) (simp_all only: unat_minus_one_64 word_n1_ge)
    qed
    ultimately show ?thesis unfolding d using False assms(2,4) by simp
  qed
qed

lemma page_write_put [simp]: "off + n \<le> 4096 \<Longrightarrow> page_write p m (put_at p off n x m)"
  by (simp add: put_at_def page_write_le)

lemma get_at_page_eq: "page_eq m m' p \<Longrightarrow> off + n \<le> 4096 \<Longrightarrow> get_at p off n m = get_at p off n m'"
  unfolding get_at_def page_eq_def
proof (rule read_le_cong)
  fix k assume a: "\<forall>off. unat off < 4096 \<longrightarrow> m (p + off) = m' (p + off)" "off + n \<le> 4096" "k < n"
  then have "unat (of_nat (off + k) :: u64) < 4096" by (simp add: unat_of_nat_64 del: of_nat_add)
  with a(1) show "m (p + of_nat off + of_nat k) = m' (p + of_nat off + of_nat k)"
    by (simp add: add.assoc del: unsigned_of_nat)
qed

text \<open>A field of a copied structure is the field of the original.\<close>

lemma read_le_shift: "(\<And>k. k < n \<Longrightarrow> m (a + of_nat k) = m' (b + of_nat k)) \<Longrightarrow> read_le n m a = read_le n m' b"
proof (induction n arbitrary: a b)
  case (Suc n)
  have "read_le n m (a + 1) = read_le n m' (b + 1)"
    using Suc.prems [of "Suc k" for k] by (intro Suc.IH) (simp add: add.assoc)
  then show ?case using Suc.prems [of 0] by simp
qed simp

lemma get_at_memcpy:
  assumes "base \<le> j" "j + n \<le> base + sz" "base + sz \<le> 4096"
    and "\<And>k. k < sz \<Longrightarrow> \<not> unat (src + of_nat k - p) < 4096"
  shows "get_at p j n (memcpy (p + of_nat base) src sz m) = read_le n m (src + of_nat (j - base))"
  unfolding get_at_def
proof (rule read_le_shift)
  fix k assume k: "k < n"
  have sep: "p + of_nat base + of_nat i \<noteq> src + of_nat l" if "i < sz" "l < sz" for i l
  proof
    assume "p + of_nat base + of_nat i = src + of_nat l"
    then have "src + of_nat l = p + of_nat (base + i)" unfolding of_nat_add add.assoc [symmetric] by (rule sym)
    then have "src + of_nat l - p = of_nat (base + i)" by (simp only: add_diff_cancel_left')
    moreover have "unat (of_nat (base + i) :: u64) < 4096"
      using that(1) assms(3) by (simp add: unat_of_nat_64 del: of_nat_add)
    ultimately show False using assms(4) [OF that(2)] by simp
  qed
  have d: "p + of_nat j + of_nat k - (p + of_nat base) = (of_nat (j - base + k) :: u64)"
    using assms(1) by (simp add: of_nat_diff)
  have "unat (of_nat (j - base + k) :: u64) = j - base + k"
    using k assms by (intro unat_of_nat_64) simp
  then have "unat (p + of_nat j + of_nat k - (p + of_nat base)) < sz" using k assms(1,2) unfolding d by simp
  then have "memcpy (p + of_nat base) src sz m (p + of_nat j + of_nat k) = m (src + of_nat (j - base + k))"
    using sep assms(3) by (subst memcpy_apply) (simp_all only: d if_True, simp)
  then show "memcpy (p + of_nat base) src sz m (p + of_nat j + of_nat k) = m (src + of_nat (j - base) + of_nat k)"
    by (simp add: add.assoc)
qed

end
