(* ===== verification/Linux_Boot.thy ===== *)
theory Linux_Boot
  imports Linux_Loader Page_Writes
begin

text \<open>
  What the Linux loader does to a machine: every page it writes is a guest page of the machine, for every
  image whose kernel goes to a page boundary; and for an image that passes its checks and fits, the guest
  finds the kernel, the command line, the zero page and the page tables where the boot protocol wants them.
\<close>

section \<open>The zero page\<close>

lemma set_hdr_put: "set_field linux_setup_header_t f x (linux_hdr p) m =
    put_at p (497 + offsetof linux_setup_header_t f) (sizeof_field linux_setup_header_t f) x m"
  by (simp add: set_field_def put_at_def linux_hdr_def linux_params_offsets add.assoc)

lemma get_hdr_at: "get_field linux_setup_header_t f (linux_hdr p) m =
    get_at p (497 + offsetof linux_setup_header_t f) (sizeof_field linux_setup_header_t f) m"
  by (simp add: get_field_def get_at_def linux_hdr_def linux_params_offsets add.assoc)

lemma set_param_put: "set_field linux_boot_params_t f x p m =
    put_at p (offsetof linux_boot_params_t f) (sizeof_field linux_boot_params_t f) x m"
  by (simp add: set_field_def put_at_def)

lemma e820_put: "linux_e820_entry i addr sz ty p m =
    put_at p (720 + i * 20 + 16) 4 ty (put_at p (720 + i * 20 + 8) 8 sz (put_at p (720 + i * 20) 8 addr m))"
  by (simp add: linux_e820_entry_def set_field_def put_at_def linux_params_offsets linux_e820_offsets Let_def add.assoc)

lemma linux_setup_header_size_bound: "unat (linux_setup_header_size hdr m) \<le> 272"
proof -
  let ?j = "get_field linux_setup_header_t ''jump'' hdr m"
  have "unat ?j < 65536" using read_le_less [of 2] by (simp add: get_field_def linux_header_offsets)
  then have "unat (drop_bit 8 ?j) \<le> 255" by (simp add: unsigned_drop_bit_eq drop_bit_eq_div unat_div)
  then have "unat (drop_bit 8 ?j + (15 + 2)) \<le> 272" by (subst unat_plus_64_no_wrap) simp_all
  then show ?thesis by (simp add: linux_setup_header_size_def linux_header_offsets add.commute)
qed

text \<open>The copy of the image's header, before the loader's own fields.\<close>

definition zeropage_copy :: "u64 \<Rightarrow> u64 \<Rightarrow> phys_mem \<Rightarrow> phys_mem" where
  "zeropage_copy ih zp m = memcpy (linux_hdr zp) ih (unat (linux_setup_header_size ih m)) (memset zp 0 4096 m)"

lemmas zeropage_puts = set_hdr_put set_param_put e820_put linux_header_offsets linux_params_offsets

lemma zeropage_copy_write: "page_write zp m (zeropage_copy ih zp m)"
proof -
  have "page_write zp m (memset (zp + of_nat 0) 0 4096 m)" by (rule page_write_memset) simp
  moreover have "page_write zp (memset zp 0 4096 m) (zeropage_copy ih zp m)"
    unfolding zeropage_copy_def linux_hdr_def linux_params_offsets
    using linux_setup_header_size_bound [of ih m] by (intro page_write_memcpy) simp
  ultimately show ?thesis using page_write_trans by simp
qed

lemma page_write_put_trans: "page_write p m m' \<Longrightarrow> off + n \<le> 4096 \<Longrightarrow> page_write p m (put_at p off n x m')"
  using page_write_trans page_write_put by blast

lemma linux_setup_zeropage_write: "page_write zp m (linux_setup_zeropage ih zp cl n m)"
proof -
  have "page_write zp m (if c then put_at zp 497 1 4 m' else m')" if "page_write zp m m'" for c m'
    using that by (simp add: page_write_put_trans)
  then show ?thesis
    unfolding linux_setup_zeropage_def Let_def zeropage_puts PAGE_SIZE_def
    using zeropage_copy_write [of zp m ih, unfolded zeropage_copy_def]
    by (simp add: zeropage_puts) (intro conjI impI; intro page_write_put_trans; simp)
qed

text \<open>What the kernel reads from it.\<close>

definition image_field :: "string \<Rightarrow> u64 \<Rightarrow> phys_mem \<Rightarrow> u64" where
  "image_field f ih m = get_field linux_setup_header_t f ih m"

definition linux_sects :: "u64 \<Rightarrow> phys_mem \<Rightarrow> u64" where
  "linux_sects ih m = (if image_field ''setup_sects'' ih m = 0 then 4 else image_field ''setup_sects'' ih m)"

lemma zeropage_copy_field:
  assumes "\<And>k. k < 272 \<Longrightarrow> \<not> unat (ih + of_nat k - zp) < 4096" "off + n \<le> unat (linux_setup_header_size ih m)"
  shows "get_at zp (497 + off) n (zeropage_copy ih zp m) = read_le n m (ih + of_nat off)"
proof -
  note b = linux_setup_header_size_bound [of ih m]
  have "get_at zp (497 + off) n (zeropage_copy ih zp m) = read_le n (memset zp 0 4096 m) (ih + of_nat (497 + off - 497))"
    unfolding zeropage_copy_def linux_hdr_def linux_params_offsets
    using b assms by (intro get_at_memcpy) auto
  also have "\<dots> = read_le n m (ih + of_nat off)"
    unfolding add_diff_cancel_left'
  proof (rule read_le_cong)
    fix k assume "k < n"
    then have "\<not> unat (ih + of_nat (off + k) - zp) < 4096" using b assms(2) by (intro assms(1)) simp
    moreover have "ih + of_nat (off + k) = ih + of_nat off + of_nat k" by (simp add: add.assoc)
    ultimately have "\<not> unat (ih + of_nat off + of_nat k - zp) < 4096" by metis
    then show "memset zp 0 4096 m (ih + of_nat off + of_nat k) = m (ih + of_nat off + of_nat k)"
      by (simp add: memset_apply)
  qed
  finally show ?thesis by simp
qed

lemma get_at_if: "get_at p j n (if c then m else m') = (if c then get_at p j n m else get_at p j n m')"
  by simp

lemma linux_setup_zeropage_fields:
  assumes "\<forall>k < 272. \<not> unat (ih + of_nat k - zp) < 4096" "111 \<le> unat (linux_setup_header_size ih m)"
    and z_def: "z = linux_setup_zeropage ih zp cl n m"
  shows "get_field linux_setup_header_t ''pref_address'' (linux_hdr zp) z = image_field ''pref_address'' ih m"
    "get_field linux_setup_header_t ''kernel_alignment'' (linux_hdr zp) z = image_field ''kernel_alignment'' ih m"
    "get_field linux_setup_header_t ''setup_sects'' (linux_hdr zp) z = linux_sects ih m"
    "get_at zp 552 4 z = take_bit 32 cl" "get_at zp 200 4 z = drop_bit 32 cl" "get_at zp 488 1 z = 2"
    "get_at zp 720 8 z = 0" "get_at zp 728 8 z = 0xa0000" "get_at zp 736 4 z = 1"
    "get_at zp 740 8 z = 0xa0000" "get_at zp 748 8 z = (n - 0xa0) * 0x1000" "get_at zp 756 4 z = 1"
proof -
  have c: "get_at zp 600 8 (zeropage_copy ih zp m) = image_field ''pref_address'' ih m"
    "get_at zp 560 4 (zeropage_copy ih zp m) = image_field ''kernel_alignment'' ih m"
    "get_at zp 497 1 (zeropage_copy ih zp m) = image_field ''setup_sects'' ih m"
    using zeropage_copy_field [of ih zp 103 8 m] zeropage_copy_field [of ih zp 63 4 m]
      zeropage_copy_field [of ih zp 0 1 m] assms(1,2)
    by (simp_all add: image_field_def get_field_def linux_header_offsets)
  have z: "z = (let m = put_at zp 528 1 0xFF (put_at zp 506 2 0xFFFF (zeropage_copy ih zp m));
      m = put_at zp 529 1 (get_at zp 529 1 m AND 0x1f) m;
      m = put_at zp 196 4 0 (put_at zp 540 4 0 (put_at zp 192 4 0 (put_at zp 536 4 0 (put_at zp 548 2 0 m))));
      m = put_at zp 488 1 2 (put_at zp 200 4 (drop_bit 32 cl) (put_at zp 552 4 (cl AND 0xffffffff) m));
      m = put_at zp 736 4 1 (put_at zp 728 8 0xa0000 (put_at zp 720 8 0 m));
      m = put_at zp 756 4 1 (put_at zp 748 8 ((n - 0xa0) * 0x1000) (put_at zp 740 8 0xa0000 m))
    in if get_at zp 497 1 m = 0 then put_at zp 497 1 4 m else m)"
    unfolding z_def linux_setup_zeropage_def zeropage_copy_def Let_def
    by (simp add: zeropage_puts get_hdr_at PAGE_SIZE_def)
  have t: "take_bit 64 x = x" "take_bit 32 (drop_bit 32 x) = drop_bit 32 x" for x :: u64
    by (rule bit_word_eqI; auto simp: bit_simps dest: bit_imp_le_length)+
  have l: "x AND 0xffffffff = take_bit 32 x" for x :: u64 by (simp add: take_bit_eq_mask mask_eq_exp_minus_1)
  show "get_field linux_setup_header_t ''pref_address'' (linux_hdr zp) z = image_field ''pref_address'' ih m"
    "get_field linux_setup_header_t ''kernel_alignment'' (linux_hdr zp) z = image_field ''kernel_alignment'' ih m"
    "get_field linux_setup_header_t ''setup_sects'' (linux_hdr zp) z = linux_sects ih m"
    unfolding z get_hdr_at Let_def linux_sects_def by (simp_all add: linux_header_offsets field_simps c get_at_if del: One_nat_def)
  show "get_at zp 552 4 z = take_bit 32 cl" "get_at zp 200 4 z = drop_bit 32 cl" "get_at zp 488 1 z = 2"
    "get_at zp 720 8 z = 0" "get_at zp 728 8 z = 0xa0000" "get_at zp 736 4 z = 1"
    "get_at zp 740 8 z = 0xa0000" "get_at zp 748 8 z = (n - 0xa0) * 0x1000" "get_at zp 756 4 z = 1"
    unfolding z Let_def by (simp_all add: field_simps get_at_if t l)
qed

section \<open>States during the setup of a machine\<close>

text \<open>
  From the state \<open>s\<close> on, the setup changes the record of the machine, only in its initial state and in the
  count of pages in use, and the memory of the guest.
\<close>

definition load_st :: "hv_state \<Rightarrow> u64 \<Rightarrow> vm_t \<Rightarrow> phys_mem \<Rightarrow> hv_state" where
  "load_st s vp w m = put_vm vp w (s\<lparr>phys := m\<rparr>)"

definition vm_same :: "vm_t \<Rightarrow> vm_t \<Rightarrow> bool" where
  "vm_same v w \<longleftrightarrow> tracked_pages w = tracked_pages v \<and> vm_flags w = vm_flags v \<and> vmcs_region w = vmcs_region v \<and>
     ept_root w = ept_root v \<and> guest_physical_pages w = guest_physical_pages v \<and> vm_name w = vm_name v \<and>
     vm_devices w = vm_devices v \<and> permanent_xcr0 w = permanent_xcr0 v"

lemma vm_same_updates [intro]:
  assumes "vm_same v w"
  shows "vm_same v (w\<lparr>vmcs_config := (vmcs_config w)\<lparr>guest_state := g\<rparr>\<rparr>)" "vm_same v (w\<lparr>initial_gpr_state := r\<rparr>)"
    "vm_same v (w\<lparr>guest_physical_pages_used_by_initial_setup := u\<rparr>)"
  using assms by (simp_all add: vm_same_def)

lemma vm_same_fields:
  assumes "vm_same v w"
  shows "vm_walk m w x = vm_walk m v x" "guest_pages w = guest_pages v"
    "guest_mapped m w ps = guest_mapped m v ps" "guest_write w m m' = guest_write v m m'"
proof -
  show x: "vm_walk m w x = vm_walk m v x" for m x using assms by (simp add: vm_walk_def vm_same_def)
  show p: "guest_pages w = guest_pages v" using assms by (simp add: vm_same_def)
  show "guest_mapped m w ps = guest_mapped m v ps" "guest_write w m m' = guest_write v m m'"
    by (simp_all add: guest_mapped_def guest_write_def p x)
qed

lemma load_st_simps:
  assumes "get_vm s vp = Inr v"
  shows "get_vm (load_st s vp w m) vp = Inr w" "put_vm vp w' (load_st s vp w m) = load_st s vp w' m"
    "phys (load_st s vp w m) = m" "(load_st s vp w m)\<lparr>phys := m'\<rparr> = load_st s vp w m'"
    "cpu (load_st s vp w m) = cpu s"
proof -
  have g: "get_vm (s\<lparr>phys := m\<rparr>) vp = Inr v" using assms by simp
  show "get_vm (load_st s vp w m) vp = Inr w" by (simp add: load_st_def get_put_vm [OF g])
  show "put_vm vp w' (load_st s vp w m) = load_st s vp w' m" by (simp only: load_st_def put_vm_put_vm)
qed (simp_all add: load_st_def put_vm_def)

lemma setup_st_load: "setup_st s vp v u m = load_st s vp (v\<lparr>guest_physical_pages_used_by_initial_setup := u\<rparr>) m"
  by (simp add: setup_st_def load_st_def)

text \<open>What such a state keeps.\<close>

lemma load_st_ok:
  assumes "hv_ok s as" "get_vm s vp = Inr v" "vm_same v w" "guest_write v (phys s) m"
  shows "hv_ok (load_st s vp w m) as" "owned (load_st s vp w m) as = owned s as" "vm_others vp s (load_st s vp w m)"
    "guest_mapped (phys s) v ps \<Longrightarrow> guest_mapped m w ps"
proof -
  note g = guest_write_ok [OF assms(1,2,4)]
  have v: "get_vm (s\<lparr>phys := m\<rparr>) vp = Inr v" using assms(2) by simp
  have o: "owned (s\<lparr>phys := m\<rparr>) as = owned s as" by (simp add: owned_def)
  have "tracked_pages w = tracked_pages v" "vm_flags w = vm_flags v" "vmcs_region w = vmcs_region v" "ept_root w = ept_root v"
    using assms(3) by (simp_all add: vm_same_def)
  from hv_ok_put_same [OF g(1) v this] o
  show "hv_ok (load_st s vp w m) as" "owned (load_st s vp w m) as = owned s as" by (simp_all add: load_st_def)
  have "vm_others vp (s\<lparr>phys := m\<rparr>) (load_st s vp w m)"
    unfolding vm_others_def load_st_def get_put_vm [OF v] by simp
  then show "vm_others vp s (load_st s vp w m)" by (rule vm_others_trans [OF g(3)])
  show "guest_mapped m w ps" if "guest_mapped (phys s) v ps"
    using guest_mapped_write [OF assms(1,2) that assms(4)] vm_same_fields [OF assms(3)] by simp
qed

section \<open>Every page that the loader writes is a guest page\<close>

text \<open>An operation panics, divides by zero as the loader can, or has a result with the property.\<close>

definition loader_outcome :: "('a \<Rightarrow> bool) \<Rightarrow> 'a res \<Rightarrow> bool" where
  "loader_outcome P r \<longleftrightarrow> (case r of Inl e \<Rightarrow> (\<exists>m. e = Panic m) \<or> e = Fault ''division by zero'' | Inr a \<Rightarrow> P a)"

lemma loader_outcome_simps [simp]:
  "loader_outcome P (Inr a) = P a" "loader_outcome P (Inl (Panic m))" "loader_outcome P (Inl (Fault ''division by zero''))"
  by (simp_all add: loader_outcome_def)

lemma loader_outcome_bnd:
  assumes "loader_outcome Q r" "\<And>a. Q a \<Longrightarrow> loader_outcome P (f a)"
  shows "loader_outcome P (bnd r f)"
  using assms by (cases r) (simp_all add: loader_outcome_def)

lemma loader_outcome_loop:
  assumes "I i s" "\<And>j t. I j t \<Longrightarrow> loader_outcome (I (Suc j)) (body j t)"
  shows "loader_outcome (I (i + n)) (for_loop body i n s)"
  using assms(1)
proof (induction n arbitrary: i s)
  case (Suc n)
  show ?case using assms(2) [OF Suc.prems] Suc.IH [of "Suc i"] by (auto intro!: loader_outcome_bnd)
qed simp

definition loader_ready :: "hv_state \<Rightarrow> u64 list \<Rightarrow> u64 \<Rightarrow> vm_t \<Rightarrow> u64 list \<Rightarrow> bool" where
  "loader_ready s as vp v ps \<longleftrightarrow> hv_ok s as \<and> get_vm s vp = Inr v \<and> guest_mapped (phys s) v ps \<and>
     length ps \<le> 68719476736 \<and> guest_physical_pages v = of_nat (length ps) \<and>
     guest_physical_pages_used_by_initial_setup v = 0"

definition load_inv :: "hv_state \<Rightarrow> u64 \<Rightarrow> vm_t \<Rightarrow> hv_state \<Rightarrow> bool" where
  "load_inv s vp v t \<longleftrightarrow> (\<exists>w m. t = load_st s vp w m \<and> vm_same v w \<and> guest_write v (phys s) m)"

lemma load_invI: "vm_same v w \<Longrightarrow> guest_write v (phys s) m \<Longrightarrow> load_inv s vp v (load_st s vp w m)"
  unfolding load_inv_def by blast

lemma page_aligned_times: "page_aligned (x * PAGE_SIZE)"
proof -
  have "unat (x * 0x1000) mod 4096 = 0"
    unfolding unat_word_ariths(2) by (subst mod_mod_cancel) simp_all
  then show ?thesis by (simp add: page_aligned_iff PAGE_SIZE_def)
qed

lemma setup_identity_outcome:
  assumes "loader_ready s as vp v ps"
  shows "loader_outcome (\<lambda>(cr3, t). load_inv s vp v t) (vm_guest_paging_setup_identity vp s)"
proof -
  have r: "hv_ok s as" "get_vm s vp = Inr v" "guest_mapped (phys s) v ps" "length ps \<le> 68719476736"
    "guest_physical_pages v = of_nat (length ps)" "guest_physical_pages_used_by_initial_setup v = 0"
    using assms by (simp_all add: loader_ready_def)
  consider "length ps = 0" | "length ps = 1" | "2 \<le> length ps" "length ps < 514" | "514 \<le> length ps" by linarith
  then show ?thesis
  proof cases
    case 1
    then show ?thesis using r by (simp add: vm_guest_paging_setup_identity_def)
  next
    case 2
    from vm_guest_paging_setup_identity_one [OF r(2,3) this] r(5,6) 2 show ?thesis by simp
  next
    case 3
    with r have "paging_ready s as vp v ps" by (simp add: paging_ready_def)
    from vm_guest_paging_setup_identity_too_small [OF this 3(2) r(6)] show ?thesis by simp
  next
    case 4
    with r have "paging_ready s as vp v ps" by (simp add: paging_ready_def)
    then obtain m where "vm_guest_paging_setup_identity vp s = Inr (guest_frame (length ps - 1), setup_st s vp v 514 m)"
      "guest_write v (phys s) m" by (rule vm_guest_paging_setup_identity_ok [OF _ 4 r(6)]) blast
    moreover have "vm_same v (v\<lparr>guest_physical_pages_used_by_initial_setup := 514\<rparr>)" by (simp add: vm_same_def)
    ultimately show ?thesis unfolding load_inv_def by (auto simp: setup_st_load)
  qed
qed

lemma load_inv_set_state:
  assumes "loader_ready s as vp v ps" "load_inv s vp v t"
  shows "loader_outcome (load_inv s vp v) (vm_set_guest_state vp f t)"
proof -
  have g: "get_vm s vp = Inr v" using assms(1) by (simp add: loader_ready_def)
  obtain w m where t: "t = load_st s vp w m" "vm_same v w" "guest_write v (phys s) m"
    using assms(2) by (auto simp: load_inv_def)
  then show ?thesis
    using load_invI [OF vm_same_updates(1) [OF t(2)] t(3)] by (simp add: vm_set_guest_state_def load_st_simps [OF g])
qed

lemma load_inv_memory:
  assumes "loader_ready s as vp v ps" "load_inv s vp v t" "guest_write v (phys t) m"
  shows "load_inv s vp v (t\<lparr>phys := m\<rparr>)"
proof -
  have g: "get_vm s vp = Inr v" using assms(1) by (simp add: loader_ready_def)
  obtain w m0 where t: "t = load_st s vp w m0" "vm_same v w" "guest_write v (phys s) m0"
    using assms(2) by (auto simp: load_inv_def)
  have "guest_write v (phys s) m" using guest_write_trans [OF t(3)] assms(3) by (simp add: t(1) load_st_simps [OF g])
  from load_invI [OF t(2) this] show ?thesis by (simp add: t(1) load_st_simps [OF g])
qed

text \<open>The host address of a guest page, as every step of the loader looks it up.\<close>

lemma load_inv_lookup:
  assumes "loader_ready s as vp v ps" "load_inv s vp v t"
  obtains (none) "vmx_ept_get_host_physical_address t vp x = Inr None" "length ps \<le> guest_pfn x"
  | (some) h where "vmx_ept_get_host_physical_address t vp x = Inr (Some h)" "guest_pfn x < length ps"
    "h = ps ! guest_pfn x + (x AND 0xfff)" "page_aligned x \<Longrightarrow> h \<in># guest_pages v \<and> page_aligned h"
proof -
  have r: "hv_ok s as" "get_vm s vp = Inr v" "guest_mapped (phys s) v ps" using assms(1) by (simp_all add: loader_ready_def)
  obtain w m where t: "t = load_st s vp w m" "vm_same v w" "guest_write v (phys s) m" using assms(2) by (auto simp: load_inv_def)
  have gm: "guest_mapped m w ps" by (rule load_st_ok(4) [OF r(1,2) t(2,3) r(3)])
  have walk: "vmx_ept_get_host_physical_address t vp x = Inr (if guest_pfn x < length ps then
      Some (ps ! guest_pfn x + (x AND 0xfff)) else None)"
    using gm by (simp add: vmx_ept_get_host_physical_address_def t(1) load_st_simps [OF r(2)] guest_mapped_def)
  show ?thesis
  proof (cases "guest_pfn x < length ps")
    case True
    have "ps ! guest_pfn x \<in># guest_pages v" using True r(3) by (simp add: guest_mapped_def)
    moreover have "page_aligned (ps ! guest_pfn x)"
      using owned_page_aligned [OF r(1,2) kind_in_pages [OF calculation]] .
    moreover have "ps ! guest_pfn x + (x AND 0xfff) = ps ! guest_pfn x" if "page_aligned x"
      using that by (simp add: page_aligned_def)
    ultimately show ?thesis using True walk by (intro some [of "ps ! guest_pfn x + (x AND 0xfff)"]) simp_all
  qed (use walk none in simp)
qed

lemma reserve_page_outcome:
  assumes "loader_ready s as vp v ps" "load_inv s vp v t"
  shows "loader_outcome (\<lambda>(g, h, t'). load_inv s vp v t' \<and> phys t' = phys t \<and> h \<in># guest_pages v \<and> page_aligned h)
    (linux_reserve_page msg vp t)"
proof -
  have g: "get_vm s vp = Inr v" using assms(1) by (simp add: loader_ready_def)
  obtain w m where t: "t = load_st s vp w m" "vm_same v w" "guest_write v (phys s) m" using assms(2) by (auto simp: load_inv_def)
  let ?t = "load_st s vp (w\<lparr>guest_physical_pages_used_by_initial_setup := guest_physical_pages_used_by_initial_setup w + 1\<rparr>) m"
  let ?x = "(guest_physical_pages w - guest_physical_pages_used_by_initial_setup w - 1) * PAGE_SIZE"
  have use_page: "vm_use_pages vp 1 t = Inr ?t" "get_vm t vp = Inr w" "phys ?t = phys t"
    by (simp_all add: vm_use_pages_def t(1) load_st_simps [OF g])
  have inv: "load_inv s vp v ?t" by (rule load_invI [OF vm_same_updates(3) [OF t(2)] t(3)])
  have al: "page_aligned ?x" by (rule page_aligned_times)
  from load_inv_lookup [OF assms(1) inv, of ?x] show ?thesis
    by cases (simp_all add: linux_reserve_page_def use_page al inv Let_def)
qed

lemma copy_cmdline_outcome:
  assumes "length (c_string cmdline) < 4096"
  shows "loader_outcome (page_write h m) (linux_copy_cmdline hdr cmdline h m)"
proof -
  let ?l = "length (c_string cmdline)"
  have "page_write h m (memcpy_from (h + of_nat 0) (map char_byte (c_string cmdline)) m)"
    using assms by (intro page_write_memcpy_from) simp
  from page_write_trans [OF this page_write_upd [OF assms]]
  have "page_write h m ((memcpy_from h (map char_byte (c_string cmdline)) m)(h + of_nat ?l := 0))" by simp
  then show ?thesis by (auto simp: linux_copy_cmdline_def str_strlen_def Let_def simp del: fun_upd_apply)
qed

lemma copy_page_outcome:
  assumes "loader_ready s as vp v ps" "load_inv s vp v t" "page_aligned pref"
  shows "loader_outcome (load_inv s vp v) (linux_copy_page vp img ksize kpages pref i t)"
proof -
  have al: "page_aligned (pref + of_nat i * PAGE_SIZE)"
    by (rule page_aligned_plus [OF assms(3) page_aligned_times])
  show ?thesis
  proof (cases rule: load_inv_lookup [OF assms(1,2), of "pref + of_nat i * PAGE_SIZE"])
    case (2 h)
    note some = 2
    let ?n = "if of_nat i < kpages - 1 \<or> ksize mod PAGE_SIZE = 0 then PAGE_SIZE else ksize mod PAGE_SIZE"
    let ?m = "memcpy h (V2P_IDENTITY_MAP (img + of_nat i * PAGE_SIZE)) (unat ?n) (phys t)"
    have "unat (ksize mod PAGE_SIZE) < 4096" by (simp add: PAGE_SIZE_def unat_mod)
    then have n: "0 + unat ?n \<le> 4096" by (simp add: PAGE_SIZE_def)
    have "page_write h (phys t) ?m" using page_write_memcpy [OF n, of h] by simp
    from page_write_guest [OF this] some(4) [OF al] have "guest_write v (phys t) ?m" by blast
    from load_inv_memory [OF assms(1,2) this] some(1) show ?thesis by (simp add: linux_copy_page_def Let_def)
  qed (simp add: linux_copy_page_def)
qed

lemma load_kernel_outcome:
  assumes "loader_ready s as vp v ps" "load_inv s vp v t"
    and "page_aligned (get_field linux_setup_header_t ''pref_address'' hdr (phys t))"
  shows "loader_outcome (\<lambda>(p, t'). load_inv s vp v t') (linux_load_kernel vp img image_size hdr t)"
proof -
  have loop: "loader_outcome (load_inv s vp v) (for_loop (linux_copy_page vp a b c p) i n t)"
    if "page_aligned p" for a b c p i n
    using loader_outcome_loop [of "\<lambda>_. load_inv s vp v"] assms(2) copy_page_outcome [OF assms(1) _ that] by blast
  show ?thesis
    unfolding linux_load_kernel_def Let_def
    by (auto intro!: loader_outcome_bnd [OF loop [OF assms(3)]])
qed

text \<open>The bytes of the image are in no page of the guest, so the setup does not change them.\<close>

definition image_outside :: "vm_t \<Rightarrow> u64 \<Rightarrow> u64 \<Rightarrow> bool" where
  "image_outside v img sz \<longleftrightarrow> (\<forall>k < unat sz. (V2P_IDENTITY_MAP img + of_nat k) AND PAGE_MASK \<notin># guest_pages v)"

lemma image_byte:
  "image_outside v img sz \<Longrightarrow> guest_write v m m' \<Longrightarrow> k < unat sz \<Longrightarrow>
   m' (V2P_IDENTITY_MAP img + of_nat k) = m (V2P_IDENTITY_MAP img + of_nat k)"
  unfolding image_outside_def by (blast intro: guest_write_outside)

lemma offsetof_bound: "offsetof l f + sizeof_field l f \<le> sizeof_packed l"
  by (induction l) (auto simp: sizeof_packed_def)

abbreviation image_hdr :: "u64 \<Rightarrow> u64" where
  "image_hdr img \<equiv> linux_hdr (V2P_IDENTITY_MAP img)"

lemma image_hdr_field:
  assumes "image_outside v img sz" "guest_write v m m'" "769 \<le> unat sz"
  shows "get_field linux_setup_header_t f (image_hdr img) m' = get_field linux_setup_header_t f (image_hdr img) m"
  unfolding get_field_def linux_hdr_def linux_params_offsets
proof (rule read_le_cong)
  fix k assume "k < sizeof_field linux_setup_header_t f"
  then have "497 + offsetof linux_setup_header_t f + k < unat sz"
    using offsetof_bound [of linux_setup_header_t f] assms(3) by (simp add: linux_header_offsets)
  from image_byte [OF assms(1,2) this]
  show "m' (V2P_IDENTITY_MAP img + of_nat 497 + of_nat (offsetof linux_setup_header_t f) + of_nat k) =
      m (V2P_IDENTITY_MAP img + of_nat 497 + of_nat (offsetof linux_setup_header_t f) + of_nat k)"
    by (simp only: of_nat_add add.assoc)
qed

lemma image_hdr_kept:
  assumes "image_outside v img sz" "guest_write v m m'" "769 \<le> unat sz"
  shows "linux_setup_header_size (image_hdr img) m' = linux_setup_header_size (image_hdr img) m"
    "image_field f (image_hdr img) m' = image_field f (image_hdr img) m"
    "linux_check_header (image_hdr img) m' = linux_check_header (image_hdr img) m"
    "linux_sects (image_hdr img) m' = linux_sects (image_hdr img) m"
  by (simp_all add: linux_setup_header_size_def image_field_def linux_check_header_def linux_sects_def
    image_hdr_field [OF assms])

lemma image_hdr_apart:
  assumes "image_outside v img sz" "769 \<le> unat sz" "zp \<in># guest_pages v" "page_aligned zp"
  shows "\<forall>k < 272. \<not> unat (image_hdr img + of_nat k - zp) < 4096"
proof (intro allI impI notI)
  fix k :: nat assume "k < 272"
  assume "unat (image_hdr img + of_nat k - zp) < 4096"
  from page_base_plus(1) [OF assms(4) this] have "(image_hdr img + of_nat k) AND PAGE_MASK = zp" by (simp add: PAGE_MASK_def)
  moreover have "image_hdr img + of_nat k = V2P_IDENTITY_MAP img + of_nat (497 + k)"
    by (simp add: linux_hdr_def linux_params_offsets add.assoc)
  moreover have "497 + k < unat sz" using assms(2) \<open>k < 272\<close> by simp
  ultimately show False using assms(1,3) unfolding image_outside_def by metis
qed

definition image_pref_aligned :: "u64 \<Rightarrow> phys_mem \<Rightarrow> bool" where
  "image_pref_aligned img m \<longleftrightarrow> 111 \<le> unat (linux_setup_header_size (image_hdr img) m) \<and>
     page_aligned (image_field ''pref_address'' (image_hdr img) m)"

lemma vm_guest_linux_loader_outcome:
  assumes "loader_ready s as vp v ps" "image_outside v img sz" "769 \<le> unat sz" "image_pref_aligned img (phys s)"
    and "length (c_string cmdline) < 4096"
  shows "loader_outcome (load_inv s vp v) (vm_guest_linux_loader vp img sz cmdline s)"
proof -
  let ?ih = "image_hdr img"
  have g: "get_vm s vp = Inr v" using assms(1) by (simp add: loader_ready_def)
  have vm: "\<exists>w. get_vm t vp = Inr w \<and> vm_same v w \<and> guest_write v (phys s) (phys t) \<and>
      (\<forall>r. load_inv s vp v (put_vm vp (w\<lparr>initial_gpr_state := r\<rparr>) t))" if "load_inv s vp v t" for t
    using that load_invI vm_same_updates(2) by (auto simp: load_inv_def load_st_simps [OF g])
  have entry: "loader_outcome (load_inv s vp v) (bnd (get_vm t vp) (\<lambda>v. vm_set_guest_state vp f
      (put_vm vp (v\<lparr>initial_gpr_state := (initial_gpr_state v)\<lparr>rsi := x\<rparr>\<rparr>) t)))" if "load_inv s vp v t" for t f x
    using vm [OF that] load_inv_set_state [OF assms(1)] by auto
  have last: "loader_outcome (load_inv s vp v) (bnd (linux_load_kernel vp img sz (linux_hdr zp)
        (t\<lparr>phys := linux_setup_zeropage ?ih zp cl n m\<rparr>)) (\<lambda>(p, t). bnd (get_vm t vp) (\<lambda>v. vm_set_guest_state vp (f p t)
      (put_vm vp (v\<lparr>initial_gpr_state := (initial_gpr_state v)\<lparr>rsi := x\<rparr>\<rparr>) t))))"
    if "load_inv s vp v t" "guest_write v (phys t) m" "zp \<in># guest_pages v" "page_aligned zp" for t zp cl n m f x
  proof -
    let ?z = "linux_setup_zeropage ?ih zp cl n m"
    have w: "guest_write v (phys s) m" using vm [OF that(1)] that(2) guest_write_trans by blast
    have "guest_write v (phys t) ?z"
      using guest_write_trans [OF that(2) page_write_guest [OF linux_setup_zeropage_write that(4,3)]] .
    from load_inv_memory [OF assms(1) that(1) this] have inv: "load_inv s vp v (t\<lparr>phys := ?z\<rparr>)" .
    have "111 \<le> unat (linux_setup_header_size ?ih m)"
      using assms(4) by (simp add: image_pref_aligned_def image_hdr_kept(1) [OF assms(2) w assms(3)])
    from linux_setup_zeropage_fields(1) [OF image_hdr_apart [OF assms(2,3) that(3,4)] this refl, of cl n]
    have "page_aligned (get_field linux_setup_header_t ''pref_address'' (linux_hdr zp) (phys (t\<lparr>phys := ?z\<rparr>)))"
      using assms(4) by (simp add: image_pref_aligned_def image_hdr_kept(2) [OF assms(2) w assms(3)])
    from load_kernel_outcome [OF assms(1) inv this] show ?thesis
      by (rule loader_outcome_bnd) (auto intro: entry)
  qed
  have last': "loader_outcome (load_inv s vp v) (bnd (get_vm t vp) (\<lambda>v. bnd (linux_load_kernel vp img sz (linux_hdr zp)
        (t\<lparr>phys := linux_setup_zeropage ?ih zp cl (guest_physical_pages v) m\<rparr>)) (\<lambda>(p, t). bnd (get_vm t vp)
      (\<lambda>v. vm_set_guest_state vp (linux_guest_state p t)
      (put_vm vp (v\<lparr>initial_gpr_state := (initial_gpr_state v)\<lparr>rsi := x\<rparr>\<rparr>) t)))))"
    if "load_inv s vp v t" "page_write cp (phys t) m" "cp \<in># guest_pages v" "page_aligned cp"
      "zp \<in># guest_pages v" "page_aligned zp" for t cp zp cl m x
    using vm [OF that(1)] last [OF that(1) page_write_guest [OF that(2,4,3)] that(5,6)] by auto
  have memory: "loader_outcome (\<lambda>_. True) (linux_check_memory vp sz t)" if "load_inv s vp v t" for t
    using vm [OF that] by (auto simp: linux_check_memory_def)
  have header: "loader_outcome (\<lambda>_. True) (linux_check_header hdr m)" for hdr m
    by (simp add: linux_check_header_def)
  show ?thesis
  proof (cases "guest_cr3 (guest_state (vmcs_config v)) = 0")
    case True
    show ?thesis
      unfolding vm_guest_linux_loader_def g bnd_simps Let_def True
      apply simp
      apply (rule loader_outcome_bnd [OF setup_identity_outcome [OF assms(1)]], clarsimp)
      apply (rule loader_outcome_bnd [OF load_inv_set_state [OF assms(1)]], assumption)
      apply (rule loader_outcome_bnd [OF header])
      apply (rule loader_outcome_bnd [OF reserve_page_outcome [OF assms(1)]], assumption, clarsimp)
      apply (rule loader_outcome_bnd [OF reserve_page_outcome [OF assms(1)]], assumption, clarsimp)
      apply (rule loader_outcome_bnd [OF memory], assumption)
      apply (rule loader_outcome_bnd [OF copy_cmdline_outcome [OF assms(5)]])
      apply (rule last', assumption, simp only:, assumption+)
      done
  qed (simp add: vm_guest_linux_loader_def g)
qed

section \<open>The kernel in guest memory\<close>

lemma guest_pfn_plus:
  assumes "page_aligned p" "unat p + 4096 * j < 281474976710656"
  shows "guest_pfn (p + of_nat j * PAGE_SIZE) = unat p div 4096 + j"
proof -
  have "unat (of_nat j * PAGE_SIZE) = 4096 * j"
    using assms(2) by (subst unat_mult_64_no_wrap) (simp_all add: unat_of_nat_64 PAGE_SIZE_def)
  then have "unat (p + of_nat j * PAGE_SIZE) = unat p + 4096 * j" using assms(2) by (subst unat_plus_64_no_wrap) simp_all
  then show ?thesis using assms by (simp add: guest_pfn_def page_aligned_iff div_less_iff_less_mult)
qed

text \<open>The bytes of the kernel up to \<open>b\<close> are in place, and of the other pages nothing has changed.\<close>

definition kernel_upto :: "phys_mem \<Rightarrow> phys_mem \<Rightarrow> u64 list \<Rightarrow> nat \<Rightarrow> u64 \<Rightarrow> nat \<Rightarrow> phys_mem \<Rightarrow> nat \<Rightarrow> bool" where
  "kernel_upto m0 img_mem ps P src n m j \<longleftrightarrow>
     (\<forall>k < n. k < 4096 * j \<longrightarrow> m (ps ! (P + k div 4096) + of_nat (k mod 4096)) = img_mem (src + of_nat k)) \<and>
     (\<forall>i < length ps. \<not> (P \<le> i \<and> i < P + j) \<longrightarrow> page_eq m0 m (ps ! i))"

lemma kernel_upto_step:
  assumes "kernel_upto m0 im ps P src n m j" "distinct ps" "\<And>p. p \<in> set ps \<Longrightarrow> page_aligned p" "P + j < length ps"
    and "c = min 4096 (n - 4096 * j)"
    and "\<And>k. k < n \<Longrightarrow> m (src + of_nat k) = im (src + of_nat k)"
    and "\<And>k. k < n \<Longrightarrow> (src + of_nat k) AND PAGE_MASK \<notin> set ps"
  shows "kernel_upto m0 im ps P src n (memcpy (ps ! (P + j)) (src + of_nat (4096 * j)) c m) (Suc j)"
proof -
  let ?d = "ps ! (P + j)" and ?s = "src + of_nat (4096 * j)"
  let ?m = "memcpy ?d ?s c m"
  have d: "?d \<in> set ps" "page_aligned ?d" using assms(3,4) by simp_all
  have c: "c \<le> 4096" "c \<le> n - 4096 * j" using assms(5) by simp_all
  have off: "(?d + of_nat i) AND PAGE_MASK = ?d" if "i < 4096" for i
    using page_base_plus(1) [OF d(2), of "of_nat i"] that by (simp add: PAGE_MASK_def unat_of_nat_64)
  have sep: "?d + of_nat i \<noteq> ?s + of_nat l" if "i < c" "l < c" for i l
  proof
    assume "?d + of_nat i = ?s + of_nat l"
    then have "(src + of_nat (4096 * j + l)) AND PAGE_MASK = ?d" using off [of i] that c(1) by (simp add: add.assoc)
    moreover have "4096 * j + l < n" using that(2) c(2) by simp
    ultimately show False using assms(7) d(1) by metis
  qed
  have read: "?m x = (if unat (x - ?d) < c then m (?s + (x - ?d)) else m x)" for x
    using sep c(1) by (intro memcpy_apply) simp_all
  have "page_write ?d m (memcpy (?d + of_nat 0) ?s c m)" by (rule page_write_memcpy) (use c in simp)
  then have pw: "page_write ?d m ?m" by simp
  have other: "page_eq m ?m (ps ! i)" if "i < length ps" "i \<noteq> P + j" for i
    using that assms(2-4) d by (intro page_write_page_eq [OF pw]) (auto simp: nth_eq_iff_index_eq)
  show ?thesis unfolding kernel_upto_def
  proof (intro conjI allI impI)
    fix k assume k: "k < n" "k < 4096 * Suc j"
    show "?m (ps ! (P + k div 4096) + of_nat (k mod 4096)) = im (src + of_nat k)"
    proof (cases "k < 4096 * j")
      case True
      then have "k div 4096 < j" by (simp add: div_less_iff_less_mult mult.commute)
      then have "P + k div 4096 < length ps" "P + k div 4096 \<noteq> P + j" using assms(4) by simp_all
      from other [OF this] have "?m (ps ! (P + k div 4096) + of_nat (k mod 4096)) = m (ps ! (P + k div 4096) + of_nat (k mod 4096))"
        unfolding page_eq_def by (simp add: unat_of_nat_64 less_trans [OF mod_less_divisor])
      with assms(1) k(1) True show ?thesis by (simp add: kernel_upto_def)
    next
      case False
      let ?o = "k - 4096 * j"
      have o1: "k div 4096 = j" using False k(2) by (intro div_nat_eqI) simp_all
      then have o2: "k mod 4096 = ?o" by (simp add: modulo_nat_def mult.commute)
      have "?o < 4096" using False k(2) by simp
      moreover have "?o < n - 4096 * j" using False k(1) by simp
      ultimately have oc: "?o < 4096 \<and> ?o < n - 4096 * j" by simp
      have o3: "?o < c" using assms(5) oc by simp
      note o = o1 o2 o3
      have "unat (of_nat ?o :: u64) = ?o" using o(3) c(1) by (intro unat_of_nat_64) simp
      with o(3) have "unat (of_nat ?o :: u64) < c" by (simp only:)
      then have "?m (?d + of_nat ?o) = m (?s + of_nat ?o)" by (simp only: read add_diff_cancel_left' if_True)
      also have "?s + of_nat ?o = src + of_nat k" using False by (simp add: of_nat_diff)
      finally show ?thesis using assms(6) [OF k(1)] unfolding o(1,2) by simp
    qed
  next
    fix i assume i: "i < length ps" "\<not> (P \<le> i \<and> i < P + Suc j)"
    then have "\<not> (P \<le> i \<and> i < P + j)" "i \<noteq> P + j" by auto
    then have "page_eq m0 m (ps ! i)" "page_eq m ?m (ps ! i)"
      using assms(1) i(1) other unfolding kernel_upto_def by blast+
    then show "page_eq m0 ?m (ps ! i)" by (rule page_eq_trans)
  qed
qed

text \<open>The loop copies the whole kernel.\<close>

lemma ceil_4096: "(n + 4095) div 4096 = n div 4096 + (if n mod 4096 = 0 then 0 else 1 :: nat)"
proof (cases "n mod 4096 = 0")
  case True
  then have "n + 4095 = 4095 + n div 4096 * 4096" using div_mult_mod_eq [of n 4096] by simp
  then have "(n + 4095) div 4096 = (4095 + n div 4096 * 4096) div 4096" by (rule arg_cong)
  also have "\<dots> = n div 4096" by (subst div_mult_self1) simp_all
  finally show ?thesis using True by simp
next
  case False
  then obtain r where r: "n mod 4096 = Suc r" by (cases "n mod 4096") auto
  have n: "n div 4096 * 4096 + Suc r = n" "Suc r < 4096"
    using div_mult_mod_eq [of n 4096] mod_less_divisor [of 4096 n] unfolding r by simp_all
  have "n + 4095 = (n div 4096 * 4096 + Suc r) + 4095" by (simp only: n(1))
  also have "\<dots> = r + Suc (n div 4096) * 4096" by simp
  finally have "(n + 4095) div 4096 = (r + Suc (n div 4096) * 4096) div 4096" by (rule arg_cong)
  also have "\<dots> = Suc (n div 4096)" using n(2) by (subst div_mult_self1) simp_all
  finally show ?thesis using False by simp
qed

lemma kernel_pages:
  assumes "n \<le> 281474976710656"
  shows "unat ((of_nat n :: u64) div PAGE_SIZE + (if (of_nat n :: u64) mod PAGE_SIZE = 0 then 0 else 1)) = (n + 4095) div 4096"
    "unat ((of_nat n :: u64) mod PAGE_SIZE) = n mod 4096"
proof -
  have n: "unat (of_nat n :: u64) = n" using assms by (simp add: unat_of_nat_64)
  have d: "unat ((of_nat n :: u64) div PAGE_SIZE) = n div 4096" by (simp add: unat_div n PAGE_SIZE_def)
  show m: "unat ((of_nat n :: u64) mod PAGE_SIZE) = n mod 4096" by (simp add: unat_mod n PAGE_SIZE_def)
  have z: "(of_nat n :: u64) mod PAGE_SIZE = 0 \<longleftrightarrow> n mod 4096 = 0" by (simp only: m unat_eq_0 [symmetric])
  have "n div 4096 \<le> n" by (rule div_le_dividend)
  then have "unat ((of_nat n :: u64) div PAGE_SIZE) + 1 < 18446744073709551616" using assms d by linarith
  then show "unat ((of_nat n :: u64) div PAGE_SIZE + (if (of_nat n :: u64) mod PAGE_SIZE = 0 then 0 else 1)) = (n + 4095) div 4096"
    unfolding z ceil_4096 by (simp add: unat_plus_64_no_wrap d)
qed

text \<open>The number of bytes of page \<open>j\<close>.\<close>

lemma kernel_page_bytes:
  assumes "n \<le> 281474976710656" "j < (n + 4095) div 4096"
  defines "kp \<equiv> (of_nat n :: u64) div PAGE_SIZE + (if (of_nat n :: u64) mod PAGE_SIZE = 0 then 0 else 1)"
  shows "unat (if of_nat j < kp - 1 \<or> (of_nat n :: u64) mod PAGE_SIZE = 0 then PAGE_SIZE else of_nat n mod PAGE_SIZE) =
    min 4096 (n - 4096 * j)"
proof -
  let ?N = "(n + 4095) div 4096"
  have kp: "unat kp = ?N" unfolding kp_def by (rule kernel_pages(1) [OF assms(1)])
  then have "kp \<noteq> 0" using assms(2) by (auto simp: unat_eq_0 [symmetric])
  then have k1: "unat (kp - 1) = ?N - 1" using kp by (simp add: unat_minus_one)
  have "?N \<le> n + 4095" by (rule div_le_dividend)
  then have "unat (of_nat j :: u64) = j" using assms(1,2) by (intro unat_of_nat_64) linarith
  then have lt: "of_nat j < kp - 1 \<longleftrightarrow> j < ?N - 1" by (simp only: word_less_nat_alt k1)
  have z: "(of_nat n :: u64) mod PAGE_SIZE = 0 \<longleftrightarrow> n mod 4096 = 0"
    by (simp only: kernel_pages(2) [OF assms(1)] unat_eq_0 [symmetric])
  have n: "n = 4096 * (n div 4096) + n mod 4096" "n mod 4096 < 4096" by simp_all
  show ?thesis
  proof (cases "j < n div 4096")
    case True
    then have "4096 * j + 4096 \<le> n" using n by linarith
    then have "min 4096 (n - 4096 * j) = 4096" by simp
    moreover have "j < ?N - 1 \<or> n mod 4096 = 0" using True unfolding ceil_4096 by auto
    ultimately show ?thesis unfolding lt z by (simp add: PAGE_SIZE_def)
  next
    case False
    then have nz: "n mod 4096 \<noteq> 0" "j = n div 4096" using assms(2) unfolding ceil_4096 by (auto split: if_splits)
    then have "n - 4096 * j = n mod 4096" using n(1) by linarith
    then have "min 4096 (n - 4096 * j) = n mod 4096" using n(2) by simp
    moreover have "\<not> j < ?N - 1" using nz unfolding ceil_4096 by simp
    ultimately show ?thesis unfolding lt z using nz(1) kernel_pages(2) [OF assms(1)] by simp
  qed
qed

lemma kernel_loop:
  assumes "loader_ready s as vp v ps" "vm_same v w" "guest_write v (phys s) m0" "image_outside v img sz"
    and "off + n = unat sz" "page_aligned pref" "unat pref + n \<le> 4096 * M" "M \<le> length ps"
  defines "kp \<equiv> (of_nat n :: u64) div PAGE_SIZE + (if (of_nat n :: u64) mod PAGE_SIZE = 0 then 0 else 1)"
  shows "\<exists>m. for_loop (linux_copy_page vp (img + of_nat off) (of_nat n) kp pref) 0 (unat kp) (load_st s vp w m0) =
      Inr (load_st s vp w m) \<and> guest_write v m0 m \<and>
    kernel_upto m0 (phys s) ps (unat pref div 4096) (V2P_IDENTITY_MAP img + of_nat off) n m ((n + 4095) div 4096)"
proof -
  let ?P = "unat pref div 4096" and ?src = "V2P_IDENTITY_MAP img + of_nat off"
  have g: "get_vm s vp = Inr v" and gm: "guest_mapped (phys s) v ps" and ok: "hv_ok s as"
    and len: "length ps \<le> 68719476736"
    using assms(1) by (simp_all add: loader_ready_def)
  have set: "set ps = set_mset (guest_pages v)" using gm by (simp add: guest_mapped_def)
  have dis: "distinct ps" using guest_pages_distinct [OF ok g] gm by (simp add: guest_mapped_def)
  have al: "page_aligned p" if "p \<in> set ps" for p
    using owned_page_aligned [OF ok g kind_in_pages] that set by blast
  have nb: "n \<le> 281474976710656" using assms(7,8) len by linarith
  have kp: "unat kp = (n + 4095) div 4096" unfolding kp_def by (rule kernel_pages(1) [OF nb])
  have P: "unat pref = 4096 * ?P" using assms(6) by (auto simp: page_aligned_iff)
  have page: "4096 * j < n" "?P + j < length ps" "unat pref + 4096 * j < 281474976710656"
    if "j < (n + 4095) div 4096" for j
  proof -
    show "4096 * j < n" using that div_times_less_eq_dividend [of "n + 4095" 4096] by linarith
    then show "?P + j < length ps" using P assms(7,8) by linarith
    then show "unat pref + 4096 * j < 281474976710656" using P len by linarith
  qed
  let ?I = "\<lambda>j t. \<exists>m. t = load_st s vp w m \<and> guest_write v m0 m \<and> kernel_upto m0 (phys s) ps ?P ?src n m j"
  have "\<exists>t. for_loop (linux_copy_page vp (img + of_nat off) (of_nat n) kp pref) 0 (unat kp) (load_st s vp w m0) = Inr t \<and>
    ?I (0 + unat kp) t"
  proof (rule for_loop_total)
    show "?I 0 (load_st s vp w m0)" by (auto simp: kernel_upto_def)
    fix j t assume j: "0 \<le> j" "j < 0 + unat kp" and "?I j t"
    then obtain m where m: "t = load_st s vp w m" "guest_write v m0 m" "kernel_upto m0 (phys s) ps ?P ?src n m j" by blast
    have jn: "j < (n + 4095) div 4096" using j kp by simp
    note pg = page [OF jn]
    have wm: "guest_write v (phys s) m" by (rule guest_write_trans [OF assms(3) m(2)])
    let ?x = "pref + of_nat j * PAGE_SIZE" and ?h = "ps ! (?P + j)"
    have x0: "?x AND 0xfff = 0"
      using page_aligned_plus [OF assms(6) page_aligned_times] by (simp add: page_aligned_def)
    have walk: "vmx_ept_get_host_physical_address t vp ?x = Inr (Some ?h)"
      using load_st_ok(4) [OF ok g assms(2) wm gm] pg(2)
      by (simp add: vmx_ept_get_host_physical_address_def m(1) load_st_simps [OF g] guest_mapped_def
        guest_pfn_plus [OF assms(6) pg(3)] x0)
    let ?c = "min 4096 (n - 4096 * j)"
    let ?m = "memcpy ?h (?src + of_nat (4096 * j)) ?c m"
    have src: "V2P_IDENTITY_MAP (img + of_nat off + of_nat j * PAGE_SIZE) = ?src + of_nat (4096 * j)"
      by (simp add: V2P_IDENTITY_MAP_def PAGE_SIZE_def algebra_simps)
    have "linux_copy_page vp (img + of_nat off) (of_nat n) kp pref j t = Inr (load_st s vp w ?m)"
      using kernel_page_bytes [OF nb jn, folded kp_def]
      by (simp only: linux_copy_page_def walk [unfolded m(1)] bnd_simps option.case Let_def src m(1) load_st_simps [OF g])
    moreover have "guest_write v m0 ?m"
    proof (rule guest_write_trans [OF m(2)])
      have h: "?h \<in> set ps" using pg(2) by simp
      have "page_write ?h m (memcpy (?h + of_nat 0) (?src + of_nat (4096 * j)) ?c m)" by (rule page_write_memcpy) simp
      with al [OF h] h set show "guest_write v m ?m" by (intro page_write_guest) simp_all
    qed
    moreover have "kernel_upto m0 (phys s) ps ?P ?src n ?m (Suc j)"
    proof (rule kernel_upto_step [OF m(3) dis al pg(2) refl])
      fix k assume "k < n"
      then have k: "off + k < unat sz" using assms(5) by simp
      have e: "?src + of_nat k = V2P_IDENTITY_MAP img + of_nat (off + k)" by (simp add: add.assoc)
      show "m (?src + of_nat k) = phys s (?src + of_nat k)" unfolding e by (rule image_byte [OF assms(4) wm k])
      show "(?src + of_nat k) AND PAGE_MASK \<notin> set ps" using assms(4) k unfolding e set image_outside_def by blast
    qed
    ultimately show "\<exists>t'. linux_copy_page vp (img + of_nat off) (of_nat n) kp pref j t = Inr t' \<and> ?I (Suc j) t'" by blast
  qed
  then show ?thesis using kp by auto
qed

section \<open>A successful load\<close>

definition linux_kernel_offset :: "u64 \<Rightarrow> phys_mem \<Rightarrow> nat" where
  "linux_kernel_offset img m = (unat (linux_sects (image_hdr img) m) + 1) * 512"

text \<open>
  What the loader needs of an image: the header passes its checks, and the kernel goes to whole pages
  below the last 516 pages of the guest, which the page tables, the zero page and the command line take.
\<close>

definition linux_image_ok :: "hv_state \<Rightarrow> vm_t \<Rightarrow> u64 list \<Rightarrow> u64 \<Rightarrow> u64 \<Rightarrow> string \<Rightarrow> bool" where
  "linux_image_ok s v ps img sz cmdline \<longleftrightarrow>
     (let f = (\<lambda>f. image_field f (image_hdr img) (phys s)); koff = linux_kernel_offset img (phys s) in
      image_outside v img sz \<and> 769 \<le> unat sz \<and> linux_check_header (image_hdr img) (phys s) = Inr () \<and>
      image_pref_aligned img (phys s) \<and> f ''kernel_alignment'' \<noteq> 0 \<and> f ''pref_address'' mod f ''kernel_alignment'' = 0 \<and>
      length (c_string cmdline) < 4096 \<and> length (c_string cmdline) \<le> unat (f ''cmdline_size'') \<and>
      4612 + unat sz div 4096 < length ps \<and> koff \<le> unat sz \<and>
      unat (f ''pref_address'') + (unat sz - koff) \<le> 4096 * (length ps - 516))"

lemma identity_mapped_frame:
  assumes "identity_mapped m ps" "514 \<le> length ps" "\<And>p. p \<in> set ps \<Longrightarrow> page_aligned p"
    and "\<And>i. i < length ps \<Longrightarrow> length ps - 514 \<le> i \<Longrightarrow> page_eq m m' (ps ! i)"
  shows "identity_mapped m' ps"
proof -
  have r: "read64 m' (entry (ps ! i) k) = read64 m (entry (ps ! i) k)"
    if "i < length ps" "length ps - 514 \<le> i" "unat k < 512" for i k
    using page_eq_read64 [OF assms(4) [OF that(1,2)] that(3)] by simp
  have k: "unat (of_nat i :: u64) < 512" if "i < 512" for i using that by (simp add: unat_of_nat_64)
  show ?thesis
    using assms(1,2) unfolding identity_mapped_def identity_tables_def by (simp add: r k)
qed

lemma linux_sects_bound: "unat (linux_sects ih m) \<le> 255"
proof -
  have "unat (image_field ''setup_sects'' ih m) < 256"
    using read_le_less [of 1] by (simp add: image_field_def get_field_def linux_header_offsets del: One_nat_def)
  then show ?thesis by (simp add: linux_sects_def)
qed

lemma reserve_page_ok:
  assumes "get_vm s vp = Inr v" "guest_mapped m w ps" "guest_physical_pages w = of_nat (length ps)"
    and "guest_physical_pages_used_by_initial_setup w = of_nat u" "u < length ps" "length ps \<le> 68719476736"
  shows "linux_reserve_page msg vp (load_st s vp w m) = Inr (guest_frame (length ps - u - 1), ps ! (length ps - u - 1),
    load_st s vp (w\<lparr>guest_physical_pages_used_by_initial_setup := of_nat (u + 1)\<rparr>) m)"
proof -
  have x: "(guest_physical_pages w - guest_physical_pages_used_by_initial_setup w - 1) * PAGE_SIZE = guest_frame (length ps - u - 1)"
    using assms(5) by (simp add: assms(3,4) of_nat_diff diff_diff_eq add.commute)
  have gm: "guest_mapped m (w\<lparr>guest_physical_pages_used_by_initial_setup := of_nat (u + 1)\<rparr>) ps"
    using assms(2) by (simp add: guest_mapped_def)
  have "length ps - u - 1 < length ps" using assms(5) by simp
  from guest_mapped_frame [OF gm this assms(6)]
  have "vmx_ept_get_host_physical_address (load_st s vp (w\<lparr>guest_physical_pages_used_by_initial_setup := of_nat (u + 1)\<rparr>) m) vp
      (guest_frame (length ps - u - 1)) = Inr (Some (ps ! (length ps - u - 1)))"
    by (simp add: vmx_ept_get_host_physical_address_def load_st_simps [OF assms(1)])
  then show ?thesis
    unfolding linux_reserve_page_def load_st_simps [OF assms(1)] bnd_simps Let_def vm_use_pages_def x
    by (simp add: assms(4) add.commute)
qed

lemma check_memory_ok:
  assumes "get_vm s vp = Inr v" "guest_physical_pages w = of_nat N" "guest_physical_pages_used_by_initial_setup w = 516"
    and "4612 + unat sz div 4096 < N" "N \<le> 68719476736"
  shows "linux_check_memory vp sz (load_st s vp w m) = Inr ()"
proof -
  have N: "unat (of_nat N :: u64) = N" using assms(5) by (intro unat_of_nat_64) simp
  have c: "0x1000000 div PAGE_SIZE = (0x1000 :: u64)" by (simp add: PAGE_SIZE_def)
  have "of_nat N - 516 - (0x1000 :: u64) = of_nat (N - 4612)" using assms(4) by (simp add: of_nat_diff)
  moreover have "unat (of_nat (N - 4612) :: u64) = N - 4612" using assms(5) by (intro unat_of_nat_64) simp
  moreover have "unat (sz div PAGE_SIZE) = unat sz div 4096" by (simp add: unat_div PAGE_SIZE_def)
  ultimately have "sz div PAGE_SIZE < of_nat N - 516 - (0x1000 :: u64)"
    using assms(4) by (simp only: word_less_nat_alt)
  moreover have "(0x1000 :: u64) < of_nat N" unfolding word_less_nat_alt N using assms(4) by simp
  ultimately show ?thesis
    unfolding linux_check_memory_def load_st_simps [OF assms(1)] bnd_simps assms(2,3) c by (simp add: not_le)
qed

lemma copy_cmdline_ok:
  assumes "length (c_string cmdline) < 4096" "length (c_string cmdline) \<le> unat (get_field linux_setup_header_t ''cmdline_size'' hdr m)"
  obtains m' where "linux_copy_cmdline hdr cmdline h m = Inr m'" "page_write h m m'"
    "\<And>k. k < length (c_string cmdline) \<Longrightarrow> m' (h + of_nat k) = char_byte (c_string cmdline ! k)"
    "m' (h + of_nat (length (c_string cmdline))) = 0"
proof -
  let ?l = "length (c_string cmdline)"
  let ?m = "(memcpy_from h (map char_byte (c_string cmdline)) m)(h + of_nat ?l := 0)"
  have l: "unat (of_nat k :: u64) = k" if "k \<le> ?l" for k using that assms(1) by (intro unat_of_nat_64) simp
  have e: "linux_copy_cmdline hdr cmdline h m = Inr ?m"
    using assms by (simp add: linux_copy_cmdline_def str_strlen_def PAGE_SIZE_def Let_def del: fun_upd_apply)
  moreover have "page_write h m ?m" using copy_cmdline_outcome [OF assms(1), of h m hdr] unfolding e by simp
  moreover have "?m (h + of_nat k) = char_byte (c_string cmdline ! k)" if "k < ?l" for k
  proof -
    have "of_nat k \<noteq> (of_nat ?l :: u64)" using l [of k] l [of ?l] that by force
    then show ?thesis using that assms(1) l [of k] by (simp add: memcpy_from_apply)
  qed
  ultimately show ?thesis by (intro that [of ?m]) simp_all
qed

lemma load_kernel_ok:
  assumes "loader_ready s as vp v ps" "vm_same v w" "guest_write v (phys s) m0" "image_outside v img sz"
    and "get_field linux_setup_header_t ''setup_sects'' hdr m0 = sects" "unat sects \<le> 255"
    and "get_field linux_setup_header_t ''pref_address'' hdr m0 = pref"
    and "get_field linux_setup_header_t ''kernel_alignment'' hdr m0 = align" "align \<noteq> 0" "pref mod align = 0"
    and "page_aligned pref" "koff = (unat sects + 1) * 512" "koff + n = unat sz" "unat pref + n \<le> 4096 * M" "M \<le> length ps"
  obtains m where "linux_load_kernel vp img sz hdr (load_st s vp w m0) = Inr (pref, load_st s vp w m)" "guest_write v m0 m"
    "kernel_upto m0 (phys s) ps (unat pref div 4096) (V2P_IDENTITY_MAP img + of_nat koff) n m ((n + 4095) div 4096)"
proof -
  have g: "get_vm s vp = Inr v" using assms(1) by (simp add: loader_ready_def)
  have "(sects + 1) * 512 = of_nat koff" unfolding assms(12) by simp
  then have k: "img + (sects + 1) * 512 = img + of_nat koff" by simp
  have "sz = of_nat (koff + n)" by (simp only: assms(13)) simp
  then have z: "img + sz - (img + of_nat koff) = of_nat n" by simp
  from kernel_loop [OF assms(1-4,13,11,14,15)] obtain m where
    m: "for_loop (linux_copy_page vp (img + of_nat koff) (of_nat n) ((of_nat n :: u64) div PAGE_SIZE +
        (if (of_nat n :: u64) mod PAGE_SIZE = 0 then 0 else 1)) pref) 0
        (unat ((of_nat n :: u64) div PAGE_SIZE + (if (of_nat n :: u64) mod PAGE_SIZE = 0 then 0 else 1)))
        (load_st s vp w m0) = Inr (load_st s vp w m)" "guest_write v m0 m"
      "kernel_upto m0 (phys s) ps (unat pref div 4096) (V2P_IDENTITY_MAP img + of_nat koff) n m ((n + 4095) div 4096)"
    by blast
  show ?thesis
    using m by (intro that [of m])
      (simp_all only: linux_load_kernel_def load_st_simps [OF g] assms(5,7-10) k z Let_def if_False not_not simp_thms bnd_simps)
qed

text \<open>The record of the machine after the load, and the zero page that the kernel finds.\<close>

definition linux_vm :: "hv_state \<Rightarrow> u64 \<Rightarrow> u64 \<Rightarrow> u64 \<Rightarrow> vm_t \<Rightarrow> vm_t" where
  "linux_vm s pml4 zeropage kernel_guestpa w = (let g = (guest_state (vmcs_config w))\<lparr>guest_cr3 := pml4\<rparr> in
     w\<lparr>guest_physical_pages_used_by_initial_setup := 516, initial_gpr_state := (initial_gpr_state w)\<lparr>rsi := zeropage\<rparr>,
       vmcs_config := (vmcs_config w)\<lparr>guest_state := linux_guest_state kernel_guestpa s g\<rparr>\<rparr>)"

definition linux_zeropage_ok :: "phys_mem \<Rightarrow> u64 \<Rightarrow> u64 \<Rightarrow> u64 \<Rightarrow> bool" where
  "linux_zeropage_ok m zp cl n \<longleftrightarrow> get_at zp 552 4 m = take_bit 32 cl \<and> get_at zp 200 4 m = drop_bit 32 cl \<and>
     get_at zp 488 1 m = 2 \<and>
     get_at zp 720 8 m = 0 \<and> get_at zp 728 8 m = 0xa0000 \<and> get_at zp 736 4 m = 1 \<and>
     get_at zp 740 8 m = 0xa0000 \<and> get_at zp 748 8 m = (n - 0xa0) * 0x1000 \<and> get_at zp 756 4 m = 1"

lemma linux_zeropage_ok_page_eq: "page_eq m m' zp \<Longrightarrow> linux_zeropage_ok m zp cl n \<Longrightarrow> linux_zeropage_ok m' zp cl n"
  using get_at_page_eq [of m m' zp] by (simp add: linux_zeropage_ok_def)

lemma vm_guest_linux_loader_ok:
  assumes "loader_ready s as vp v ps" "guest_cr3 (guest_state (vmcs_config v)) = 0" "linux_image_ok s v ps img sz cmdline"
  defines "N \<equiv> length ps" and "pref \<equiv> image_field ''pref_address'' (image_hdr img) (phys s)"
    and "koff \<equiv> linux_kernel_offset img (phys s)" and "cl \<equiv> c_string cmdline"
  obtains m where "vm_guest_linux_loader vp img sz cmdline s =
      Inr (load_st s vp (linux_vm s (guest_frame (N - 1)) (guest_frame (N - 515)) pref v) m)"
    "guest_write v (phys s) m" "identity_mapped m ps"
    "\<And>k. k < unat sz - koff \<Longrightarrow> m (ps ! (unat pref div 4096 + k div 4096) + of_nat (k mod 4096)) =
       phys s (V2P_IDENTITY_MAP img + of_nat koff + of_nat k)"
    "\<And>k. k < length cl \<Longrightarrow> m (ps ! (N - 516) + of_nat k) = char_byte (cl ! k)" "m (ps ! (N - 516) + of_nat (length cl)) = 0"
    "linux_zeropage_ok m (ps ! (N - 515)) (guest_frame (N - 516)) (of_nat N)"
proof -
  let ?ih = "image_hdr img" and ?zp = "ps ! (N - 515)" and ?cp = "ps ! (N - 516)"
  have r: "hv_ok s as" "get_vm s vp = Inr v" "guest_mapped (phys s) v ps" "N \<le> 68719476736"
    "guest_physical_pages v = of_nat N" "guest_physical_pages_used_by_initial_setup v = 0"
    using assms(1) by (simp_all add: loader_ready_def N_def)
  note ls = load_st_simps [OF r(2)]
  have io: "image_outside v img sz" "769 \<le> unat sz" and hdr: "linux_check_header ?ih (phys s) = Inr ()"
    and pa: "image_pref_aligned img (phys s)"
    and al: "image_field ''kernel_alignment'' ?ih (phys s) \<noteq> 0" "pref mod image_field ''kernel_alignment'' ?ih (phys s) = 0"
    and cll: "length cl < 4096" "length cl \<le> unat (image_field ''cmdline_size'' ?ih (phys s))"
    and size: "4612 + unat sz div 4096 < N" "koff \<le> unat sz" "unat pref + (unat sz - koff) \<le> 4096 * (N - 516)"
    using assms(3) unfolding linux_image_ok_def Let_def N_def pref_def koff_def cl_def by blast+
  have set: "set ps = set_mset (guest_pages v)" using r(3) by (simp add: guest_mapped_def)
  have dis: "distinct ps" using guest_pages_distinct [OF r(1,2)] r(3) by (simp add: guest_mapped_def)
  have aligned: "page_aligned p" if "p \<in> set ps" for p
    using owned_page_aligned [OF r(1,2) kind_in_pages] that set by blast
  have in_guest: "ps ! i \<in># guest_pages v" "page_aligned (ps ! i)" if "i < N" for i
    using that set nth_mem [of i ps] aligned [OF nth_mem] by (auto simp: N_def)
  have other: "page_eq m m' (ps ! i)" if "page_write (ps ! j) m m'" "i < N" "j < N" "i \<noteq> j" for m m' i j
    using that dis in_guest by (intro page_write_page_eq) (auto simp: nth_eq_iff_index_eq N_def)
  have "paging_ready s as vp v ps" using r size by (simp add: paging_ready_def N_def)
  then obtain m1 where m1: "vm_guest_paging_setup_identity vp s = Inr (guest_frame (N - 1), setup_st s vp v 514 m1)"
    "guest_write v (phys s) m1" "identity_mapped m1 ps"
    by (rule vm_guest_paging_setup_identity_ok) (use size r in \<open>auto simp: N_def\<close>)
  let ?w1 = "v\<lparr>guest_physical_pages_used_by_initial_setup := 514\<rparr>"
  let ?w2 = "?w1\<lparr>vmcs_config := (vmcs_config v)\<lparr>guest_state := (guest_state (vmcs_config v))\<lparr>guest_cr3 := guest_frame (N - 1)\<rparr>\<rparr>\<rparr>"
  let ?w3 = "?w2\<lparr>guest_physical_pages_used_by_initial_setup := 515\<rparr>"
  let ?w4 = "?w3\<lparr>guest_physical_pages_used_by_initial_setup := 516\<rparr>"
  have same: "vm_same v ?w2" "vm_same v ?w3" "vm_same v ?w4" by (simp_all add: vm_same_def)
  have gm: "guest_mapped m1 v ps" by (rule guest_mapped_write [OF r(1-3) m1(2)])
  have set_cr3: "vm_set_guest_state vp (\<lambda>g. g\<lparr>guest_cr3 := guest_frame (N - 1)\<rparr>) (load_st s vp ?w1 m1) = Inr (load_st s vp ?w2 m1)"
    by (simp add: vm_set_guest_state_def ls)
  have kept: "linux_check_header ?ih m1 = Inr ()" using image_hdr_kept(3) [OF io(1) m1(2) io(2)] hdr by simp
  have zero: "linux_reserve_page msg vp (load_st s vp ?w2 m1) = Inr (guest_frame (N - 515), ?zp, load_st s vp ?w3 m1)" for msg
    using reserve_page_ok [OF r(2), of m1 ?w2 ps 514 msg] gm vm_same_fields(3) [OF same(1)] r(4,5) size
    by (simp add: N_def)
  have cmd: "linux_reserve_page msg vp (load_st s vp ?w3 m1) = Inr (guest_frame (N - 516), ?cp, load_st s vp ?w4 m1)" for msg
    using reserve_page_ok [OF r(2), of m1 ?w3 ps 515 msg] gm vm_same_fields(3) [OF same(2)] r(4,5) size
    by (simp add: N_def)
  have memory: "linux_check_memory vp sz (load_st s vp ?w4 m1) = Inr ()"
    by (rule check_memory_ok [OF r(2)]) (use r size in simp_all)
  have "length cl \<le> unat (get_field linux_setup_header_t ''cmdline_size'' ?ih m1)"
    using cll(2) image_hdr_kept(2) [OF io(1) m1(2) io(2)] by (simp add: image_field_def)
  from copy_cmdline_ok [OF cll(1) [unfolded cl_def] this [unfolded cl_def], of ?cp, folded cl_def]
  obtain m2 where m2: "linux_copy_cmdline ?ih cmdline ?cp m1 = Inr m2" "page_write ?cp m1 m2"
    "\<And>k. k < length cl \<Longrightarrow> m2 (?cp + of_nat k) = char_byte (cl ! k)" "m2 (?cp + of_nat (length cl)) = 0" by blast
  have N: "N - 516 < N" "N - 515 < N" "N - 515 \<noteq> N - 516" using size by auto
  have w2: "guest_write v (phys s) m2"
    by (rule guest_write_trans [OF m1(2) page_write_guest [OF m2(2) in_guest(2,1) [OF N(1)]]])
  let ?z = "linux_setup_zeropage ?ih ?zp (guest_frame (N - 516)) (of_nat N) m2"
  have zw: "page_write ?zp m2 ?z" by (rule linux_setup_zeropage_write)
  have w3: "guest_write v (phys s) ?z"
    by (rule guest_write_trans [OF w2 page_write_guest [OF zw in_guest(2,1) [OF N(2)]]])
  note k2 = image_hdr_kept [OF io(1) w2 io(2)]
  have "111 \<le> unat (linux_setup_header_size ?ih m2)" using pa by (simp add: image_pref_aligned_def k2)
  note zf = linux_setup_zeropage_fields [OF image_hdr_apart [OF io in_guest [OF N(2)]] this refl,
    of "guest_frame (N - 516)" "of_nat N"]
  have zok: "linux_zeropage_ok ?z ?zp (guest_frame (N - 516)) (of_nat N)" unfolding linux_zeropage_ok_def by (intro conjI zf(4-12))
  have ks: "koff + (unat sz - koff) = unat sz" "N - 516 \<le> length ps" using size(2) by (simp_all add: N_def)
  have pal: "page_aligned pref" using pa by (simp add: image_pref_aligned_def pref_def)
  have ko: "koff = (unat (linux_sects ?ih m2) + 1) * 512" by (simp add: koff_def linux_kernel_offset_def k2)
  obtain m where m: "linux_load_kernel vp img sz (linux_hdr ?zp) (load_st s vp ?w4 ?z) = Inr (pref, load_st s vp ?w4 m)"
    "guest_write v ?z m" and up: "kernel_upto ?z (phys s) ps (unat pref div 4096) (V2P_IDENTITY_MAP img + of_nat koff)
      (unat sz - koff) m ((unat sz - koff + 4095) div 4096)"
    by (rule load_kernel_ok [OF assms(1) same(3) w3 io(1) zf(3) linux_sects_bound zf(1) [unfolded k2(2), folded pref_def]
      zf(2) [unfolded k2(2)] al pal ko ks(1) size(3) ks(2)])
  have top: "page_eq ?z m (ps ! i)" if "N - 516 \<le> i" "i < N" for i
  proof -
    have "unat pref = 4096 * (unat pref div 4096)"
      using pa by (auto simp: image_pref_aligned_def pref_def page_aligned_iff)
    with size(3) have "(unat sz - koff + 4095) div 4096 \<le> N - 516 - unat pref div 4096"
      by (subst less_Suc_eq_le [symmetric]) (simp add: div_less_iff_less_mult)
    with that have "\<not> (unat pref div 4096 \<le> i \<and> i < unat pref div 4096 + (unat sz - koff + 4095) div 4096)" by linarith
    with up that(2) show ?thesis by (simp add: kernel_upto_def N_def)
  qed
  have tables: "identity_mapped m ps"
  proof (rule identity_mapped_frame [OF m1(3)])
    fix i assume i: "i < length ps" "length ps - 514 \<le> i"
    then have "i < N" "N - 516 \<le> i" "i \<noteq> N - 516" "i \<noteq> N - 515" using size(1) by (auto simp: N_def)
    then show "page_eq m1 m (ps ! i)"
      using other [OF m2(2)] other [OF zw] top N page_eq_trans by meson
  qed (use size(1) aligned in \<open>auto simp: N_def\<close>)
  have cp: "m (?cp + of_nat k) = m2 (?cp + of_nat k)" if "k < 4096" for k
  proof -
    have "page_eq m2 m ?cp" using other [OF zw N(1,2) N(3) [symmetric]] top [OF order_refl N(1)] by (rule page_eq_trans)
    moreover have "unat (of_nat k :: u64) < 4096" using that by (simp add: unat_of_nat_64)
    ultimately show ?thesis by (simp add: page_eq_def)
  qed
  have kbytes: "m (ps ! (unat pref div 4096 + k div 4096) + of_nat (k mod 4096)) =
      phys s (V2P_IDENTITY_MAP img + of_nat koff + of_nat k)" if "k < unat sz - koff" for k
  proof -
    have "k < 4096 * ((unat sz - koff + 4095) div 4096)"
      using that dividend_less_times_div [of 4096 "unat sz - koff + 4095"] by linarith
    with up that show ?thesis by (simp add: kernel_upto_def)
  qed
  have N516: "N - 516 \<le> N - 515" by simp
  have zfinal: "linux_zeropage_ok m ?zp (guest_frame (N - 516)) (of_nat N)"
    by (rule linux_zeropage_ok_page_eq [OF top [OF N516 N(2)] zok])
  have final: "vm_guest_linux_loader vp img sz cmdline s =
      Inr (load_st s vp (linux_vm s (guest_frame (N - 1)) (guest_frame (N - 515)) pref v) m)"
  proof -
    have e: "linux_guest_state p (load_st s vp w m) = linux_guest_state p s" for p w
      by (simp add: fun_eq_iff linux_guest_state_def rdmsr_def segments_sgdt_def interrupts_sidt_def ls)
    have gp: "guest_physical_pages ?w4 = of_nat N" by (simp add: r)
    show ?thesis
      unfolding vm_guest_linux_loader_def r(2) bnd_simps m1(1) setup_st_load
      by (simp only: assms(2) set_cr3 ls kept zero cmd memory m2(1) gp m(1) Let_def simp_thms if_False bnd_simps split_conv)
        (simp add: vm_set_guest_state_def ls e linux_vm_def Let_def)
  qed
  show ?thesis
    by (rule that [OF final guest_write_trans [OF w3 m(2)] tables kbytes _ _ zfinal])
      (use cp m2(3,4) cll(1) in auto)
qed

section \<open>What the guest finds\<close>

text \<open>The byte that the guest reads at a guest physical address.\<close>

definition guest_byte :: "hv_state \<Rightarrow> u64 \<Rightarrow> u64 \<Rightarrow> u8 option" where
  "guest_byte s vp x = (case vmx_ept_get_host_physical_address s vp x of Inr (Some h) \<Rightarrow> Some (phys s h) | _ \<Rightarrow> None)"

lemma guest_byte_at:
  assumes "get_vm s vp = Inr v" "guest_mapped (phys s) v ps" "page_aligned p" "unat p + k < 4096 * length ps"
    and "length ps \<le> 68719476736"
  shows "guest_byte s vp (p + of_nat k) = Some (phys s (ps ! (unat p div 4096 + k div 4096) + of_nat (k mod 4096)))"
proof -
  let ?x = "p + of_nat k"
  have P: "unat p = 4096 * (unat p div 4096)" using assms(3) by (auto simp: page_aligned_iff)
  have "unat (of_nat k :: u64) = k" using assms(4,5) by (intro unat_of_nat_64) simp
  then have x: "unat ?x = unat p + k" using assms(4,5) by (subst unat_plus_64_no_wrap) simp_all
  have "(unat p + k) div 4096 = unat p div 4096 + k div 4096" by (subst P) simp
  moreover have "(unat p + k) div 4096 < length ps" using assms(4) by (simp add: div_less_iff_less_mult mult.commute)
  ultimately have pfn: "guest_pfn ?x = unat p div 4096 + k div 4096" "guest_pfn ?x < length ps"
    using assms(5) by (simp_all add: guest_pfn_def x)
  have "unat (?x AND 0xfff) = k mod 4096"
    unfolding and_fff_eq_mod x by (subst P) simp
  moreover have "unat (of_nat (k mod 4096) :: u64) = k mod 4096"
    by (rule unat_of_nat_64) (rule less_trans [OF mod_less_divisor], simp_all)
  ultimately have "?x AND 0xfff = of_nat (k mod 4096)" by (intro word_unat_eqI) simp
  then show ?thesis
    using assms(1,2) pfn by (simp add: guest_byte_def vmx_ept_get_host_physical_address_def guest_mapped_def)
qed

lemma linux_loaded:
  assumes "loader_ready s as vp v ps" "guest_cr3 (guest_state (vmcs_config v)) = 0" "linux_image_ok s v ps img sz cmdline"
    and "pref = image_field ''pref_address'' (image_hdr img) (phys s)" "koff = linux_kernel_offset img (phys s)"
    and "cl = c_string cmdline"
  shows "\<exists>s' v' cp zp. vm_guest_linux_loader vp img sz cmdline s = Inr s' \<and> hv_ok s' as \<and> get_vm s' vp = Inr v' \<and>
    guest_mapped (phys s') v' ps \<and> guest_write v (phys s) (phys s') \<and> vm_others vp s s' \<and>
    guest_rip (guest_state (vmcs_config v')) = pref + 0x200 \<and>
    (\<forall>k < unat sz - koff. guest_byte s' vp (pref + of_nat k) = Some (phys s (V2P_IDENTITY_MAP img + of_nat koff + of_nat k))) \<and>
    (\<forall>k < length cl. guest_byte s' vp (cp + of_nat k) = Some (char_byte (cl ! k))) \<and>
    guest_byte s' vp (cp + of_nat (length cl)) = Some 0 \<and>
    vmx_ept_get_host_physical_address s' vp (rsi (initial_gpr_state v')) = Inr (Some zp) \<and>
    linux_zeropage_ok (phys s') zp cp (guest_physical_pages v') \<and>
    (\<forall>la. unat la < 549755813888 \<longrightarrow>
      vm_guest_paging_get_guest_physical_address s' vp (guest_cr3 (guest_state (vmcs_config v'))) la = Inr (Some la))"
proof -
  let ?N = "length ps"
  have r: "hv_ok s as" "get_vm s vp = Inr v" "guest_mapped (phys s) v ps" "?N \<le> 68719476736"
    "guest_physical_pages v = of_nat ?N" using assms(1) by (simp_all add: loader_ready_def)
  note ls = load_st_simps [OF r(2)]
  let ?w = "linux_vm s (guest_frame (?N - 1)) (guest_frame (?N - 515)) pref v"
  obtain m where m: "vm_guest_linux_loader vp img sz cmdline s = Inr (load_st s vp ?w m)"
    "guest_write v (phys s) m" "identity_mapped m ps"
    and kb: "\<And>k. k < unat sz - koff \<Longrightarrow> m (ps ! (unat pref div 4096 + k div 4096) + of_nat (k mod 4096)) =
       phys s (V2P_IDENTITY_MAP img + of_nat koff + of_nat k)"
    and cb: "\<And>k. k < length cl \<Longrightarrow> m (ps ! (?N - 516) + of_nat k) = char_byte (cl ! k)" "m (ps ! (?N - 516) + of_nat (length cl)) = 0"
    and zp: "linux_zeropage_ok m (ps ! (?N - 515)) (guest_frame (?N - 516)) (of_nat ?N)"
    by (rule vm_guest_linux_loader_ok [OF assms(1-3)]) (simp only: assms(4-6))
  let ?s = "load_st s vp ?w m"
  have same: "vm_same v ?w" by (simp add: vm_same_def linux_vm_def Let_def)
  have w: "guest_cr3 (guest_state (vmcs_config ?w)) = guest_frame (?N - 1)" "guest_rip (guest_state (vmcs_config ?w)) = pref + 0x200"
    "rsi (initial_gpr_state ?w) = guest_frame (?N - 515)" "guest_physical_pages ?w = of_nat ?N"
    by (simp_all add: linux_vm_def linux_guest_state_def Let_def r(5))
  note ok = load_st_ok [OF r(1,2) same m(2)]
  have gm: "guest_mapped (phys ?s) ?w ps" using ok(4) [OF r(3)] by (simp only: ls)
  have size: "4612 < ?N" "unat pref + (unat sz - koff) \<le> 4096 * (?N - 516)" "length cl < 4096" "page_aligned pref"
    using assms(3) unfolding linux_image_ok_def image_pref_aligned_def Let_def assms(4-6) by auto
  have frame: "unat (guest_frame i) = 4096 * i" if "i < ?N" for i
    using that r(4) by (subst unat_mult_64_no_wrap) (simp_all add: unat_of_nat_64 PAGE_SIZE_def)
  have at: "guest_byte ?s vp (guest_frame (?N - 516) + of_nat k) = Some (m (ps ! (?N - 516) + of_nat k))" if "k < 4096" for k
  proof -
    have i: "?N - 516 < ?N" using size(1) by simp
    have "unat (guest_frame (?N - 516)) + k < 4096 * ?N" unfolding frame [OF i] using that size(1) by simp
    from guest_byte_at [OF ls(1) gm page_aligned_times this r(4)] show ?thesis
      using that unfolding frame [OF i] ls by simp
  qed
  have kernel_at: "guest_byte ?s vp (pref + of_nat k) = Some (phys s (V2P_IDENTITY_MAP img + of_nat koff + of_nat k))"
    if "k < unat sz - koff" for k
  proof -
    have "unat pref + k < 4096 * ?N" using that size(1,2) by linarith
    from guest_byte_at [OF ls(1) gm size(4) this r(4)] show ?thesis using kb [OF that] by (simp only: ls)
  qed
  have z: "vmx_ept_get_host_physical_address ?s vp (guest_frame (?N - 515)) = Inr (Some (ps ! (?N - 515)))"
    using guest_mapped_frame [OF gm, of "?N - 515"] size(1) r(4) by (simp add: vmx_ept_get_host_physical_address_def ls)
  have walk: "vm_guest_paging_get_guest_physical_address ?s vp (guest_frame (?N - 1)) la = Inr (Some la)"
    if "unat la < 549755813888" for la
    using identity_mapped_walk [OF gm _ r(4) _ that] m(3) size(1)
    by (simp add: vm_guest_paging_get_guest_physical_address_def ls)
  show ?thesis
    by (rule exI [of _ ?s], rule exI [of _ ?w], rule exI [of _ "guest_frame (?N - 516)"], rule exI [of _ "ps ! (?N - 515)"])
      (use m(1,2) ok(1,3) gm kernel_at at cb size(3) z zp walk in \<open>simp add: ls w del: One_nat_def\<close>)
qed

end
