(* ===== verification/Demo_Linux.thy ===== *)
theory Demo_Linux
  imports Demo_Paging Linux_Boot
begin

text \<open>
  A machine with 1 GiB of memory, mapped with one large page, and the image of a kernel of 4096 bytes outside
  of it: the state on which the theorems about the Linux loader are applied.
\<close>

section \<open>One gigabyte\<close>

definition demo_gib_tables :: phys_mem where
  "demo_gib_tables = write64s (\<lambda>_. 0) [(entry 0x1fe000 0, ept_entry 0x1fd000), (entry 0x1fd000 0, 0x40000087)]"

definition demo_image :: "phys_mem \<Rightarrow> phys_mem" where
  "demo_image m = put_at 0x800000 497 1 1 (put_at 0x800000 512 2 0x66eb (put_at 0x800000 514 4 0x53726448
     (put_at 0x800000 566 2 1 (put_at 0x800000 560 4 0x200000 (put_at 0x800000 600 8 0x1000000
     (put_at 0x800000 568 4 2047 (put_at 0x800000 1024 1 0xf4 m)))))))"

definition demo_gib_mem :: phys_mem where "demo_gib_mem = demo_image demo_gib_tables"

abbreviation demo_img :: u64 where "demo_img \<equiv> P2V_IDENTITY_MAP 0x800000"

abbreviation demo_gib_vm :: vm_t where "demo_gib_vm \<equiv> demo_block_vm 0x1fd000 2 0x40000000 262144"

abbreviation demo_gib :: hv_state where "demo_gib \<equiv> demo_block_st demo_gib_mem demo_gib_vm"

abbreviation demo_gib_pages :: "u64 list" where "demo_gib_pages \<equiv> demo_block 0x40000000 262144"

section \<open>The tables\<close>

lemma demo_image_page: "page_write 0x800000 m (demo_image m)"
  unfolding demo_image_def by (intro page_write_put_trans page_write_refl) simp_all

lemma demo_gib_entry:
  assumes "page_aligned t" "t \<noteq> 0x800000" "unat i < 512"
  shows "read64 demo_gib_mem (entry t i) =
    (if t = 0x1fe000 \<and> i = 0 then ept_entry 0x1fd000 else if t = 0x1fd000 \<and> i = 0 then 0x40000087 else 0)"
proof -
  have "page_aligned 0x800000" by (simp add: page_aligned_def)
  from page_write_page_eq [OF demo_image_page this assms(1), of demo_gib_tables] assms(2)
  have "page_eq demo_gib_tables demo_gib_mem t" by (simp add: demo_gib_mem_def)
  from page_eq_read64 [OF this assms(3)]
  have "read64 demo_gib_mem (entry t i) = read64 demo_gib_tables (entry t i)" by (rule sym)
  then show ?thesis using assms by (simp add: demo_gib_tables_def write64s_def read64_write64_entry)
qed

lemma demo_gib_large: "ept_present 0x40000087" "ept_large 0x40000087"
  by (simp_all add: ept_present_def ept_large_def hv_const)

lemma demo_gib_child:
  assumes "t = 0x1fe000 \<or> t = 0x1fd000" "unat i < 512"
  shows "ept_child demo_gib_mem t i = (if t = 0x1fe000 \<and> i = 0 then Some 0x1fd000 else None)"
  using assms by (auto simp: ept_child_def demo_gib_entry demo_gib_large demo_next)

lemma demo_gib_tbl:
  "ept_path p \<Longrightarrow> ept_tbl demo_gib_mem 0x1fe000 p =
     (if p = [] then Some 0x1fe000 else if p = [0] then Some 0x1fd000 else None)"
proof (induction p)
  case Nil
  then show ?case by simp
next
  case (Cons i p)
  then have "ept_path p" "unat i < 512" by (simp_all add: ept_path_Cons)
  with Cons.IH show ?case by (auto simp: demo_gib_child)
qed

lemma demo_gib_wf: "ept_wf demo_gib_mem 0x1fe000 {0x1fe000, 0x1fd000}"
  unfolding ept_wf_def
proof (intro conjI allI impI)
  fix p t assume "ept_path p \<and> ept_tbl demo_gib_mem 0x1fe000 p = Some t"
  then show "phys_page t" "t \<in> {0x1fe000, 0x1fd000}"
    by (auto simp: demo_gib_tbl phys_page_def split: if_splits)
next
  fix p q t
  assume "ept_path p \<and> ept_path q \<and> ept_tbl demo_gib_mem 0x1fe000 p = Some t \<and> ept_tbl demo_gib_mem 0x1fe000 q = Some t"
  then show "p = q" by (auto simp: demo_gib_tbl split: if_splits)
next
  fix i :: u64 assume i: "unat i < 512" and "ept_present (read64 demo_gib_mem (entry 0x1fe000 i))"
  then show "\<not> ept_large (read64 demo_gib_mem (entry 0x1fe000 i))"
    using demo_next by (auto simp: demo_gib_entry split: if_splits)
qed

lemma low_30: "x AND (LINEAR_ADDRESS_D_MASK OR LINEAR_ADDRESS_TABLE_MASK OR LINEAR_ADDRESS_OFFSET_MASK) = take_bit 30 x"
  unfolding hv_const masks_as_slices by (rule bit_word_eqI) (auto simp: bit_simps)

lemma first_gib:
  "LINEAR_ADDRESS_GET_PML4 x = 0 \<and> LINEAR_ADDRESS_GET_DIRECTORY_PTR x = 0 \<longleftrightarrow> guest_pfn x < 262144"
proof -
  let ?z = "unat x div 4096 div 262144"
  have z: "unat x div 2 ^ 39 mod 512 = ?z div 512 mod 512" "unat x div 2 ^ 30 mod 512 = ?z mod 512"
    by (simp_all add: div_mult2_eq [symmetric])
  have "guest_pfn x div 262144 = ?z mod 262144"
    using mod_mult2_eq [of "unat x div 4096" 262144 262144] by (simp add: guest_pfn_def)
  also have "\<dots> = 512 * (?z div 512 mod 512) + ?z mod 512" using mod_mult2_eq [of ?z 512 512] by simp
  finally have "guest_pfn x div 262144 = 0 \<longleftrightarrow> ?z div 512 mod 512 = 0 \<and> ?z mod 512 = 0"
    by (simp only: add_is_0 mult_is_0) simp
  then have "guest_pfn x < 262144 \<longleftrightarrow> ?z div 512 mod 512 = 0 \<and> ?z mod 512 = 0"
    by (simp only: div_eq_0_iff) simp
  moreover have "x = 0 \<longleftrightarrow> unat x = 0" for x :: u64 by (simp only: unat_eq_0)
  ultimately show ?thesis using unat_slices(1,2) [of x] z by metis
qed

lemma demo_gib_address:
  assumes "guest_pfn x < 262144"
  shows "0x40000000 + 4096 * of_nat (guest_pfn x) + (x AND 0xfff) = 0x40000000 OR take_bit 30 x"
proof -
  have "guest_pfn x = unat x div 4096 mod 262144"
    using assms mod_mod_cancel [of 262144 68719476736 "unat x div 4096"] by (simp add: guest_pfn_def)
  also have "\<dots> = unat (take_bit 18 (drop_bit 12 x))"
    by (simp add: unsigned_take_bit_eq take_bit_eq_mod unsigned_drop_bit_eq drop_bit_eq_div unat_mod unat_div)
  finally have p: "(of_nat (guest_pfn x) :: u64) = take_bit 18 (drop_bit 12 x)" by simp
  have "4096 * take_bit 18 (drop_bit 12 x) + (x AND 0xfff) = push_bit 12 (take_bit 18 (drop_bit 12 x)) OR (x AND mask 12)"
  proof -
    let ?a = "push_bit 12 (take_bit 18 (drop_bit 12 x))" and ?b = "x AND mask 12"
    have "?a AND ?b = 0" by (rule bit_word_eqI) (auto simp: bit_simps)
    then have "?a OR ?b = ?a + ?b" using word_plus_and_or [of ?a ?b] by simp
    then show ?thesis unfolding masks_as_slices by (simp add: push_bit_eq_mult mult.commute)
  qed
  also have "\<dots> = take_bit 30 x" by (rule bit_word_eqI) (auto simp: bit_simps)
  finally have "4096 * of_nat (guest_pfn x) + (x AND 0xfff) = take_bit 30 x" unfolding p .
  moreover have "0x40000000 AND take_bit 30 x = 0"
  proof -
    have "take_bit 30 x = x AND 0x3fffffff" by (simp add: take_bit_eq_mask mask_eq_exp_minus_1)
    then show ?thesis by (simp add: and.left_commute [of _ x])
  qed
  ultimately show ?thesis using word_plus_and_or [of "0x40000000" "take_bit 30 x"] by (simp add: add.assoc)
qed

lemma demo_gib_walk:
  "ept_walk demo_gib_mem 0x1fe000 x =
    (if guest_pfn x < 262144 then Some (0x40000000 + 4096 * of_nat (guest_pfn x) + (x AND 0xfff)) else None)"
proof -
  let ?p = "LINEAR_ADDRESS_GET_PML4 x" and ?q = "LINEAR_ADDRESS_GET_DIRECTORY_PTR x"
  have "unat ?p < 512" "unat ?q < 512" by (simp_all add: unat_slices)
  then have "ept_walk demo_gib_mem 0x1fe000 x = (if ?p = 0 \<and> ?q = 0 then Some (0x40000000 OR take_bit 30 x) else None)"
    by (simp add: ept_walk_def demo_gib_entry demo_next demo_gib_large low_30 Let_def)
      (simp add: ept_present_def hv_const)
  then show ?thesis using demo_gib_address first_gib by simp
qed

section \<open>The state\<close>

lemma demo_gib_paging: "paging_ready demo_gib [demo_arena] demo_vp demo_gib_vm demo_gib_pages"
proof (rule demo_block_ready)
  have "block_pages 0x1fd000 (Suc (Suc 0)) = {#0x1fe000, 0x1fd000#}"
    unfolding block_pages_Suc block_pages_0 by simp
  then have "set_mset (block_pages 0x1fd000 2) = {0x1fe000, 0x1fd000}"
    unfolding numeral_2_eq_2 [symmetric] by simp
  then show "ept_wf demo_gib_mem 0x1fe000 (set (demo_block 0x1fd000 2))" using demo_gib_wf by simp
qed (simp_all add: phys_page_def page_aligned_def demo_gib_walk)

lemma demo_gib_machine:
  "guest_physical_pages_used_by_initial_setup demo_gib_vm = 0" "guest_cr3 (guest_state (vmcs_config demo_gib_vm)) = 0"
  by (simp_all add: demo_block_vm_def vm_with_ept_def demo_machine_def vm_zero_def)

lemma demo_gib_ready: "loader_ready demo_gib [demo_arena] demo_vp demo_gib_vm demo_gib_pages"
  using demo_gib_paging demo_gib_machine(1) by (simp add: paging_ready_def loader_ready_def)

section \<open>The image\<close>

lemma demo_image_field:
  "image_field f (image_hdr demo_img) m = get_at 0x800000 (497 + offsetof linux_setup_header_t f) (sizeof_field linux_setup_header_t f) m"
  by (simp add: image_field_def get_hdr_at)

lemma demo_image_fields:
  "image_field ''setup_sects'' (image_hdr demo_img) demo_gib_mem = 1"
  "image_field ''jump'' (image_hdr demo_img) demo_gib_mem = 0x66eb"
  "image_field ''header'' (image_hdr demo_img) demo_gib_mem = 0x53726448"
  "image_field ''xloadflags'' (image_hdr demo_img) demo_gib_mem = 1"
  "image_field ''kernel_alignment'' (image_hdr demo_img) demo_gib_mem = 0x200000"
  "image_field ''pref_address'' (image_hdr demo_img) demo_gib_mem = 0x1000000"
  "image_field ''cmdline_size'' (image_hdr demo_img) demo_gib_mem = 2047"
  unfolding demo_image_field
  by (simp_all add: linux_header_offsets demo_gib_mem_def demo_image_def field_simps del: One_nat_def)

lemma demo_kernel_offset: "linux_kernel_offset demo_img demo_gib_mem = 1024"
  using demo_image_fields(1) unfolding linux_kernel_offset_def linux_sects_def by simp

lemma demo_kernel_byte: "demo_gib_mem 0x800400 = 0xf4"
proof -
  have "get_at 0x800000 1024 1 demo_gib_mem = 0xf4"
    by (simp add: demo_gib_mem_def demo_image_def field_simps take_bit_eq_mask mask_eq_exp_minus_1 del: One_nat_def)
  then have b: "(ucast (demo_gib_mem 0x800400) :: u64) = 0xf4" by (simp add: get_at_def)
  have "demo_gib_mem 0x800400 = ucast (ucast (demo_gib_mem 0x800400) :: u64)"
    by (rule bit_word_eqI) (simp add: bit_ucast_iff)
  then show ?thesis unfolding b by simp
qed

lemma demo_image_outside: "image_outside demo_gib_vm demo_img 4096"
  unfolding image_outside_def
proof (intro allI impI)
  fix k assume k: "k < unat (4096 :: u64)"
  have "guest_mapped (phys demo_gib) demo_gib_vm demo_gib_pages" using demo_gib_ready by (simp add: loader_ready_def)
  then have g: "guest_pages demo_gib_vm = mset demo_gib_pages" by (simp add: guest_mapped_def)
  have "page_aligned 0x800000" by (simp add: page_aligned_def)
  moreover have "unat (of_nat k :: u64) < 4096" using k by (simp add: unat_of_nat_64)
  ultimately have "(0x800000 + of_nat k) AND PAGE_MASK = 0x800000"
    using page_base_plus(1) [of "0x800000" "of_nat k"] by (simp add: PAGE_MASK_def)
  moreover have "0x800000 \<notin> set demo_gib_pages"
    using demo_block_page(2) [of "0x40000000" 262144 "0x800000"] by (auto simp: phys_page_def page_aligned_def)
  ultimately show "(V2P_IDENTITY_MAP demo_img + of_nat k) AND PAGE_MASK \<notin># guest_pages demo_gib_vm" by (simp add: g)
qed

lemma demo_pref_aligned: "image_pref_aligned demo_img demo_gib_mem"
  using demo_image_fields(2,6) unfolding image_pref_aligned_def linux_setup_header_size_def image_field_def
  by (simp add: page_aligned_def linux_header_offsets del: V2P_P2V)

lemma demo_cmdline: "c_string ''quiet'' = ''quiet''"
  by (simp add: c_string_def)

lemma demo_gib_phys [simp]: "phys demo_gib = demo_gib_mem"
  by (simp add: demo_block_st_def)

lemma demo_image_ok: "linux_image_ok demo_gib demo_gib_vm demo_gib_pages demo_img 4096 ''quiet''"
  using demo_image_outside demo_pref_aligned demo_image_fields
  by (simp add: linux_image_ok_def linux_check_header_def demo_kernel_offset demo_cmdline image_field_def Let_def del: V2P_P2V)

end
