(* ===== verification/Spec2Isabelle.thy ===== *)
theory Spec2Isabelle
  imports Demo_Run Demo_Linux
begin

text \<open>
  A verification library for the hypervisor rkhv.
\<close>

section \<open>Guest memory\<close>

text \<open>
  C1.  A successful \<open>vm_manager_allocate_guest_physical_memory\<close> on a machine without memory gives it as
  many distinct, zeroed pages as asked, owned by no one before, mapped in order from guest physical
  address 0 and nothing else mapped; the invariant of the hypervisor holds again, and no other machine
  sees a change of its tables or pages.
\<close>

theorem guest_memory_allocation:
  assumes "vm_manager_allocate_guest_physical_memory vp n s = Inr s'"
    and "hv_ok s as" "get_vm s vp = Inr v" "guest_memory_is (phys s) v []" "unat n \<le> 2 ^ 36"
  shows "\<exists>v' ps. hv_ok s' as \<and> get_vm s' vp = Inr v' \<and> guest_physical_pages v' = n \<and>
    guest_memory_is (phys s') v' ps \<and> length ps = unat n \<and> distinct ps \<and> vm_others vp s s'"
  by (rule vm_manager_allocate_guest_physical_memory_ok [OF assms(1-4)]) (use assms(5) in simp)

theorem guest_memory_allocation_witness:
  "\<exists>v' ps. hv_ok demo_mapped [demo_arena] \<and> get_vm demo_mapped demo_vp = Inr v' \<and> guest_physical_pages v' = 1 \<and>
    guest_memory_is (phys demo_mapped) v' ps \<and> length ps = unat (1 :: u64) \<and> distinct ps \<and>
    vm_others demo_vp demo_vm demo_mapped"
  by (rule guest_memory_allocation [OF demo_allocate demo_vm_ok demo_vm_machine(1,2)]) simp



text \<open>
  C3.  \<open>vmx_ept_map_page\<close> refines an update of the translation: after it succeeds, the addresses of the
  mapped guest page translate to the host page, all others as before; the page was not mapped, and the
  invariant holds again.
\<close>

theorem ept_map_page_refines:
  assumes "vmx_ept_map_page vp g h s = Inr s'" "hv_ok s as" "get_vm s vp = Inr v" "phys_page h"
  shows "hv_ok s' as \<and> vmx_ept_get_host_physical_address s vp g = Inr None \<and>
    vmx_ept_get_host_physical_address s' vp x =
      (if same_guest_page x g then Inr (Some (h + (x AND 0xfff))) else vmx_ept_get_host_physical_address s vp x)"
proof -
  obtain r l where "hv_ok s' as" "get_vm s' vp = Inr (vm_with_ept v r l)" "vm_walk (phys s) v g = None"
    "\<And>x. vm_walk (phys s') (vm_with_ept v r l) x =
       (if same_guest_page x g then Some (h + (x AND 0xfff)) else vm_walk (phys s) v x)"
    by (rule vmx_ept_map_page_ok [OF assms]) (rule that)
  with assms(3) show ?thesis by (simp add: vmx_ept_get_host_physical_address_walk)
qed

theorem ept_map_page_refines_witness:
  "vmx_ept_get_host_physical_address demo_mapped demo_vp 0x123 = Inr (Some 0x1fa123)"
proof -
  obtain v where v: "get_vm demo_premap demo_vp = Inr v" using demo_premap_machine by blast
  have "phys_page 0x1fa000" "same_guest_page 0x123 0"
    by (simp_all add: phys_page_def page_aligned_def same_guest_page_def)
  then show ?thesis using ept_map_page_refines [OF demo_premap_map demo_premap_ok v, of "0x123"] by simp
qed

text \<open>
  C4.  Mapping a guest page that already translates stops the machine with the remapping panic, whether a
  4 KiB, 2 MiB or 1 GiB page maps it: a mapping is never silently replaced.
\<close>

theorem ept_remap_panics:
  assumes "vmx_ept_get_host_physical_address s vp g = Inr (Some h)"
  shows "vmx_ept_map_page vp g h' s = Inl (Panic already_mapped_panic_str)"
  using assms vmx_ept_map_page_remap by (auto simp: vmx_ept_get_host_physical_address_def bnd_Inr_iff)

theorem ept_remap_panics_witness:
  "vmx_ept_map_page demo_vp 0 0x7000 demo_mapped = Inl (Panic already_mapped_panic_str)"
  by (rule demo_mapped_facts) (rule ept_remap_panics)

section \<open>Running a machine\<close>





section \<open>The VMCS\<close>

text \<open>
  C7.  The first machine's VMCS region is also the page of the MSR bitmaps: the region is not marked as used
  while its VMCS is built, so the search for a page for the bitmaps returns it again, and their
  initialization overwrites the revision identifier.
\<close>

theorem vmcs_shares_bitmaps:
  assumes "vmx_create_initialized_vmcs vmexit vp s = Inr s'" "hv_ok s as" "\<not> msr_bitmaps_page_valid s"
  shows "\<exists>v'. get_vm s' vp = Inr v' \<and> msr_bitmaps_page s' = vmcs_region v' \<and> read_le 4 (phys s') (vmcs_region v') = 0"
  using vmx_create_initialized_vmcs_shares [OF assms(1) _ _ assms(3)] hv_ok_inv [OF assms(2)]
  by (auto simp: hv_inv_def mm_ok_def vms_ok_def)

theorem vmcs_shares_bitmaps_witness:
  "\<exists>s' v'. vmx_create_initialized_vmcs 0 demo_vp demo_gdt = Inr s' \<and> get_vm s' demo_vp = Inr v' \<and>
    msr_bitmaps_page s' = vmcs_region v' \<and> read_le 4 (phys s') (vmcs_region v') = 0"
proof -
  obtain s' where s': "vmx_create_initialized_vmcs 0 demo_vp demo_gdt = Inr s'" using demo_create_vmcs by blast
  have "hv_ok demo_gdt [demo_arena] = hv_ok demo_vm [demo_arena]" by (rule hv_ok_frame(1)) (simp_all add: demo_gdt_def)
  moreover have "\<not> msr_bitmaps_page_valid demo_gdt" by (simp add: demo_gdt_def demo_vm_def)
  ultimately show ?thesis using s' vmcs_shares_bitmaps [OF s', of "[demo_arena]"] demo_vm_ok by auto
qed



text \<open>
  C9.  A control value keeps to the capability MSR: a bit is set exactly when the MSR allows it and it is
  requested or required.
\<close>

theorem allowed_bits:
  "bit (vmx_ensure_allowed_bits s msr requested) n \<longleftrightarrow> n < 32 \<and> bit (rdmsr s (ucast msr)) (32 + n) \<and>
     (bit requested n \<or> bit (rdmsr s (ucast msr)) n)"
  by (auto simp: vmx_ensure_allowed_bits_bit ctl_required_def ctl_allowed_def dest: bit_imp_le_length)

section \<open>Pages of physical memory\<close>



text \<open>C11.  A page that the search returns has no owner: no arena, VMX region, bitmap or machine holds it.\<close>

theorem fresh_page_unowned:
  assumes "mm_get_free_page s = Inr (p, s')" "hv_inv s as"
  shows "phys_page p \<and> p \<notin># owned s as \<and> \<not> mm_page_used_by_chainload s p \<and> hv_inv s' as"
  using fresh_page_facts [OF assms] by simp

theorem fresh_page_unowned_witness: "0x1ff000 \<notin># owned demo_boot []"
  using fresh_page_unowned [OF demo_first_page, of "[]"] demo_boot_ok by (simp add: hv_ok_def)

text \<open>
  C12.  Tracking a page that nobody owns keeps the invariant that every page has at most one owner, and adds
  exactly this page to the owned ones, whether the list of the machine grows, a block is extended or an
  empty block is reused.
\<close>

theorem track_page_owns:
  assumes "vm_manager_track_page vp p ty pool s = Inr s'" "hv_inv s as" "phys_page p" "p \<notin># owned s as"
    and "\<not> mm_page_used_by_chainload s p"
  shows "hv_inv s' as \<and> owned s' as = add_mset p (owned s as)"
  by (rule vm_manager_track_page_ok [OF assms]) simp

theorem track_page_owns_witness:
  "owned (demo_alloc 296 254 [blk 0x1fe000 1 VM_PAGE_TYPE_EPT True]) [demo_arena] =
    add_mset 0x1fe000 (owned (demo_alloc 272 254 []) [demo_arena])"
proof -
  have "mm_get_free_page (demo_alloc 272 255 []) = Inr (0x1fe000, demo_alloc 272 254 [])"
    using demo_take_alloc [of 272 255 "[]"] by (simp add: demo_use_defs demo_alloc_def)
  note free = fresh_page_facts [OF this hv_ok_inv [OF demo_first_ok]]
  moreover have "owned (demo_alloc 272 255 []) as = owned (demo_alloc 272 254 []) as" for as
    by (simp add: owned_def demo_alloc_def)
  moreover have "mm_page_used_by_chainload (demo_alloc 272 255 []) = mm_page_used_by_chainload (demo_alloc 272 254 [])"
    by (simp add: fun_eq_iff demo_alloc_def)
  ultimately have f: "hv_inv (demo_alloc 272 254 []) [demo_arena]" "phys_page 0x1fe000"
    "0x1fe000 \<notin># owned (demo_alloc 272 254 []) [demo_arena]"
    "\<not> mm_page_used_by_chainload (demo_alloc 272 254 []) 0x1fe000"
    by simp_all
  have "vm_manager_track_page demo_vp 0x1fe000 VM_PAGE_TYPE_EPT True (demo_alloc 272 254 []) =
      Inr (demo_alloc 296 254 [blk 0x1fe000 1 VM_PAGE_TYPE_EPT True])"
    by (simp add: demo_track_defs demo_alloc_def demo_arena_put)
  from track_page_owns [OF this f] show ?thesis by simp
qed

text \<open>
  C13.  Taking a page from a machine's reserved pool succeeds exactly when the pool has one; the page leaves
  the machine, belongs to nobody, and the invariant holds for the pages that are left.
\<close>

theorem untrack_page_releases:
  assumes "vm_manager_untrack_page_from_reserved_pool vp ty s = Inr (r, s')" "hv_inv s as" "get_vm s vp = Inr v"
  shows "hv_inv s' as \<and> (case r of None \<Rightarrow> s' = s \<and> kind_mset (ty, True) (tracked_pages v) = {#}
    | Some p \<Rightarrow> p \<in># kind_mset (ty, True) (tracked_pages v) \<and> p \<notin># owned s' as \<and> owned s as = add_mset p (owned s' as))"
  using assms(3) by (cases rule: vm_manager_untrack_ok [OF assms(1,2)]) (auto simp: adds_page_def assms(2))

theorem untrack_page_releases_witness:
  "\<exists>p s'. vm_manager_untrack_page_from_reserved_pool demo_vp VM_PAGE_TYPE_EPT demo_premap = Inr (Some p, s') \<and>
    p \<notin># owned s' [demo_arena]"
proof -
  obtain p s' where u: "vm_manager_untrack_page_from_reserved_pool demo_vp VM_PAGE_TYPE_EPT demo_premap = Inr (Some p, s')"
    by (simp add: vm_manager_untrack_page_from_reserved_pool_def demo_premap_def demo_alloc_def demo_machine_def)
  obtain v where v: "get_vm demo_premap demo_vp = Inr v" using demo_premap_machine by blast
  from untrack_page_releases [OF u hv_ok_inv [OF demo_premap_ok] v] u show ?thesis by auto
qed

text \<open>C14.  Destroying an arena unlinks it from the list, from its head, its middle or its end, and keeps the others.\<close>

theorem arena_destroy_unlinks:
  assumes "arena_ok s as" "a \<in> set as"
  shows "\<exists>s'. arena_destroy a s = Inr s' \<and> arena_ok s' (remove1 a as) \<and> phys s' = phys s"
  by (rule arena_destroy_ok [OF assms]) auto

theorem arena_destroy_unlinks_witness: "\<exists>s'. arena_destroy demo_arena demo_vm = Inr s' \<and> arena_ok s' []"
proof -
  have "arena_ok demo_vm [demo_arena]" unfolding demo_vm_def by (rule demo_arena_ok) simp
  from arena_destroy_unlinks [OF this] show ?thesis by auto
qed

text \<open>
  C15.  An allocation from an arena returns the next free bytes of its page, after all earlier allocations, or
  panics when they do not fit in the page; other arenas are not touched.
\<close>

theorem arena_allocate_bounds:
  assumes "arena_ok s as" "a \<in> set as"
  shows "case arena_allocate a n s of
      Inr (p, s') \<Rightarrow> arena_end s a + unat n \<le> 4096 \<and> p = a + of_nat (arena_end s a) \<and> arena_ok s' as \<and>
        arena_end s' a = arena_end s a + unat n \<and> (\<forall>b. b \<noteq> a \<longrightarrow> arena_heap s' b = arena_heap s b)
    | Inl e \<Rightarrow> 4096 < arena_end s a + unat n \<and> e = Panic ''subarenas not supported right now''"
  using arena_allocate_spec [OF assms, of n] by (auto split: if_splits)

theorem arena_allocate_bounds_witness:
  "\<exists>s'. arena_allocate demo_arena 24 demo_vm = Inr (0x100001ff130, s') \<and> arena_end s' demo_arena = 328"
proof -
  have ok: "arena_ok demo_vm [demo_arena]" unfolding demo_vm_def by (rule demo_arena_ok) simp
  have e: "arena_end demo_vm demo_arena = 304" by (simp add: demo_vm_def demo_arena_end)
  from arena_allocate_bounds [OF ok, of demo_arena 24] show ?thesis
    by (auto simp: e split: sum.splits) (simp add: demo_arena_def)
qed

section \<open>Model-specific registers\<close>

text \<open>
  C16.  The bitmaps let the guest read every MSR that they cover without an exit, and write exactly those of
  the list; every other access exits.
\<close>

theorem msr_bitmaps_policy:
  "msr_write_exits (vmx_msr_init_bitmaps p m) p a = (a \<notin> set VMX_MSR_LIST) \<and>
   msr_read_exits (vmx_msr_init_bitmaps p m) p a = (msr_index a = None)"
  by (simp add: msr_bitmaps_write_exits msr_bitmaps_read_exits)



section \<open>The machines\<close>

text \<open>C18.  After a launch the machine that was launched is the current one, and is found as such by the exit handler.\<close>

theorem launched_machine_is_current:
  assumes "vm_manager_launch vp s = Inr s'" "vp \<noteq> 0" "cpu_vmx_error (cpu s) Vmptrst 0 = 0"
  shows "vm_manager_get_current_vm s' = Inr vp \<and> get_vm s' = get_vm s"
  using vm_manager_launch_current [OF assms(1)] assms(2,3) by blast

theorem launched_machine_is_current_witness:
  "\<exists>s'. vm_manager_launch demo_vp demo_run = Inr s' \<and> vm_manager_get_current_vm s' = Inr demo_vp"
proof -
  have "\<exists>s'. vm_manager_launch demo_vp demo_run = Inr s'"
    by (rule vm_manager_launch_returns [of _ _ demo_run_vm]) simp_all
  then obtain s' where l: "vm_manager_launch demo_vp demo_run = Inr s'" by blast
  have "demo_vp \<noteq> 0" by (simp add: demo_vp_def)
  from launched_machine_is_current [OF l this] l show ?thesis by simp
qed

section \<open>Devices\<close>

text \<open>C19.  Registering an unlinked device puts it in front of the machine's list of devices.\<close>

theorem register_device_prepends:
  assumes "get_vm s vp = Inr v" "dev_list (dev_heap s) (vm_devices v) ds" "dev_heap s a = Some d" "dev_next d = 0"
    and "a \<noteq> 0" "a \<notin> set ds"
  shows "\<exists>s' v'. vm_manager_register_device vp a s = Inr s' \<and> get_vm s' vp = Inr v' \<and>
    dev_list (dev_heap s') (vm_devices v') (a # ds) \<and> phys s' = phys s"
  by (rule register_device_list [OF assms])

theorem register_device_prepends_witness:
  "\<exists>s' v'. vm_manager_register_device demo_vp demo_device demo_serial = Inr s' \<and> get_vm s' demo_vp = Inr v' \<and>
    dev_list (dev_heap s') (vm_devices v') [demo_device]"
proof -
  have "get_vm demo_serial demo_vp = Inr (demo_run_vm\<lparr>vm_devices := 0\<rparr>)" by (simp add: demo_serial_frame demo_mapped_vm)
  moreover have "dev_heap demo_serial demo_device = Some (vmd_8250uart_device COM1 demo_uart)" "demo_device \<noteq> 0"
    by (simp_all add: demo_serial_def demo_device_def)
  moreover have "dev_next (vmd_8250uart_device COM1 demo_uart) = 0" by (simp add: vmd_8250uart_device_def)
  ultimately show ?thesis
    using register_device_prepends [of demo_serial demo_vp "demo_run_vm\<lparr>vm_devices := 0\<rparr>" "[]" demo_device] by auto
qed



text \<open>
  C21.  Port accesses are total: on a machine whose devices are serial ports, every read and write of a byte, a
  word or a double word, on any port, returns, and changes nothing but serial ports and the console.
\<close>

theorem port_accesses_total:
  assumes "machine_io_ok s vp"
  shows "(\<exists>s'. vm_outb vp port b s = Inr s' \<and> machine_io_ok s' vp \<and> io_frame s s') \<and>
    (\<exists>s'. vm_outw vp port w s = Inr s' \<and> machine_io_ok s' vp \<and> io_frame s s') \<and>
    (\<exists>s'. vm_outd vp port d s = Inr s' \<and> machine_io_ok s' vp \<and> io_frame s s') \<and>
    (\<exists>x s'. vm_inb vp port s = Inr (x, s') \<and> machine_io_ok s' vp \<and> io_frame s s') \<and>
    (\<exists>x s'. vm_inw vp port s = Inr (x, s') \<and> machine_io_ok s' vp \<and> io_frame s s') \<and>
    (\<exists>x s'. vm_ind vp port s = Inr (x, s') \<and> machine_io_ok s' vp \<and> io_frame s s')"
  using outb.out_ok [OF assms] outw.out_ok [OF assms] outd.out_ok [OF assms]
    inb.in_ok [OF assms] inw.in_ok [OF assms] ind.in_ok [OF assms]
  by blast

theorem port_accesses_total_witness: "\<exists>s'. vm_outb demo_vp 0x80 0xff demo_run = Inr s' \<and> io_frame demo_run s'"
proof -
  have "machine_io_ok demo_run demo_vp" using demo_running by (auto simp: vm_running_def)
  from port_accesses_total [OF this] show ?thesis by blast
qed

section \<open>The serial port\<close>





text \<open>C24.  The two bytes of the baud rate divisor, written while the divisor latch is selected, are read back.\<close>

theorem baud_divisor_roundtrip:
  assumes "uart_at s up = Inr u" "get_vm s vp = Inr v" "dlab u"
  shows "\<exists>s1 s2. vmd_8250uart_outb_handler vp up (port_base u) lo s = Inr s1 \<and>
    vmd_8250uart_outb_handler vp up (port_base u + 1) hi s1 = Inr s2 \<and>
    vmd_8250uart_inb_handler up (port_base u) s2 = Inr lo \<and> vmd_8250uart_inb_handler up (port_base u + 1) s2 = Inr hi"
  by (rule vmd_8250uart_divisor_roundtrip [OF assms])

theorem baud_divisor_roundtrip_witness:
  "\<exists>s1 s2. vmd_8250uart_outb_handler demo_vp demo_uart COM1 1 demo_latch = Inr s1 \<and>
    vmd_8250uart_outb_handler demo_vp demo_uart (COM1 + 1) 2 s1 = Inr s2 \<and>
    vmd_8250uart_inb_handler demo_uart COM1 s2 = Inr 1 \<and> vmd_8250uart_inb_handler demo_uart (COM1 + 1) s2 = Inr 2"
  using baud_divisor_roundtrip [of demo_latch demo_uart demo_latch_uart demo_vp demo_run_vm 1 2]
  by (simp add: demo_latch_facts)

section \<open>Emulated instructions\<close>

text \<open>
  C25.  After \<open>MOV\<close> to CR4 the guest reads back the value it wrote, \<open>VMXE\<close> included, while the CR4 in use has
  \<open>VMXE\<close> set, as VMX operation requires.
\<close>

theorem mov_cr4_read_back:
  assumes "vm_emulated_instruction_mov_to_cr 4 x vs s = Inr (vs', s')"
  shows "cr4 vs' AND CR4_VMXE \<noteq> 0 \<and>
    cr_as_read CR4_VMXE (cpu_vmcs (cpu s') (cpu_current_vmcs (cpu s')) VMCS_CF_CR4_READ_SHADOW) (cr4 vs') = x"
  using mov_to_cr4_read_back [OF assms] by blast

theorem mov_cr4_read_back_witness:
  "\<exists>vs' s'. vm_emulated_instruction_mov_to_cr 4 0x20 demo_vs demo_run = Inr (vs', s') \<and> cr4 vs' AND CR4_VMXE \<noteq> 0 \<and>
    cr_as_read CR4_VMXE (cpu_vmcs (cpu s') (cpu_current_vmcs (cpu s')) VMCS_CF_CR4_READ_SHADOW) (cr4 vs') = 0x20"
proof -
  obtain vs' s' where "vm_emulated_instruction_mov_to_cr 4 0x20 demo_vs demo_run = Inr (vs', s')"
    by (simp add: vm_emulated_instruction_mov_to_cr_def vmx_vmwrite_def VMX_ASSERT_def Let_def)
  from mov_cr4_read_back [OF this] this show ?thesis by blast
qed

text \<open>
  C26.  \<open>XSETBV\<close> accepts exactly the values with the x87 bit, no bit that the host lacks, and AVX only with SSE;
  it then keeps the value for this machine only, and it panics on any other value or register.
\<close>

theorem xsetbv_policy:
  assumes "get_vm s (st_vm vs) = Inr v" "x = push_bit 32 (rdx (reg_state vs)) OR (rax (reg_state vs) AND 0xffffffff)"
  shows "if rcx (reg_state vs) = 0 \<and> xcr0_allowed (xsave_host_xcr0 s) x
    then vm_emulated_instruction_xsetbv vs s = Inr (vs, put_vm (st_vm vs) (v\<lparr>permanent_xcr0 := x\<rparr>) s)
    else \<exists>m. vm_emulated_instruction_xsetbv vs s = Inl (Panic m)"
proof (cases "rcx (reg_state vs) = 0")
  case True
  from xsetbv_effect [OF assms(1) True] assms(2) True show ?thesis by simp
next
  case False
  then show ?thesis by (simp add: vm_emulated_instruction_xsetbv_def Let_def)
qed

theorem xsetbv_policy_witness:
  "\<exists>m. vm_emulated_instruction_xsetbv (demo_vs\<lparr>reg_state := vmx_gpr_zero\<lparr>rax := 4\<rparr>\<rparr>) demo_run = Inl (Panic m)"
proof -
  let ?vs = "demo_vs\<lparr>reg_state := vmx_gpr_zero\<lparr>rax := 4\<rparr>\<rparr>"
  have g: "get_vm demo_run (st_vm ?vs) = Inr demo_run_vm" by (simp add: demo_vs_def)
  have n: "\<not> xcr0_allowed h 4" for h by (simp add: xcr0_allowed_def bit_0)
  from xsetbv_policy [OF g refl] show ?thesis by (simp add: vmx_gpr_zero_def n)
qed





section \<open>The page tables of a guest\<close>



text \<open>
  C30.  A machine that is too small for the tables, down to a single page, is detected: the setup panics
  instead of writing outside its memory, because the address below guest memory wraps to one that the
  extended page tables do not map.
\<close>

theorem guest_paging_too_small:
  assumes "hv_ok s as" "get_vm s vp = Inr v" "guest_mapped (phys s) v ps" "length ps < 514" "ps \<noteq> []"
    and "guest_physical_pages v = of_nat (length ps)" "guest_physical_pages_used_by_initial_setup v = 0"
  shows "\<exists>m. vm_guest_paging_setup_identity vp s = Inl (Panic m)"
proof (cases "length ps = 1")
  case True
  with vm_guest_paging_setup_identity_one [OF assms(2,3) True] assms(6,7) show ?thesis by simp
next
  case False
  with assms(5) have "2 \<le> length ps" by (cases "length ps") auto
  then have "paging_ready s as vp v ps" using assms by (simp add: paging_ready_def)
  from vm_guest_paging_setup_identity_too_small [OF this assms(4,7)] show ?thesis by simp
qed

theorem guest_paging_too_small_witness: "\<exists>m. vm_guest_paging_setup_identity demo_vp demo_mapped = Inl (Panic m)"
proof -
  obtain v ps where v: "get_vm demo_mapped demo_vp = Inr v" "guest_memory_is (phys demo_mapped) v ps"
    "hv_ok demo_mapped [demo_arena]" "length ps = unat (1 :: u64)"
    using vm_manager_allocate_guest_physical_memory_ok [OF demo_allocate demo_vm_ok demo_vm_machine] by auto
  then have "length ps = 1" "ps \<noteq> []" by auto
  moreover have "v = demo_run_vm\<lparr>vm_devices := 0\<rparr>" using v(1) by (simp add: demo_mapped_vm)
  then have "guest_physical_pages v = 1" "guest_physical_pages_used_by_initial_setup v = 0"
    by (simp_all add: demo_run_vm_def vm_with_ept_def demo_machine_def vm_zero_def)
  ultimately show ?thesis
    using guest_paging_too_small [OF v(3,1) guest_memory_is_mapped [OF v(2)]] by simp
qed



section \<open>Printing\<close>


section \<open>Interrupts\<close>

text \<open>
  C33.  The setup of the interrupts fills the table: the address that the processor assembles from the three parts
  of gate \<open>i\<close> is stub \<open>i\<close>, in the hypervisor's code segment, and the table is the one that is loaded.
\<close>

theorem idt_gates_reassemble:
  assumes "i < 256"
  shows "\<exists>s' idt. interrupts_setup IDT isr_stub_table s = Inr s' \<and> idt_heap s' IDT = Some idt \<and> length idt = 256 \<and>
    gate_offset (idt ! i) = isr_stub_table i \<and> segment_selector (idt ! i) = RKHV_CS \<and>
    interrupts_sidt s' = \<lparr>idtr_size = 0xfff, idtr_offset = IDT\<rparr>"
  using interrupts_setup_idt [of IDT isr_stub_table s] assms
  by (auto simp: interrupts_sidt_def) (simp add: interrupts_gate_def)

theorem idt_gates_reassemble_witness:
  "\<exists>s' idt. interrupts_setup 0x1000 (\<lambda>i. 0xffffff8000001000 + 16 * of_nat i) demo_boot = Inr s' \<and>
    idt_heap s' 0x1000 = Some idt \<and> gate_offset (idt ! 14) = 0xffffff80000010e0"
  using idt_gates_reassemble [of 14 "0x1000" "\<lambda>i. 0xffffff8000001000 + 16 * of_nat i" demo_boot] by auto


section \<open>Loading a Linux kernel\<close>





end
